(* ===== verification/Prelude.thy ===== *)
theory Prelude
  imports Main "HOL-Library.Word"
begin

text \<open>
  The vocabulary the components share: the machine integers of the Rust sources, byte
  buffers with the slice and array operations the codecs use, results with early
  return, decimal rendering for the error messages, and the rewrite rules on them.

  \<^item> \<open>u8\<close>, \<open>u16\<close>, \<open>u32\<close>, \<open>u64\<close> and \<open>u128\<close> are words of the same width; \<open>usize\<close> (a 64-bit
    count on every supported target) is a natural number, and the operations that would
    leave the 64-bit range saturate explicitly.
  \<^item> \<open>Result<T, E>\<close> is the sum type \<open>'e + 'a\<close> (\<open>Inl\<close> the error); the \<open>?\<close> operator is
    \<open>and_then\<close>.
  \<^item> A fixed-size array under construction is a list; \<open>copy_at\<close> is
    \<open>output[o..].copy_from_slice(src)\<close> and \<open>slice\<close> is \<open>&bytes[a..b]\<close>. The collection
    \<open>slice_simps\<close> holds the read-over-write rules that carry the codec proofs.
  \<^item> Native byte order is little-endian: the control service is built for x86-64 Linux
    and the classifier for the same host.
\<close>

unbundle bit_operations_syntax

section \<open>Types and operations\<close>

type_synonym u8 = "8 word"
type_synonym u16 = "16 word"
type_synonym u32 = "32 word"
type_synonym u64 = "64 word"
type_synonym u128 = "128 word"
type_synonym usize = nat
type_synonym bytes = "u8 list"

named_theorems slice_simps
named_theorems result_simps

subsection \<open>Results and options\<close>

definition and_then :: "'e + 'a \<Rightarrow> ('a \<Rightarrow> 'e + 'b) \<Rightarrow> 'e + 'b" where
  "and_then r f = (case r of Inl e \<Rightarrow> Inl e | Inr x \<Rightarrow> f x)"

definition map_err :: "('e \<Rightarrow> 'f) \<Rightarrow> 'e + 'a \<Rightarrow> 'f + 'a" where
  "map_err g r = (case r of Inl e \<Rightarrow> Inl (g e) | Inr x \<Rightarrow> Inr x)"

definition ok_or :: "'e \<Rightarrow> 'a option \<Rightarrow> 'e + 'a" where
  "ok_or e o' = (case o' of None \<Rightarrow> Inl e | Some x \<Rightarrow> Inr x)"

definition is_ok :: "'e + 'a \<Rightarrow> bool" where
  "is_ok r = (case r of Inl _ \<Rightarrow> False | Inr _ \<Rightarrow> True)"

fun collect_results :: "('e + 'a) list \<Rightarrow> 'e + 'a list" where
  "collect_results [] = Inr []"
| "collect_results (r # rs) =
     (case r of
        Inl e \<Rightarrow> Inl e
      | Inr x \<Rightarrow> (case collect_results rs of Inl e \<Rightarrow> Inl e | Inr xs \<Rightarrow> Inr (x # xs)))"

subsection \<open>Fallible actions on a state\<close>

text \<open>A call that may fail and may change the state it runs on. \<open>bind_act\<close> is the \<open>?\<close>
  operator between two calls; \<open>attempt\<close> hands the result of a call, success or failure, to the
  continuation, as a \<open>match\<close> or an ignored result does.\<close>

definition ret :: "'a \<Rightarrow> 's \<Rightarrow> ('e + 'a) \<times> 's" where
  "ret x s = (Inr x, s)"

definition fail :: "'e \<Rightarrow> 's \<Rightarrow> ('e + 'a) \<times> 's" where
  "fail e s = (Inl e, s)"

definition bind_act ::
    "('s \<Rightarrow> ('e + 'a) \<times> 's) \<Rightarrow> ('a \<Rightarrow> 's \<Rightarrow> ('e + 'b) \<times> 's) \<Rightarrow> 's \<Rightarrow> ('e + 'b) \<times> 's" where
  "bind_act m f s = (case m s of (Inl e, s) \<Rightarrow> (Inl e, s) | (Inr x, s) \<Rightarrow> f x s)"

definition attempt :: "('s \<Rightarrow> 'r \<times> 's) \<Rightarrow> ('r \<Rightarrow> 's \<Rightarrow> 'b) \<Rightarrow> 's \<Rightarrow> 'b" where
  "attempt m f s = (case m s of (r, s) \<Rightarrow> f r s)"

subsection \<open>Saturating and checked arithmetic\<close>

definition saturating_add_u64 :: "u64 \<Rightarrow> u64 \<Rightarrow> u64" where
  "saturating_add_u64 a b = (if unat a + unat b < 2 ^ 64 then a + b else - 1)"

definition saturating_sub_u64 :: "u64 \<Rightarrow> u64 \<Rightarrow> u64" where
  "saturating_sub_u64 a b = (if b \<le> a then a - b else 0)"

definition usize_max :: usize where
  "usize_max = 2 ^ 64 - 1"

definition saturating_mul_usize :: "usize \<Rightarrow> usize \<Rightarrow> usize" where
  "saturating_mul_usize a b = min (a * b) usize_max"

definition u64_try_from :: "nat \<Rightarrow> u64 option" where
  "u64_try_from n = (if n < 2 ^ 64 then Some (of_nat n) else None)"

definition u16_try_from_u32 :: "u32 \<Rightarrow> u16 option" where
  "u16_try_from_u32 n = (if n \<le> 0xFFFF then Some (ucast n) else None)"

definition u8_try_from_u32 :: "u32 \<Rightarrow> u8 option" where
  "u8_try_from_u32 n = (if n \<le> 0xFF then Some (ucast n) else None)"

subsection \<open>Byte order\<close>

fun le_bytes :: "nat \<Rightarrow> 'a::len word \<Rightarrow> bytes" where
  "le_bytes 0 w = []"
| "le_bytes (Suc n) w = ucast w # le_bytes n (drop_bit 8 w)"

fun from_le_bytes :: "bytes \<Rightarrow> 'a::len word" where
  "from_le_bytes [] = 0"
| "from_le_bytes (b # bs) = ucast b OR push_bit 8 (from_le_bytes bs)"

definition to_le_bytes :: "'a::len word \<Rightarrow> bytes" where
  "to_le_bytes w = le_bytes (LENGTH('a) div 8) w"

definition to_be_bytes :: "'a::len word \<Rightarrow> bytes" where
  "to_be_bytes w = rev (to_le_bytes w)"

definition from_be_bytes :: "bytes \<Rightarrow> 'a::len word" where
  "from_be_bytes bs = from_le_bytes (rev bs)"

definition to_ne_bytes :: "'a::len word \<Rightarrow> bytes" where
  "to_ne_bytes w = to_le_bytes w"

definition from_ne_bytes :: "bytes \<Rightarrow> 'a::len word" where
  "from_ne_bytes bs = from_le_bytes bs"

subsection \<open>Slices and arrays\<close>

definition slice :: "nat \<Rightarrow> nat \<Rightarrow> 'a list \<Rightarrow> 'a list" where
  "slice a b xs = take (b - a) (drop a xs)"

definition copy_at :: "nat \<Rightarrow> 'a list \<Rightarrow> 'a list \<Rightarrow> 'a list" where
  "copy_at off src xs = take off xs @ src @ drop (off + length src) xs"

subsection \<open>Decimal rendering and joining\<close>

fun show_nat :: "nat \<Rightarrow> string" where
  "show_nat n =
     (if n < 10 then [char_of (48 + n)] else show_nat (n div 10) @ [char_of (48 + n mod 10)])"

declare show_nat.simps [simp del]

definition show_word :: "'a::len word \<Rightarrow> string" where
  "show_word w = show_nat (unat w)"

fun str_contains :: "string \<Rightarrow> string \<Rightarrow> bool" where
  "str_contains needle [] = (needle = [])"
| "str_contains needle (c # cs) =
     (take (length needle) (c # cs) = needle \<or> str_contains needle cs)"

fun join :: "string \<Rightarrow> string list \<Rightarrow> string" where
  "join sep [] = []"
| "join sep [s] = s"
| "join sep (s # t # ss) = s @ sep @ join sep (t # ss)"

section \<open>Lemmas\<close>

subsection \<open>Results\<close>

lemma and_then_simps [simp, result_simps]:
  "and_then (Inl e) f = Inl e" "and_then (Inr x) f = f x"
  by (simp_all add: and_then_def)

lemma map_err_simps [simp, result_simps]:
  "map_err g (Inl e) = Inl (g e)" "map_err g (Inr x) = Inr x"
  by (simp_all add: map_err_def)

lemma ok_or_simps [simp, result_simps]:
  "ok_or e None = Inl e" "ok_or e (Some x) = Inr x"
  by (simp_all add: ok_or_def)

lemma is_ok_simps [simp, result_simps]:
  "\<not> is_ok (Inl e)" "is_ok (Inr x)"
  by (simp_all add: is_ok_def)

lemma and_then_Inr_iff: "and_then r f = Inr y \<longleftrightarrow> (\<exists>x. r = Inr x \<and> f x = Inr y)"
  by (cases r) auto

lemma and_then_Inl_iff:
  "and_then r f = Inl e \<longleftrightarrow> r = Inl e \<or> (\<exists>x. r = Inr x \<and> f x = Inl e)"
  by (cases r) auto

lemma map_err_Inr_iff [simp]: "map_err g r = Inr y \<longleftrightarrow> r = Inr y"
  by (cases r) auto

lemma map_err_Inl_iff: "map_err g r = Inl e \<longleftrightarrow> (\<exists>e'. r = Inl e' \<and> e = g e')"
  by (cases r) auto

lemma ok_or_Inr_iff [simp]: "ok_or e r = Inr y \<longleftrightarrow> r = Some y"
  by (cases r) auto

lemma is_ok_iff: "is_ok r \<longleftrightarrow> (\<exists>x. r = Inr x)"
  by (cases r) auto

lemma collect_results_map_Inr [simp]: "collect_results (map (\<lambda>x. Inr (f x)) xs) = Inr (map f xs)"
  by (induction xs) auto

lemma collect_results_Inr_iff: "collect_results rs = Inr xs \<longleftrightarrow> rs = map Inr xs"
  by (induction rs arbitrary: xs) (auto split: sum.splits)

lemma bind_act_Inr_iff:
  "bind_act m f s = (Inr y, s') \<longleftrightarrow> (\<exists>x s1. m s = (Inr x, s1) \<and> f x s1 = (Inr y, s'))"
  by (auto simp: bind_act_def split: prod.splits sum.splits)

lemma bind_act_Inl_iff:
  "bind_act m f s = (Inl e, s') \<longleftrightarrow>
     m s = (Inl e, s') \<or> (\<exists>x s1. m s = (Inr x, s1) \<and> f x s1 = (Inl e, s'))"
  by (auto simp: bind_act_def split: prod.splits sum.splits)

lemma attempt_eq [simp]: "m s = (r, s') \<Longrightarrow> attempt m f s = f r s'"
  by (simp add: attempt_def)

lemma bind_act_simps [simp]:
  "m s = (Inl e, s') \<Longrightarrow> bind_act m f s = (Inl e, s')"
  "m s = (Inr x, s') \<Longrightarrow> bind_act m f s = f x s'"
  by (simp_all add: bind_act_def)

lemma ret_fail_simps [simp]: "ret x s = (Inr x, s)" "fail e s = (Inl e, s)"
  by (simp_all add: ret_def fail_def)

subsection \<open>Arithmetic\<close>

lemma ucast_u8_u32 [simp]: "ucast (ucast (w :: u8) :: u32) = w"
  by (rule bit_word_eqI) (simp add: bit_simps)

lemma ucast_u16_u32 [simp]: "ucast (ucast (w :: u16) :: u32) = w"
  by (rule bit_word_eqI) (simp add: bit_simps)

lemma ucast_u8_bound [simp]: "(ucast (w :: u8) :: u32) \<le> 0xFF"
proof -
  have "unat w < 2 ^ LENGTH(8)" by (rule unsigned_less)
  then show ?thesis by (simp add: word_le_nat_alt unsigned_ucast_eq take_bit_nat_eq_self)
qed

lemma ucast_u16_bound [simp]: "(ucast (w :: u16) :: u32) \<le> 0xFFFF"
proof -
  have "unat w < 2 ^ LENGTH(16)" by (rule unsigned_less)
  then show ?thesis by (simp add: word_le_nat_alt unsigned_ucast_eq take_bit_nat_eq_self)
qed

lemma unat_u64_less: "unat (w :: u64) < 18446744073709551616"
proof -
  have "unat w < 2 ^ LENGTH(64)" by (rule unsigned_less)
  then show ?thesis by simp
qed

lemma unat_saturating_add_u64: "unat (saturating_add_u64 a b) = min (unat a + unat b) (2 ^ 64 - 1)"
  by (auto simp: saturating_add_u64_def unat_word_ariths unsigned_minus_1_eq_mask
      mask_eq_exp_minus_1)

lemma unat_saturating_sub_u64: "unat (saturating_sub_u64 a b) = unat a - unat b"
  by (auto simp: saturating_sub_u64_def word_le_nat_alt unat_sub_if')

lemma u64_try_from_Some_iff: "u64_try_from n = Some w \<longleftrightarrow> n < 2 ^ 64 \<and> unat w = n"
  by (auto simp: u64_try_from_def unat_of_nat take_bit_nat_eq_self)

subsection \<open>Byte order\<close>

lemma length_le_bytes [simp]: "length (le_bytes n w) = n"
  by (induction n arbitrary: w) auto

lemma length_to_le_bytes [simp]: "length (to_le_bytes (w :: 'a::len word)) = LENGTH('a) div 8"
  by (simp add: to_le_bytes_def)

lemma length_to_be_bytes [simp]: "length (to_be_bytes (w :: 'a::len word)) = LENGTH('a) div 8"
  by (simp add: to_be_bytes_def)

lemma length_to_ne_bytes [simp]: "length (to_ne_bytes (w :: 'a::len word)) = LENGTH('a) div 8"
  by (simp add: to_ne_bytes_def)

lemma from_le_bytes_le_bytes: "from_le_bytes (le_bytes n w) = take_bit (8 * n) w"
proof (induction n arbitrary: w)
  case 0
  show ?case by simp
next
  case (Suc n)
  show ?case
    by (rule bit_word_eqI) (auto simp: Suc bit_simps le_diff_conv2 less_diff_conv2)
qed

lemma le_bytes_from_le_bytes:
  assumes "8 * length bs \<le> LENGTH('a)"
  shows "le_bytes (length bs) (from_le_bytes bs :: 'a::len word) = bs"
  using assms
proof (induction bs)
  case Nil
  show ?case by simp
next
  case (Cons b bs)
  let ?r = "from_le_bytes bs :: 'a word"
  have "ucast (ucast b OR push_bit 8 ?r) = b"
    using Cons.prems by (intro bit_word_eqI) (auto simp: bit_simps)
  moreover have high: "take_bit (LENGTH('a) - 8) ?r = ?r"
  proof -
    have "take_bit (8 * length bs) ?r = ?r"
      using Cons by (metis from_le_bytes_le_bytes add_leD2 mult_Suc_right length_Cons)
    moreover have "8 * length bs \<le> LENGTH('a) - 8"
      using Cons.prems by simp
    ultimately show ?thesis by (metis take_bit_take_bit min.absorb2)
  qed
  have "drop_bit 8 (ucast b OR push_bit 8 ?r) = ?r"
  proof (rule bit_word_eqI)
    fix n
    show "bit (drop_bit 8 (ucast b OR push_bit 8 ?r)) n = bit ?r n"
      using Cons.prems arg_cong [OF high, of "\<lambda>x. bit x n"]
      by (auto simp: bit_simps dest: bit_imp_le_length)
  qed
  ultimately show ?case using Cons by simp
qed

lemma from_to_le_bytes [simp]:
  "8 dvd LENGTH('a) \<Longrightarrow> from_le_bytes (to_le_bytes (w :: 'a::len word)) = w"
  by (simp add: to_le_bytes_def from_le_bytes_le_bytes)

lemma to_from_le_bytes [simp]:
  "8 dvd LENGTH('a) \<Longrightarrow> length bs = LENGTH('a) div 8 \<Longrightarrow>
   to_le_bytes (from_le_bytes bs :: 'a::len word) = bs"
  using le_bytes_from_le_bytes [of bs, where 'a = 'a] by (simp add: to_le_bytes_def)

lemma from_to_be_bytes [simp]:
  "8 dvd LENGTH('a) \<Longrightarrow> from_be_bytes (to_be_bytes (w :: 'a::len word)) = w"
  by (simp add: to_be_bytes_def from_be_bytes_def)

lemma to_from_be_bytes [simp]:
  "8 dvd LENGTH('a) \<Longrightarrow> length bs = LENGTH('a) div 8 \<Longrightarrow>
   to_be_bytes (from_be_bytes bs :: 'a::len word) = bs"
  by (simp add: to_be_bytes_def from_be_bytes_def)

lemma from_to_ne_bytes [simp]:
  "8 dvd LENGTH('a) \<Longrightarrow> from_ne_bytes (to_ne_bytes (w :: 'a::len word)) = w"
  by (simp add: to_ne_bytes_def from_ne_bytes_def)

lemma to_from_ne_bytes [simp]:
  "8 dvd LENGTH('a) \<Longrightarrow> length bs = LENGTH('a) div 8 \<Longrightarrow>
   to_ne_bytes (from_ne_bytes bs :: 'a::len word) = bs"
  by (simp add: to_ne_bytes_def from_ne_bytes_def)

lemma to_be_bytes_inject:
  "8 dvd LENGTH('a) \<Longrightarrow> to_be_bytes (v :: 'a::len word) = to_be_bytes w \<longleftrightarrow> v = w"
  by (metis from_to_be_bytes)

subsection \<open>Slices and arrays\<close>

lemma length_copy_at [simp, slice_simps]:
  "off + length src \<le> length xs \<Longrightarrow> length (copy_at off src xs) = length xs"
  by (simp add: copy_at_def)

lemma length_slice [slice_simps]: "b \<le> length xs \<Longrightarrow> length (slice a b xs) = b - a"
  by (simp add: slice_def)

lemma slice_alt: "slice a b xs = drop a (take b xs)"
  by (simp add: slice_def drop_take)

lemma slice_copy_at_same [slice_simps]:
  "b = off + length src \<Longrightarrow> b \<le> length xs \<Longrightarrow> slice off b (copy_at off src xs) = src"
  by (simp add: slice_def copy_at_def)

lemma slice_copy_at_before [slice_simps]:
  "b \<le> off \<Longrightarrow> off \<le> length xs \<Longrightarrow> slice a b (copy_at off src xs) = slice a b xs"
  by (simp add: slice_alt copy_at_def min_absorb1)

lemma slice_copy_at_after [slice_simps]:
  "off + length src \<le> a \<Longrightarrow> off + length src \<le> length xs \<Longrightarrow>
   slice a b (copy_at off src xs) = slice a b xs"
  by (simp add: slice_def copy_at_def)

lemma nth_copy_at_before [slice_simps]:
  "i < off \<Longrightarrow> off \<le> length xs \<Longrightarrow> copy_at off src xs ! i = xs ! i"
  by (simp add: copy_at_def nth_append)

lemma nth_copy_at_after [slice_simps]:
  "off + length src \<le> i \<Longrightarrow> i < length xs \<Longrightarrow> copy_at off src xs ! i = xs ! i"
  by (auto simp: copy_at_def nth_append)

lemma slice_list_update [slice_simps]:
  "i < a \<or> b \<le> i \<Longrightarrow> slice a b (xs[i := v]) = slice a b xs"
  by (metis drop_update_cancel slice_alt slice_def take_update_cancel)

lemma slice_all: "slice 0 (length xs) xs = xs"
  by (simp add: slice_def)

lemma slice_full [slice_simps]: "n = length xs \<Longrightarrow> slice 0 n xs = xs"
  by (simp add: slice_def)

lemma slice_slice_append:
  "a \<le> b \<Longrightarrow> b \<le> c \<Longrightarrow> slice a b xs @ slice b c xs = slice a c xs"
  using take_add [of "b - a" "c - b" "drop a xs"] by (simp add: slice_def)

lemma slice_append_left [slice_simps]: "b \<le> length xs \<Longrightarrow> slice a b (xs @ ys) = slice a b xs"
  by (simp add: slice_def)

lemma slice_append_right [slice_simps]:
  "length xs \<le> a \<Longrightarrow> slice a b (xs @ ys) = slice (a - length xs) (b - length xs) ys"
  by (simp add: slice_def)

lemma slice_Suc_Suc_0 [slice_simps]: "slice a (Suc (Suc 0)) xs = slice a 2 xs"
  by (simp add: numeral_2_eq_2)

lemma nth_pair_slice [slice_simps]:
  "j = Suc i \<Longrightarrow> j < length xs \<Longrightarrow> from_be_bytes [xs ! i, xs ! j] = from_be_bytes (slice i (i + 2) xs)"
  by (simp add: slice_def numeral_2_eq_2 Cons_nth_drop_Suc [symmetric])

lemma nth_quad_slice [slice_simps]:
  "j = Suc i \<Longrightarrow> k = Suc j \<Longrightarrow> l = Suc k \<Longrightarrow> l < length xs \<Longrightarrow>
   from_be_bytes [xs ! i, xs ! j, xs ! k, xs ! l] = from_be_bytes (slice i (i + 4) xs)"
  by (simp add: slice_def numeral_eq_Suc Cons_nth_drop_Suc [symmetric])

subsection \<open>Searching\<close>

lemma find_snoc:
  "List.find P (xs @ [x]) =
     (case List.find P xs of None \<Rightarrow> if P x then Some x else None | Some y \<Rightarrow> Some y)"
  by (induction xs) auto

end
