(* ===== verification/Net.thy ===== *)
theory Net
  imports Prelude
begin

text \<open>
  The parts of \<open>std::net\<close> and \<open>std::time\<close> the sources use. An address is its numeric value
  (most significant octet first, so the derived order of the octets is the order of the
  numbers); a socket address keeps the flow information and scope identifier that Rust's
  equality on \<open>SocketAddrV6\<close> compares; a duration is a number of nanoseconds.
\<close>

section \<open>Addresses\<close>

datatype ip_addr = V4 u32 | V6 u128

fun is_ipv4 :: "ip_addr \<Rightarrow> bool" where
  "is_ipv4 (V4 _) = True"
| "is_ipv4 (V6 _) = False"

fun is_unspecified :: "ip_addr \<Rightarrow> bool" where
  "is_unspecified (V4 a) = (a = 0)"
| "is_unspecified (V6 a) = (a = 0)"

fun octets :: "ip_addr \<Rightarrow> bytes" where
  "octets (V4 a) = to_be_bytes a"
| "octets (V6 a) = to_be_bytes a"

datatype socket_addr = SocketAddrV4 u32 u16 | SocketAddrV6 u128 u16 u32 u32

fun socket_addr_new :: "ip_addr \<Rightarrow> u16 \<Rightarrow> socket_addr" where
  "socket_addr_new (V4 a) port = SocketAddrV4 a port"
| "socket_addr_new (V6 a) port = SocketAddrV6 a port 0 0"

fun sa_ip :: "socket_addr \<Rightarrow> ip_addr" where
  "sa_ip (SocketAddrV4 a _) = V4 a"
| "sa_ip (SocketAddrV6 a _ _ _) = V6 a"

fun sa_port :: "socket_addr \<Rightarrow> u16" where
  "sa_port (SocketAddrV4 _ p) = p"
| "sa_port (SocketAddrV6 _ p _ _) = p"

section \<open>Durations\<close>

type_synonym duration = nat

definition duration_max :: duration where
  "duration_max = (2 ^ 64 - 1) * 10 ^ 9 + 999999999"

definition from_millis :: "u64 \<Rightarrow> duration" where
  "from_millis ms = unat ms * 10 ^ 6"

definition from_secs :: "u64 \<Rightarrow> duration" where
  "from_secs s = unat s * 10 ^ 9"

definition as_millis :: "duration \<Rightarrow> nat" where
  "as_millis d = d div 10 ^ 6"

section \<open>Lemmas\<close>

lemma length_octets [simp]: "length (octets a) = (if is_ipv4 a then 4 else 16)"
  by (cases a) auto

lemma sa_ip_new [simp]: "sa_ip (socket_addr_new a p) = a"
  by (cases a) auto

lemma sa_port_new [simp]: "sa_port (socket_addr_new a p) = p"
  by (cases a) auto

lemma socket_addr_new_inject [simp]:
  "socket_addr_new a p = socket_addr_new b q \<longleftrightarrow> a = b \<and> p = q"
  by (metis sa_ip_new sa_port_new)

lemma is_ipv4_exhaust:
  obtains (v4) x where "a = V4 x" "is_ipv4 a" | (v6) y where "a = V6 y" "\<not> is_ipv4 a"
  by (cases a) auto

lemma as_millis_from_millis [simp]: "as_millis (from_millis ms) = unat ms"
  by (simp add: as_millis_def from_millis_def)

instantiation ip_addr :: linorder
begin

fun less_eq_ip_addr :: "ip_addr \<Rightarrow> ip_addr \<Rightarrow> bool" where
  "less_eq_ip_addr (V4 a) (V4 b) = (a \<le> b)"
| "less_eq_ip_addr (V4 _) (V6 _) = True"
| "less_eq_ip_addr (V6 _) (V4 _) = False"
| "less_eq_ip_addr (V6 a) (V6 b) = (a \<le> b)"

definition less_ip_addr :: "ip_addr \<Rightarrow> ip_addr \<Rightarrow> bool" where
  "less_ip_addr a b \<longleftrightarrow> a \<le> b \<and> \<not> b \<le> a"

instance
proof
  fix x y z :: ip_addr
  show "x < y \<longleftrightarrow> x \<le> y \<and> \<not> y \<le> x" by (simp add: less_ip_addr_def)
  show "x \<le> x" by (cases x) auto
  show "x \<le> y \<Longrightarrow> y \<le> z \<Longrightarrow> x \<le> z" by (cases x; cases y; cases z) auto
  show "x \<le> y \<Longrightarrow> y \<le> x \<Longrightarrow> x = y" by (cases x; cases y) auto
  show "x \<le> y \<or> y \<le> x" by (cases x; cases y) auto
qed

end

end
