(* ===== verification/Mapping_ABI.thy ===== *)
theory Mapping_ABI
  imports Net
begin

text \<open>
  \<open>crates/control-service/src/mapping.rs\<close>: the tuple and flow-state model and the
  fixed-width codecs at the boundary between the control service and the BPF maps.
\<close>

section \<open>Constants\<close>

definition MAP_ABI_VERSION :: u16 where "MAP_ABI_VERSION = 1"
definition PROGRAM_ABI_VERSION :: u16 where "PROGRAM_ABI_VERSION = 3"
definition RUNTIME_CONFIG_ABI_VERSION :: u16 where "RUNTIME_CONFIG_ABI_VERSION = 3"
definition PROTOCOL_TCP :: u8 where "PROTOCOL_TCP = 6"
definition PROTOCOL_UDP :: u8 where "PROTOCOL_UDP = 17"
definition TCP_SYN :: u32 where "TCP_SYN = push_bit 0 1"
definition TCP_SYN_ACK :: u32 where "TCP_SYN_ACK = push_bit 1 1"
definition TCP_ACK :: u32 where "TCP_ACK = push_bit 2 1"
definition TCP_FIN :: u32 where "TCP_FIN = push_bit 3 1"
definition TCP_RST :: u32 where "TCP_RST = push_bit 4 1"
definition KEY_LEN :: usize where "KEY_LEN = 40"
definition VALUE_LEN :: usize where "VALUE_LEN = KEY_LEN + 16"
definition FLOW_INDEX_VALUE_LEN :: usize where "FLOW_INDEX_VALUE_LEN = 16"
definition FLOW_STATE_KEY_LEN :: usize where "FLOW_STATE_KEY_LEN = 16"
definition FLOW_STATE_VALUE_LEN :: usize where "FLOW_STATE_VALUE_LEN = 256"
definition RUNTIME_CONFIG_VALUE_LEN :: usize where "RUNTIME_CONFIG_VALUE_LEN = 80"
definition ELF_FLOW_INDEX_MAX_ENTRIES :: usize where "ELF_FLOW_INDEX_MAX_ENTRIES = 16384"
definition ELF_FLOW_STATE_MAX_ENTRIES :: usize where "ELF_FLOW_STATE_MAX_ENTRIES = 8192"

lemmas length_consts =
  KEY_LEN_def VALUE_LEN_def FLOW_INDEX_VALUE_LEN_def FLOW_STATE_KEY_LEN_def
  FLOW_STATE_VALUE_LEN_def RUNTIME_CONFIG_VALUE_LEN_def

lemmas protocol_consts = PROTOCOL_TCP_def PROTOCOL_UDP_def

lemmas tcp_consts = TCP_SYN_def TCP_SYN_ACK_def TCP_ACK_def TCP_FIN_def TCP_RST_def

record map_maxima =
  mm_flow_index :: usize
  mm_flow_state :: usize

definition map_maxima_default :: map_maxima where
  "map_maxima_default =
     \<lparr>mm_flow_index = ELF_FLOW_INDEX_MAX_ENTRIES, mm_flow_state = ELF_FLOW_STATE_MAX_ENTRIES\<rparr>"

section \<open>Data\<close>

datatype abi_error =
    UnsupportedVersion u16
  | InvalidLength usize usize
  | InvalidFamily u8
  | UnsupportedProtocol u8
  | FamilyMismatch
  | ZeroPort
  | UnspecifiedAddress
  | InvalidLifecycle u8

fun abi_error_message :: "abi_error \<Rightarrow> string" where
  "abi_error_message (UnsupportedVersion v) = ''unsupported ABI version '' @ show_word v"
| "abi_error_message (InvalidLength e a) =
     ''malformed ABI length: expected '' @ show_nat e @ '', got '' @ show_nat a"
| "abi_error_message (InvalidFamily f) = ''invalid address family '' @ show_word f"
| "abi_error_message (UnsupportedProtocol p) = ''unsupported protocol '' @ show_word p"
| "abi_error_message FamilyMismatch = ''address families do not match''"
| "abi_error_message ZeroPort = ''port must be non-zero''"
| "abi_error_message UnspecifiedAddress = ''unspecified address is not supported''"
| "abi_error_message (InvalidLifecycle l) = ''invalid lifecycle value '' @ show_word l"

record tuple =
  t_source :: ip_addr
  t_destination :: ip_addr
  t_protocol :: u8
  t_source_port :: u16
  t_destination_port :: u16

record mapping =
  m_synthetic :: tuple
  m_original :: tuple
  m_last_seen_ns :: u64
  m_protocol_flags :: u32
  m_tcp_state_flags :: u32

datatype flow_lifecycle = Creating | Active

fun lifecycle_as_u8 :: "flow_lifecycle \<Rightarrow> u8" where
  "lifecycle_as_u8 Creating = 1"
| "lifecycle_as_u8 Active = 2"

definition lifecycle_try_from :: "u8 \<Rightarrow> abi_error + flow_lifecycle" where
  "lifecycle_try_from value =
     (if value = 1 then Inr Creating
      else if value = 2 then Inr Active
      else Inl (InvalidLifecycle value))"

record flow_index_value =
  fi_flow_id :: u64
  fi_generation :: u32

record flow_state =
  fs_flow_id :: u64
  fs_generation :: u32
  fs_original :: tuple
  fs_target :: tuple
  fs_reverse :: tuple
  fs_last_used_ns :: u64
  fs_protocol_flags :: u32
  fs_tcp_state_flags :: u32
  fs_fin_seen_mask :: u8
  fs_fin_ack_seen_mask :: u8
  fs_lifecycle :: flow_lifecycle
  fs_terminal_deadline_ns :: u64

section \<open>Validation\<close>

fun family_of :: "ip_addr \<Rightarrow> u8" where
  "family_of (V4 _) = 4"
| "family_of (V6 _) = 6"

definition family :: "tuple \<Rightarrow> u8" where
  "family t = family_of (t_source t)"

definition validate_protocol :: "u8 \<Rightarrow> abi_error + unit" where
  "validate_protocol p =
     (if p = PROTOCOL_TCP \<or> p = PROTOCOL_UDP then Inr () else Inl (UnsupportedProtocol p))"

definition tuple_validate :: "tuple \<Rightarrow> abi_error + unit" where
  "tuple_validate t =
     (if is_ipv4 (t_source t) \<noteq> is_ipv4 (t_destination t) then Inl FamilyMismatch
      else and_then (validate_protocol (t_protocol t)) (\<lambda>_.
        if t_source_port t = 0 \<or> t_destination_port t = 0 then Inl ZeroPort
        else if is_unspecified (t_source t) \<or> is_unspecified (t_destination t)
        then Inl UnspecifiedAddress
        else Inr ()))"


definition flow_state_validate :: "flow_state \<Rightarrow> abi_error + unit" where
  "flow_state_validate s =
     and_then (tuple_validate (fs_original s)) (\<lambda>_.
     and_then (tuple_validate (fs_target s)) (\<lambda>_.
     and_then (tuple_validate (fs_reverse s)) (\<lambda>_.
       if t_protocol (fs_original s) \<noteq> t_protocol (fs_target s)
          \<or> t_protocol (fs_target s) \<noteq> t_protocol (fs_reverse s)
       then Inl (UnsupportedProtocol (t_protocol (fs_original s)))
       else if is_ipv4 (t_destination (fs_original s)) \<noteq> is_ipv4 (t_destination (fs_target s))
          \<or> is_ipv4 (t_destination (fs_target s)) \<noteq> is_ipv4 (t_destination (fs_reverse s))
       then Inl FamilyMismatch
       else if fs_lifecycle s = Creating \<and> fs_terminal_deadline_ns s \<noteq> 0
       then Inl (InvalidLifecycle (lifecycle_as_u8 (fs_lifecycle s)))
       else Inr ())))"

section \<open>Flow life cycle\<close>

definition flow_state_mapping :: "flow_state \<Rightarrow> mapping" where
  "flow_state_mapping s =
     \<lparr>m_synthetic = fs_target s, m_original = fs_original s,
      m_last_seen_ns = fs_last_used_ns s, m_protocol_flags = fs_protocol_flags s,
      m_tcp_state_flags = fs_tcp_state_flags s\<rparr>"

definition observe_syn :: "u8 \<Rightarrow> u32 \<Rightarrow> flow_state \<Rightarrow> flow_state" where
  "observe_syn direction flags s =
     (if flags AND TCP_SYN \<noteq> 0
      then s\<lparr>fs_tcp_state_flags :=
               fs_tcp_state_flags s OR (if direction = 0 then TCP_SYN else TCP_SYN_ACK)\<rparr>
      else s)"

definition observe_ack :: "u8 \<Rightarrow> u32 \<Rightarrow> flow_state \<Rightarrow> flow_state" where
  "observe_ack direction flags s =
     (if flags AND TCP_ACK \<noteq> 0 \<and> fs_fin_seen_mask s AND push_bit (unat (direction XOR 1)) 1 \<noteq> 0
      then s\<lparr>fs_tcp_state_flags := fs_tcp_state_flags s OR TCP_ACK,
             fs_fin_ack_seen_mask := fs_fin_ack_seen_mask s OR push_bit (unat direction) 1\<rparr>
      else s)"

definition observe_fin :: "u8 \<Rightarrow> u32 \<Rightarrow> flow_state \<Rightarrow> flow_state" where
  "observe_fin direction flags s =
     (if flags AND TCP_FIN \<noteq> 0
      then s\<lparr>fs_tcp_state_flags := fs_tcp_state_flags s OR TCP_FIN,
             fs_fin_seen_mask := fs_fin_seen_mask s OR push_bit (unat direction) 1\<rparr>
      else s)"

definition observe_rst :: "u32 \<Rightarrow> flow_state \<Rightarrow> flow_state" where
  "observe_rst flags s =
     (if flags AND TCP_RST \<noteq> 0
      then s\<lparr>fs_tcp_state_flags := fs_tcp_state_flags s OR TCP_RST\<rparr> else s)"

definition observe_terminal :: "u64 \<Rightarrow> u64 \<Rightarrow> flow_state \<Rightarrow> flow_state" where
  "observe_terminal now_ns grace_ns s =
     (if fs_fin_seen_mask s = 3 \<and> fs_fin_ack_seen_mask s = 3 \<and> fs_terminal_deadline_ns s = 0
      then s\<lparr>fs_terminal_deadline_ns := saturating_add_u64 now_ns grace_ns\<rparr> else s)"

definition observe_tcp :: "flow_state \<Rightarrow> u8 \<Rightarrow> u32 \<Rightarrow> u64 \<Rightarrow> u64 \<Rightarrow> flow_state" where
  "observe_tcp s direction flags now_ns grace_ns =
     (if t_protocol (fs_original s) \<noteq> PROTOCOL_TCP \<or> direction > 1 then s
      else
        let s = s\<lparr>fs_last_used_ns := now_ns\<rparr>;
            s = observe_syn direction flags s;
            s = observe_ack direction flags s;
            s = observe_fin direction flags s;
            s = observe_rst flags s
        in observe_terminal now_ns grace_ns s)"

definition should_delete :: "flow_state \<Rightarrow> u64 \<Rightarrow> u64 \<Rightarrow> bool" where
  "should_delete s now_ns idle_ttl_ns =
     (if fs_lifecycle s = Creating then True
      else if fs_tcp_state_flags s AND TCP_RST \<noteq> 0 then True
      else if t_protocol (fs_original s) = PROTOCOL_TCP then
        (if fs_terminal_deadline_ns s \<noteq> 0
         then fs_terminal_deadline_ns s \<le> now_ns
         else idle_ttl_ns \<le> saturating_sub_u64 now_ns (fs_last_used_ns s))
      else idle_ttl_ns \<le> saturating_sub_u64 now_ns (fs_last_used_ns s))"

section \<open>Codecs\<close>

fun address_bytes :: "ip_addr \<Rightarrow> bytes" where
  "address_bytes (V4 a) =
     copy_at 12 (octets (V4 a)) ((replicate 16 0)[10 := 0xff, 11 := 0xff])"
| "address_bytes (V6 a) = octets (V6 a)"

definition parse_address :: "u8 \<Rightarrow> bytes \<Rightarrow> abi_error + ip_addr" where
  "parse_address fam bs =
     (if length bs \<noteq> 16 then Inl (InvalidLength 16 (length bs))
      else if fam = 4 then Inr (V4 (from_be_bytes [bs ! 12, bs ! 13, bs ! 14, bs ! 15]))
      else if fam = 6 then Inr (V6 (from_be_bytes bs))
      else Inl (InvalidFamily fam))"

definition encode_key :: "tuple \<Rightarrow> bytes" where
  "encode_key t =
     (let out = replicate KEY_LEN 0;
          out = copy_at 0 (to_be_bytes MAP_ABI_VERSION) out;
          out = out[2 := family t];
          out = out[3 := t_protocol t];
          out = copy_at 4 (address_bytes (t_source t)) out;
          out = copy_at 20 (address_bytes (t_destination t)) out;
          out = copy_at 36 (to_be_bytes (t_source_port t)) out
      in copy_at 38 (to_be_bytes (t_destination_port t)) out)"

definition decode_key :: "bytes \<Rightarrow> abi_error + tuple" where
  "decode_key bs =
     (if length bs \<noteq> KEY_LEN then Inl (InvalidLength KEY_LEN (length bs))
      else
        let version = from_be_bytes [bs ! 0, bs ! 1]
        in if version \<noteq> MAP_ABI_VERSION then Inl (UnsupportedVersion version)
           else
             and_then (parse_address (bs ! 2) (slice 4 20 bs)) (\<lambda>src.
             and_then (parse_address (bs ! 2) (slice 20 36 bs)) (\<lambda>dst.
               let t = \<lparr>t_source = src, t_destination = dst, t_protocol = bs ! 3,
                        t_source_port = from_be_bytes [bs ! 36, bs ! 37],
                        t_destination_port = from_be_bytes [bs ! 38, bs ! 39]\<rparr>
               in if is_ipv4 (t_source t) \<noteq> is_ipv4 (t_destination t) then Inl FamilyMismatch
                  else Inr t)))"

definition encode_value :: "mapping \<Rightarrow> bytes" where
  "encode_value m =
     (let out = replicate VALUE_LEN 0;
          out = copy_at 0 (encode_key (m_original m)) out;
          out = copy_at KEY_LEN (to_be_bytes (m_last_seen_ns m)) out;
          out = copy_at (KEY_LEN + 8) (to_be_bytes (m_protocol_flags m)) out
      in copy_at (KEY_LEN + 12) (to_be_bytes (m_tcp_state_flags m)) out)"

definition decode_value :: "bytes \<Rightarrow> bytes \<Rightarrow> abi_error + mapping" where
  "decode_value key val =
     (if length val \<noteq> VALUE_LEN then Inl (InvalidLength VALUE_LEN (length val))
      else
        and_then (decode_key key) (\<lambda>synthetic.
        and_then (decode_key (slice 0 KEY_LEN val)) (\<lambda>original.
          Inr \<lparr>m_synthetic = synthetic, m_original = original,
               m_last_seen_ns = from_be_bytes (slice KEY_LEN (KEY_LEN + 8) val),
               m_protocol_flags = from_be_bytes (slice (KEY_LEN + 8) (KEY_LEN + 12) val),
               m_tcp_state_flags = from_be_bytes (slice (KEY_LEN + 12) (KEY_LEN + 16) val)\<rparr>)))"

definition encode_flow_index :: "flow_index_value \<Rightarrow> bytes" where
  "encode_flow_index v =
     (let out = replicate FLOW_INDEX_VALUE_LEN 0;
          out = copy_at 0 (to_be_bytes MAP_ABI_VERSION) out;
          out = copy_at 4 (to_ne_bytes (fi_flow_id v)) out
      in copy_at 12 (to_ne_bytes (fi_generation v)) out)"

definition decode_flow_index :: "bytes \<Rightarrow> abi_error + flow_index_value" where
  "decode_flow_index bs =
     (if length bs \<noteq> FLOW_INDEX_VALUE_LEN
      then Inl (InvalidLength FLOW_INDEX_VALUE_LEN (length bs))
      else
        let version = from_be_bytes [bs ! 0, bs ! 1]
        in if version \<noteq> MAP_ABI_VERSION then Inl (UnsupportedVersion version)
           else Inr \<lparr>fi_flow_id = from_ne_bytes (slice 4 12 bs),
                     fi_generation = from_ne_bytes (slice 12 16 bs)\<rparr>)"

definition encode_flow_state_key :: "u64 \<Rightarrow> u32 \<Rightarrow> bytes" where
  "encode_flow_state_key flow_id gen =
     (let out = replicate FLOW_STATE_KEY_LEN 0;
          out = copy_at 0 (to_be_bytes MAP_ABI_VERSION) out;
          out = copy_at 4 (to_ne_bytes flow_id) out
      in copy_at 12 (to_ne_bytes gen) out)"

definition decode_flow_state_key :: "bytes \<Rightarrow> abi_error + flow_index_value" where
  "decode_flow_state_key bs = and_then (decode_flow_index bs) Inr"

definition encode_flow_state :: "flow_state \<Rightarrow> bytes" where
  "encode_flow_state s =
     (let out = replicate FLOW_STATE_VALUE_LEN 0;
          out = copy_at 0 (encode_key (fs_original s)) out;
          out = copy_at KEY_LEN (encode_key (fs_target s)) out;
          out = copy_at (KEY_LEN * 2) (encode_key (fs_reverse s)) out;
          out = copy_at 120 (to_ne_bytes (fs_last_used_ns s)) out;
          out = copy_at 128 (to_ne_bytes (fs_protocol_flags s)) out;
          out = copy_at 132 (to_ne_bytes (fs_tcp_state_flags s)) out;
          out = out[136 := fs_fin_seen_mask s];
          out = out[137 := fs_fin_ack_seen_mask s];
          out = out[138 := lifecycle_as_u8 (fs_lifecycle s)];
          out = copy_at 140 (to_ne_bytes (fs_terminal_deadline_ns s)) out;
          out = copy_at 148 (to_ne_bytes (fs_flow_id s)) out
      in copy_at 156 (to_ne_bytes (fs_generation s)) out)"

definition decode_flow_state :: "bytes \<Rightarrow> abi_error + flow_state" where
  "decode_flow_state bs =
     (if length bs \<noteq> FLOW_STATE_VALUE_LEN
      then Inl (InvalidLength FLOW_STATE_VALUE_LEN (length bs))
      else
        and_then (decode_key (slice 0 KEY_LEN bs)) (\<lambda>original.
        and_then (decode_key (slice KEY_LEN (KEY_LEN * 2) bs)) (\<lambda>target.
        and_then (decode_key (slice (KEY_LEN * 2) (KEY_LEN * 3) bs)) (\<lambda>reverse.
        and_then (lifecycle_try_from (bs ! 138)) (\<lambda>lifecycle.
          let s = \<lparr>fs_flow_id = from_ne_bytes (slice 148 156 bs),
                   fs_generation = from_ne_bytes (slice 156 160 bs),
                   fs_original = original, fs_target = target, fs_reverse = reverse,
                   fs_last_used_ns = from_ne_bytes (slice 120 128 bs),
                   fs_protocol_flags = from_ne_bytes (slice 128 132 bs),
                   fs_tcp_state_flags = from_ne_bytes (slice 132 136 bs),
                   fs_fin_seen_mask = bs ! 136, fs_fin_ack_seen_mask = bs ! 137,
                   fs_lifecycle = lifecycle,
                   fs_terminal_deadline_ns = from_ne_bytes (slice 140 148 bs)\<rparr>
          in and_then (flow_state_validate s) (\<lambda>_. Inr s))))))"

section \<open>Validity\<close>

definition valid_tuple :: "tuple \<Rightarrow> bool" where
  "valid_tuple t \<longleftrightarrow>
     is_ipv4 (t_source t) = is_ipv4 (t_destination t)
     \<and> t_protocol t \<in> {PROTOCOL_TCP, PROTOCOL_UDP}
     \<and> t_source_port t \<noteq> 0 \<and> t_destination_port t \<noteq> 0
     \<and> \<not> is_unspecified (t_source t) \<and> \<not> is_unspecified (t_destination t)"

definition same_family :: "tuple \<Rightarrow> bool" where
  "same_family t \<longleftrightarrow> is_ipv4 (t_source t) = is_ipv4 (t_destination t)"

definition valid_flow_state :: "flow_state \<Rightarrow> bool" where
  "valid_flow_state s \<longleftrightarrow>
     valid_tuple (fs_original s) \<and> valid_tuple (fs_target s) \<and> valid_tuple (fs_reverse s)
     \<and> t_protocol (fs_target s) = t_protocol (fs_original s)
     \<and> t_protocol (fs_reverse s) = t_protocol (fs_original s)
     \<and> is_ipv4 (t_destination (fs_target s)) = is_ipv4 (t_destination (fs_original s))
     \<and> is_ipv4 (t_destination (fs_reverse s)) = is_ipv4 (t_destination (fs_original s))
     \<and> (fs_lifecycle s = Creating \<longrightarrow> fs_terminal_deadline_ns s = 0)"

lemma tuple_validate_iff [simp]: "tuple_validate t = Inr u \<longleftrightarrow> valid_tuple t"
  by (auto simp: tuple_validate_def valid_tuple_def validate_protocol_def)

lemma valid_tuple_validate: "valid_tuple t \<Longrightarrow> tuple_validate t = Inr ()"
  by simp

lemma valid_tuple_same_family [intro]: "valid_tuple t \<Longrightarrow> same_family t"
  by (simp add: valid_tuple_def same_family_def)

lemma flow_state_validate_iff [simp]: "flow_state_validate s = Inr u \<longleftrightarrow> valid_flow_state s"
  by (auto simp: flow_state_validate_def valid_flow_state_def and_then_Inr_iff)

section \<open>Codec lemmas\<close>

lemma length_address_bytes [simp]: "length (address_bytes a) = 16"
  by (cases a) auto

lemma parse_address_bytes:
  "parse_address (family_of a) (address_bytes a) = Inr a"
  by (cases a) (simp_all add: parse_address_def slice_simps)

lemma parse_address_bytes_family:
  "is_ipv4 a = is_ipv4 b \<Longrightarrow> parse_address (family_of a) (address_bytes b) = Inr b"
  by (cases a; cases b) (simp_all add: parse_address_def slice_simps)

lemma length_encode_key [simp]: "length (encode_key t) = 40"
  by (simp add: encode_key_def Let_def length_consts)

lemma encode_key_fields [slice_simps]:
  "slice 0 2 (encode_key t) = to_be_bytes MAP_ABI_VERSION"
  "encode_key t ! 2 = family t"
  "encode_key t ! 3 = t_protocol t"
  "slice 4 20 (encode_key t) = address_bytes (t_source t)"
  "slice 20 36 (encode_key t) = address_bytes (t_destination t)"
  "slice 36 38 (encode_key t) = to_be_bytes (t_source_port t)"
  "slice 38 40 (encode_key t) = to_be_bytes (t_destination_port t)"
  by (simp_all add: encode_key_def Let_def length_consts slice_simps)

lemma decode_encode_key:
  "same_family t \<Longrightarrow> decode_key (encode_key t) = Inr t"
  by (simp add: decode_key_def Let_def length_consts slice_simps parse_address_bytes_family
      family_def same_family_def)

lemma decode_key_same_family: "decode_key bs = Inr t \<Longrightarrow> same_family t"
  by (auto simp: decode_key_def same_family_def and_then_Inr_iff Let_def split: if_splits)

lemma encode_key_inject:
  assumes "same_family s" "same_family t"
  shows "encode_key s = encode_key t \<longleftrightarrow> s = t"
  using assms by (metis decode_encode_key sum.inject(2))

lemma length_encode_value [simp]: "length (encode_value m) = 56"
  by (simp add: encode_value_def Let_def length_consts)

lemma encode_value_fields [slice_simps]:
  "slice 0 40 (encode_value m) = encode_key (m_original m)"
  "slice 40 48 (encode_value m) = to_be_bytes (m_last_seen_ns m)"
  "slice 48 52 (encode_value m) = to_be_bytes (m_protocol_flags m)"
  "slice 52 56 (encode_value m) = to_be_bytes (m_tcp_state_flags m)"
  by (simp_all add: encode_value_def Let_def length_consts slice_simps)

lemma decode_encode_value:
  assumes "same_family (m_synthetic m)" "same_family (m_original m)"
  shows "decode_value (encode_key (m_synthetic m)) (encode_value m) = Inr m"
  using assms by (cases m) (simp add: decode_value_def length_consts slice_simps decode_encode_key)

lemma length_encode_flow_index [simp]: "length (encode_flow_index v) = 16"
  by (simp add: encode_flow_index_def Let_def length_consts)

lemma encode_flow_state_key_index:
  "encode_flow_state_key i g = encode_flow_index \<lparr>fi_flow_id = i, fi_generation = g\<rparr>"
  by (simp add: encode_flow_state_key_def encode_flow_index_def length_consts)

lemma encode_flow_index_fields [slice_simps]:
  "slice 0 2 (encode_flow_index v) = to_be_bytes MAP_ABI_VERSION"
  "slice 4 12 (encode_flow_index v) = to_ne_bytes (fi_flow_id v)"
  "slice 12 16 (encode_flow_index v) = to_ne_bytes (fi_generation v)"
  by (simp_all add: encode_flow_index_def Let_def length_consts slice_simps)

lemma decode_encode_flow_index [simp]: "decode_flow_index (encode_flow_index v) = Inr v"
  by (simp add: decode_flow_index_def Let_def length_consts slice_simps)

lemma encode_flow_index_inject [simp]: "encode_flow_index v = encode_flow_index w \<longleftrightarrow> v = w"
  by (metis decode_encode_flow_index sum.inject(2))

lemma lifecycle_round_trip [simp]: "lifecycle_try_from (lifecycle_as_u8 l) = Inr l"
  by (cases l) (simp_all add: lifecycle_try_from_def)

lemma length_encode_flow_state [simp]: "length (encode_flow_state s) = 256"
  by (simp add: encode_flow_state_def Let_def length_consts)

lemma encode_flow_state_fields [slice_simps]:
  "slice 0 40 (encode_flow_state s) = encode_key (fs_original s)"
  "slice 40 80 (encode_flow_state s) = encode_key (fs_target s)"
  "slice 80 120 (encode_flow_state s) = encode_key (fs_reverse s)"
  "slice 120 128 (encode_flow_state s) = to_ne_bytes (fs_last_used_ns s)"
  "slice 128 132 (encode_flow_state s) = to_ne_bytes (fs_protocol_flags s)"
  "slice 132 136 (encode_flow_state s) = to_ne_bytes (fs_tcp_state_flags s)"
  "encode_flow_state s ! 136 = fs_fin_seen_mask s"
  "encode_flow_state s ! 137 = fs_fin_ack_seen_mask s"
  "encode_flow_state s ! 138 = lifecycle_as_u8 (fs_lifecycle s)"
  "slice 140 148 (encode_flow_state s) = to_ne_bytes (fs_terminal_deadline_ns s)"
  "slice 148 156 (encode_flow_state s) = to_ne_bytes (fs_flow_id s)"
  "slice 156 160 (encode_flow_state s) = to_ne_bytes (fs_generation s)"
  by (simp_all add: encode_flow_state_def Let_def length_consts slice_simps)

lemma flow_state_eta [simp]:
  "\<lparr>fs_flow_id = fs_flow_id s, fs_generation = fs_generation s, fs_original = fs_original s,
    fs_target = fs_target s, fs_reverse = fs_reverse s, fs_last_used_ns = fs_last_used_ns s,
    fs_protocol_flags = fs_protocol_flags s, fs_tcp_state_flags = fs_tcp_state_flags s,
    fs_fin_seen_mask = fs_fin_seen_mask s, fs_fin_ack_seen_mask = fs_fin_ack_seen_mask s,
    fs_lifecycle = fs_lifecycle s, fs_terminal_deadline_ns = fs_terminal_deadline_ns s\<rparr> = s"
  by simp

lemma decode_encode_flow_state_valid:
  assumes "valid_flow_state s"
  shows "decode_flow_state (encode_flow_state s) = Inr s"
proof -
  have "same_family (fs_original s)" "same_family (fs_target s)" "same_family (fs_reverse s)"
    using assms by (auto simp: valid_flow_state_def)
  moreover have "flow_state_validate s = Inr ()"
    using assms by simp
  ultimately show ?thesis
    by (simp add: decode_flow_state_def Let_def length_consts slice_simps decode_encode_key
        del: flow_state_validate_iff)
qed

lemma decode_flow_state_valid: "decode_flow_state bs = Inr s \<Longrightarrow> valid_flow_state s"
  by (auto simp: decode_flow_state_def and_then_Inr_iff Let_def split: if_splits)

section \<open>Packet traces\<close>

text \<open>
  A packet observation, and the reference reading of a trace: a direction has finished once a
  FIN was seen from it, and a direction has acknowledged once it sent an ACK after the other
  direction's FIN.
\<close>

record observation =
  ob_direction :: u8
  ob_flags :: u32
  ob_now_ns :: u64
  ob_grace_ns :: u64

definition observe :: "flow_state \<Rightarrow> observation \<Rightarrow> flow_state" where
  "observe s e = observe_tcp s (ob_direction e) (ob_flags e) (ob_now_ns e) (ob_grace_ns e)"

definition observe_all :: "flow_state \<Rightarrow> observation list \<Rightarrow> flow_state" where
  "observe_all s es = foldl observe s es"

definition sends :: "u32 \<Rightarrow> u8 \<Rightarrow> observation \<Rightarrow> bool" where
  "sends flag d e \<longleftrightarrow> ob_direction e = d \<and> ob_flags e AND flag \<noteq> 0"

definition finished :: "observation list \<Rightarrow> u8 \<Rightarrow> bool" where
  "finished es d \<longleftrightarrow> list_ex (sends TCP_FIN d) es"

definition acknowledged :: "observation list \<Rightarrow> u8 \<Rightarrow> bool" where
  "acknowledged es d \<longleftrightarrow>
     list_ex (\<lambda>i. sends TCP_ACK d (es ! i) \<and> finished (take i es) (d XOR 1)) [0..<length es]"

definition closed_trace :: "observation list \<Rightarrow> bool" where
  "closed_trace es \<longleftrightarrow>
     finished es 0 \<and> finished es 1 \<and> acknowledged es 0 \<and> acknowledged es 1"

definition dir_mask :: "(u8 \<Rightarrow> bool) \<Rightarrow> u8" where
  "dir_mask P = (if P 0 then 1 else 0) OR (if P 1 then 2 else 0)"

lemma finished_snoc: "finished (es @ [e]) d \<longleftrightarrow> finished es d \<or> sends TCP_FIN d e"
  by (simp add: finished_def)

lemma acknowledged_snoc:
  "acknowledged (es @ [e]) d \<longleftrightarrow>
     acknowledged es d \<or> sends TCP_ACK d e \<and> finished es (d XOR 1)"
proof -
  have "list_ex (\<lambda>i. sends TCP_ACK d ((es @ [e]) ! i) \<and> finished (take i (es @ [e])) (d XOR 1))
          [0..<length es] = acknowledged es d"
    unfolding acknowledged_def list_ex_iff by (auto simp: nth_append)
  then show ?thesis by (auto simp: acknowledged_def)
qed

lemma observe_ignored:
  "t_protocol (fs_original s) \<noteq> PROTOCOL_TCP \<or> d > 1 \<Longrightarrow> observe_tcp s d f n g = s"
  by (simp add: observe_tcp_def)

lemmas observe_defs =
  observe_syn_def observe_ack_def observe_fin_def observe_rst_def observe_terminal_def

lemma observe_step_masks:
  "fs_fin_seen_mask (observe_syn d f s) = fs_fin_seen_mask s"
  "fs_fin_ack_seen_mask (observe_syn d f s) = fs_fin_ack_seen_mask s"
  "fs_fin_seen_mask (observe_ack d f s) = fs_fin_seen_mask s"
  "fs_fin_ack_seen_mask (observe_fin d f s) = fs_fin_ack_seen_mask s"
  "fs_fin_seen_mask (observe_rst f s) = fs_fin_seen_mask s"
  "fs_fin_ack_seen_mask (observe_rst f s) = fs_fin_ack_seen_mask s"
  "fs_fin_seen_mask (observe_terminal n g s) = fs_fin_seen_mask s"
  "fs_fin_ack_seen_mask (observe_terminal n g s) = fs_fin_ack_seen_mask s"
  "fs_fin_seen_mask (observe_fin d f s) =
     (if f AND TCP_FIN \<noteq> 0 then fs_fin_seen_mask s OR push_bit (unat d) 1 else fs_fin_seen_mask s)"
  "fs_fin_ack_seen_mask (observe_ack d f s) =
     (if f AND TCP_ACK \<noteq> 0 \<and> fs_fin_seen_mask s AND push_bit (unat (d XOR 1)) 1 \<noteq> 0
      then fs_fin_ack_seen_mask s OR push_bit (unat d) 1 else fs_fin_ack_seen_mask s)"
  by (simp_all add: observe_defs)

lemma observe_step_deadline:
  "fs_terminal_deadline_ns (observe_syn d f s) = fs_terminal_deadline_ns s"
  "fs_terminal_deadline_ns (observe_ack d f s) = fs_terminal_deadline_ns s"
  "fs_terminal_deadline_ns (observe_fin d f s) = fs_terminal_deadline_ns s"
  "fs_terminal_deadline_ns (observe_rst f s) = fs_terminal_deadline_ns s"
  by (simp_all add: observe_defs)

lemma observe_tcp_frame [simp]:
  "fs_flow_id (observe_tcp s d f n g) = fs_flow_id s"
  "fs_generation (observe_tcp s d f n g) = fs_generation s"
  "fs_original (observe_tcp s d f n g) = fs_original s"
  "fs_target (observe_tcp s d f n g) = fs_target s"
  "fs_reverse (observe_tcp s d f n g) = fs_reverse s"
  "fs_protocol_flags (observe_tcp s d f n g) = fs_protocol_flags s"
  "fs_lifecycle (observe_tcp s d f n g) = fs_lifecycle s"
  by (simp_all add: observe_tcp_def observe_defs Let_def)

lemma u8_le_one: "\<not> (d :: u8) > 1 \<longleftrightarrow> d = 0 \<or> d = 1"
proof -
  have "d = 0 \<or> d = 1" if "unat d \<le> 1"
    using that by (auto simp: le_Suc_eq word_unat_eq_iff)
  then show ?thesis by (auto simp: word_less_nat_alt)
qed

lemma observe_tcp_effect:
  assumes "t_protocol (fs_original s) = PROTOCOL_TCP" "\<not> d > 1"
  shows "fs_fin_seen_mask (observe_tcp s d f n g) =
           (if f AND TCP_FIN \<noteq> 0 then fs_fin_seen_mask s OR push_bit (unat d) 1
            else fs_fin_seen_mask s)"
    and "fs_fin_ack_seen_mask (observe_tcp s d f n g) =
           (if f AND TCP_ACK \<noteq> 0 \<and> fs_fin_seen_mask s AND push_bit (unat (d XOR 1)) 1 \<noteq> 0
            then fs_fin_ack_seen_mask s OR push_bit (unat d) 1 else fs_fin_ack_seen_mask s)"
    and "fs_terminal_deadline_ns (observe_tcp s d f n g) =
           (if fs_fin_seen_mask (observe_tcp s d f n g) = 3
               \<and> fs_fin_ack_seen_mask (observe_tcp s d f n g) = 3
               \<and> fs_terminal_deadline_ns s = 0
            then saturating_add_u64 n g else fs_terminal_deadline_ns s)"
proof -
  let ?s = "observe_rst f (observe_fin d f (observe_ack d f (observe_syn d f
              (s\<lparr>fs_last_used_ns := n\<rparr>))))"
  have eq: "observe_tcp s d f n g = observe_terminal n g ?s"
    using assms by (simp add: observe_tcp_def Let_def)
  have deadline: "fs_terminal_deadline_ns ?s = fs_terminal_deadline_ns s"
    by (simp add: observe_step_deadline)
  show "fs_fin_seen_mask (observe_tcp s d f n g) =
          (if f AND TCP_FIN \<noteq> 0 then fs_fin_seen_mask s OR push_bit (unat d) 1
           else fs_fin_seen_mask s)"
    by (simp add: eq observe_step_masks)
  show "fs_fin_ack_seen_mask (observe_tcp s d f n g) =
          (if f AND TCP_ACK \<noteq> 0 \<and> fs_fin_seen_mask s AND push_bit (unat (d XOR 1)) 1 \<noteq> 0
           then fs_fin_ack_seen_mask s OR push_bit (unat d) 1 else fs_fin_ack_seen_mask s)"
    by (simp add: eq observe_step_masks)
  have "fs_terminal_deadline_ns (observe_terminal n g s') =
          (if fs_fin_seen_mask (observe_terminal n g s') = 3
              \<and> fs_fin_ack_seen_mask (observe_terminal n g s') = 3
              \<and> fs_terminal_deadline_ns s' = 0
           then saturating_add_u64 n g else fs_terminal_deadline_ns s')" for s'
    by (simp add: observe_step_masks(7,8) observe_terminal_def)
  from this [of ?s] show "fs_terminal_deadline_ns (observe_tcp s d f n g) =
           (if fs_fin_seen_mask (observe_tcp s d f n g) = 3
               \<and> fs_fin_ack_seen_mask (observe_tcp s d f n g) = 3
               \<and> fs_terminal_deadline_ns s = 0
            then saturating_add_u64 n g else fs_terminal_deadline_ns s)"
    unfolding eq by (simp only: deadline)
qed

lemma dir_mask_or:
  "\<not> d > 1 \<Longrightarrow> dir_mask P OR 2 ^ unat d = dir_mask (\<lambda>x. P x \<or> x = d)"
  unfolding u8_le_one dir_mask_def by (cases "P 0"; cases "P 1") auto

lemma dir_mask_test:
  "\<not> d > 1 \<Longrightarrow> dir_mask P AND 2 ^ unat (d XOR 1) = 0 \<longleftrightarrow> \<not> P (d XOR 1)"
  unfolding u8_le_one dir_mask_def by (cases "P 0"; cases "P 1") auto

lemma dir_mask_full: "dir_mask P = 3 \<longleftrightarrow> P 0 \<and> P 1"
  unfolding dir_mask_def by (cases "P 0"; cases "P 1") auto

lemma dir_mask_cong: "P 0 = Q 0 \<Longrightarrow> P 1 = Q 1 \<Longrightarrow> dir_mask P = dir_mask Q"
  by (simp add: dir_mask_def)

lemma observe_all_snoc [simp]: "observe_all s (es @ [e]) = observe (observe_all s es) e"
  by (simp add: observe_all_def)

lemma observe_all_original [simp]: "fs_original (observe_all s es) = fs_original s"
  by (induction es rule: rev_induct) (simp_all add: observe_all_def observe_def)

lemma observe_trace_masks:
  assumes "t_protocol (fs_original s) = PROTOCOL_TCP"
    and "fs_fin_seen_mask s = 0" "fs_fin_ack_seen_mask s = 0"
    and "list_all (\<lambda>e. ob_direction e \<le> 1) es"
  shows "fs_fin_seen_mask (observe_all s es) = dir_mask (finished es)
       \<and> fs_fin_ack_seen_mask (observe_all s es) = dir_mask (acknowledged es)"
  using assms(4)
proof (induction es rule: rev_induct)
  case Nil
  show ?case
    using assms by (simp add: observe_all_def finished_def acknowledged_def dir_mask_def)
next
  case (snoc e es)
  let ?s = "observe_all s es" and ?d = "ob_direction e"
  have d: "\<not> ?d > 1" and tcp: "t_protocol (fs_original ?s) = PROTOCOL_TCP"
    using snoc.prems assms(1) by auto
  have fin: "fs_fin_seen_mask ?s = dir_mask (finished es)"
    and ack: "fs_fin_ack_seen_mask ?s = dir_mask (acknowledged es)"
    using snoc by auto
  have "fs_fin_seen_mask (observe ?s e) = dir_mask (finished (es @ [e]))"
    by (auto simp: observe_def observe_tcp_effect [OF tcp d] fin dir_mask_or [OF d]
        finished_snoc sends_def intro!: dir_mask_cong)
  moreover have "fs_fin_ack_seen_mask (observe ?s e) = dir_mask (acknowledged (es @ [e]))"
  proof -
    have "fs_fin_ack_seen_mask (observe ?s e) =
            dir_mask (\<lambda>x. acknowledged es x \<or>
              x = ?d \<and> ob_flags e AND TCP_ACK \<noteq> 0 \<and> finished es (?d XOR 1))"
      by (simp add: observe_def observe_tcp_effect [OF tcp d] fin ack dir_mask_or [OF d]
          dir_mask_test [OF d])
    also have "\<dots> = dir_mask (acknowledged (es @ [e]))"
      by (rule arg_cong [where f = dir_mask]) (auto simp: acknowledged_snoc sends_def)
    finally show ?thesis .
  qed
  ultimately show ?case by simp
qed

definition closing_index :: "observation list \<Rightarrow> nat option" where
  "closing_index es = List.find (\<lambda>i. closed_trace (take (Suc i) es)) [0..<length es]"

lemma closing_index_snoc:
  "closing_index (es @ [e]) =
     (case closing_index es of
        None \<Rightarrow> if closed_trace (es @ [e]) then Some (length es) else None
      | Some i \<Rightarrow> Some i)"
proof -
  have "List.find (\<lambda>i. closed_trace (take (Suc i) (es @ [e]))) [0..<length es] = closing_index es"
    unfolding closing_index_def by (rule find_cong) auto
  then show ?thesis by (simp add: closing_index_def find_snoc)
qed

lemma closing_index_less: "closing_index es = Some i \<Longrightarrow> i < length es"
  by (auto simp: closing_index_def find_Some_iff)

lemma observe_trace_deadline_step:
  assumes "t_protocol (fs_original s) = PROTOCOL_TCP"
    and "fs_fin_seen_mask s = 0" "fs_fin_ack_seen_mask s = 0"
    and "list_all (\<lambda>e. ob_direction e \<le> 1) (es @ [e])"
  shows "fs_terminal_deadline_ns (observe_all s (es @ [e])) =
     (if closed_trace (es @ [e]) \<and> fs_terminal_deadline_ns (observe_all s es) = 0
      then saturating_add_u64 (ob_now_ns e) (ob_grace_ns e)
      else fs_terminal_deadline_ns (observe_all s es))"
proof -
  have d: "\<not> ob_direction e > 1"
    and tcp: "t_protocol (fs_original (observe_all s es)) = PROTOCOL_TCP"
    using assms by auto
  show ?thesis
    using observe_trace_masks [OF assms] observe_tcp_effect(3) [OF tcp d]
    by (auto simp: observe_def closed_trace_def dir_mask_full)
qed

lemma idle_for_iff:
  "ttl \<le> saturating_sub_u64 now used \<longleftrightarrow> ttl = 0 \<or> unat used + unat ttl \<le> unat now"
  by (auto simp: word_le_nat_alt unat_saturating_sub_u64 unat_eq_zero [symmetric]
      simp del: unat_eq_zero)

lemma reset_seen_iff: "w AND TCP_RST \<noteq> 0 \<longleftrightarrow> bit w 4"
proof -
  have "TCP_RST = 2 ^ 4" by (simp add: TCP_RST_def)
  then show ?thesis by (metis and_exp_eq_0_iff_not_bit)
qed

section \<open>Properties\<close>

text \<open>A mapping survives its encoding as a key and value pair exactly when neither of its
  tuples mixes the address families; in particular every validated mapping round-trips.\<close>

theorem mapping_round_trip:
  "decode_value (encode_key (m_synthetic m)) (encode_value m) = Inr m \<longleftrightarrow>
     same_family (m_synthetic m) \<and> same_family (m_original m)"
  by (cases m) (auto simp: decode_value_def length_consts slice_simps decode_encode_key
      and_then_Inr_iff dest: decode_key_same_family)

text \<open>C29: the 256-byte flow-state record decodes to the flow it was written from exactly when
  that flow passes validation: nothing is lost for a valid flow and no invalid flow is
  ever read back.\<close>

theorem flow_state_round_trip:
  "decode_flow_state (encode_flow_state s) = Inr s \<longleftrightarrow> flow_state_validate s = Inr ()"
  using decode_encode_flow_state_valid decode_flow_state_valid by auto

text \<open>C27: along any trace of packets of a fresh TCP flow the terminal deadline is zero until
  both directions have sent a FIN and both FINs have been acknowledged by a later ACK of the
  peer, and from then on it is the saturated sum of time and grace at the packet that
  completed the exchange; later packets never move it.\<close>

theorem terminal_deadline_trace:
  assumes "t_protocol (fs_original s) = PROTOCOL_TCP"
    and "fs_fin_seen_mask s = 0" "fs_fin_ack_seen_mask s = 0" "fs_terminal_deadline_ns s = 0"
    and "list_all (\<lambda>e. ob_direction e \<le> 1) es"
    and "list_all (\<lambda>e. saturating_add_u64 (ob_now_ns e) (ob_grace_ns e) \<noteq> 0) es"
  shows "fs_terminal_deadline_ns (observe_all s es) =
     (case closing_index es of
        None \<Rightarrow> 0
      | Some i \<Rightarrow> saturating_add_u64 (ob_now_ns (es ! i)) (ob_grace_ns (es ! i)))"
  using assms(5,6)
proof (induction es rule: rev_induct)
  case Nil
  show ?case using assms(4) by (simp add: observe_all_def closing_index_def)
next
  case (snoc e es)
  have nz: "saturating_add_u64 (ob_now_ns (es ! i)) (ob_grace_ns (es ! i)) \<noteq> 0"
    if "closing_index es = Some i" for i
    using snoc.prems(2) closing_index_less [OF that] by (auto simp: list_all_iff)
  show ?case
    unfolding observe_trace_deadline_step [OF assms(1-3) snoc.prems(1)]
    using snoc nz closing_index_less by (auto simp: closing_index_snoc nth_append split: option.splits)
qed

theorem terminal_deadline_trace_witness:
  "let t = \<lparr>t_source = V4 1, t_destination = V4 2, t_protocol = PROTOCOL_TCP,
            t_source_port = 3, t_destination_port = 4\<rparr>;
       s = \<lparr>fs_flow_id = 1, fs_generation = 1, fs_original = t, fs_target = t, fs_reverse = t,
            fs_last_used_ns = 0, fs_protocol_flags = 1, fs_tcp_state_flags = 0,
            fs_fin_seen_mask = 0, fs_fin_ack_seen_mask = 0, fs_lifecycle = Active,
            fs_terminal_deadline_ns = 0\<rparr>;
       ob = (\<lambda>d f n. \<lparr>ob_direction = d, ob_flags = f, ob_now_ns = n, ob_grace_ns = 10\<rparr>);
       es = [ob 0 8 1, ob 1 12 2, ob 0 4 3, ob 0 4 9]
   in fs_terminal_deadline_ns (observe_all s es) = 13"
proof -
  let ?t = "\<lparr>t_source = V4 1, t_destination = V4 2, t_protocol = PROTOCOL_TCP,
            t_source_port = 3, t_destination_port = 4\<rparr> :: tuple"
  let ?s = "\<lparr>fs_flow_id = 1, fs_generation = 1, fs_original = ?t, fs_target = ?t,
            fs_reverse = ?t, fs_last_used_ns = 0, fs_protocol_flags = 1, fs_tcp_state_flags = 0,
            fs_fin_seen_mask = 0, fs_fin_ack_seen_mask = 0, fs_lifecycle = Active,
            fs_terminal_deadline_ns = 0\<rparr> :: flow_state"
  let ?ob = "\<lambda>d f n. \<lparr>ob_direction = d, ob_flags = f, ob_now_ns = n, ob_grace_ns = 10\<rparr>"
  let ?es = "[?ob 0 8 1, ?ob 1 12 2, ?ob 0 4 3, ?ob 0 4 9]"
  have "closing_index ?es = Some 2"
    by code_simp
  then show ?thesis
    using terminal_deadline_trace [of ?s ?es]
    by (simp add: saturating_add_u64_def)
qed

text \<open>expiry. A flow still being created or reset is always removable; a TCP flow in its
  terminal grace is removable from its deadline on; any other flow is removable exactly when
  it has been idle for the configured time (with no wrap-around if the clock of the last
  packet is ahead).\<close>

theorem should_delete_iff:
  "should_delete s now ttl \<longleftrightarrow>
     fs_lifecycle s = Creating \<or> bit (fs_tcp_state_flags s) 4
     \<or> (if t_protocol (fs_original s) = PROTOCOL_TCP \<and> fs_terminal_deadline_ns s \<noteq> 0
        then unat (fs_terminal_deadline_ns s) \<le> unat now
        else ttl = 0 \<or> unat (fs_last_used_ns s) + unat ttl \<le> unat now)"
  unfolding should_delete_def idle_for_iff reset_seen_iff
  by (auto simp: word_le_nat_alt)

end
