(* ===== verification/Runtime_Config.thy ===== *)
theory Runtime_Config
  imports Mapping_ABI
begin

text \<open>
  \<open>crates/control-service/src/config.rs\<close>: the runtime settings, their validation, and the
  store that publishes validated snapshots with increasing revisions. The atomic swap of the
  snapshot is one field of the store's state, the atomic counter another.
\<close>

section \<open>Model\<close>

record listener_descriptor =
  ld_address :: ip_addr
  ld_port :: u16
  ld_ipv4_wildcard :: bool
  ld_ipv6_wildcard :: bool

definition from_socket_addr :: "socket_addr \<Rightarrow> listener_descriptor" where
  "from_socket_addr address =
     \<lparr>ld_address = sa_ip address, ld_port = sa_port address,
      ld_ipv4_wildcard = (is_unspecified (sa_ip address) \<and> is_ipv4 (sa_ip address)),
      ld_ipv6_wildcard = (is_unspecified (sa_ip address) \<and> \<not> is_ipv4 (sa_ip address))\<rparr>"

definition listener_socket_addr :: "listener_descriptor \<Rightarrow> socket_addr" where
  "listener_socket_addr l = socket_addr_new (ld_address l) (ld_port l)"

record runtime_config =
  rc_schema_version :: u16
  rc_revision :: u64
  rc_idle_ttl :: duration
  rc_log_capacity :: usize
  rc_active_flow_capacity :: usize
  rc_tcp_terminal_grace :: duration
  rc_ipv4_target :: "socket_addr option"
  rc_ipv6_target :: "socket_addr option"
  rc_listener :: listener_descriptor

definition runtime_config_default :: runtime_config where
  "runtime_config_default =
     \<lparr>rc_schema_version = RUNTIME_CONFIG_ABI_VERSION, rc_revision = 1,
      rc_idle_ttl = from_secs 60, rc_log_capacity = 1024, rc_active_flow_capacity = 4096,
      rc_tcp_terminal_grace = from_secs 30, rc_ipv4_target = None, rc_ipv6_target = None,
      rc_listener = from_socket_addr (SocketAddrV4 0 50051)\<rparr>"

datatype config_error =
    UnsupportedSchemaVersion
  | ZeroIdleTtl
  | InvalidLogCapacity
  | InvalidFlowCapacity
  | FlowIndexCapacityExceeded
  | ZeroTerminalGrace
  | DurationOverflow
  | InvalidListenerPort
  | InvalidListenerWildcard
  | PartialTarget
  | TargetFamilyMismatch
  | UnspecifiedTarget

fun config_error_message :: "config_error \<Rightarrow> string" where
  "config_error_message UnsupportedSchemaVersion = ''runtime config schema version is unsupported''"
| "config_error_message ZeroIdleTtl = ''idle TTL must be non-zero''"
| "config_error_message InvalidLogCapacity = ''log capacity must be between 1 and 100000''"
| "config_error_message InvalidFlowCapacity =
     ''active flow capacity must be between 1 and the ELF maximum''"
| "config_error_message FlowIndexCapacityExceeded =
     ''active flow capacity requires three flow indexes per flow''"
| "config_error_message ZeroTerminalGrace = ''TCP terminal grace must be non-zero''"
| "config_error_message DurationOverflow = ''runtime duration is too large''"
| "config_error_message InvalidListenerPort = ''listener port must be non-zero''"
| "config_error_message InvalidListenerWildcard =
     ''listener wildcard flags do not match the listener address''"
| "config_error_message PartialTarget = ''target address and port must be set together''"
| "config_error_message TargetFamilyMismatch = ''target address family does not match its field''"
| "config_error_message UnspecifiedTarget = ''target address is unspecified''"

definition bpf_duration_nanos :: "duration \<Rightarrow> config_error + u64" where
  "bpf_duration_nanos d = ok_or DurationOverflow (u64_try_from d)"

definition validate_target :: "socket_addr option \<Rightarrow> bool \<Rightarrow> config_error + unit" where
  "validate_target target ipv4 =
     (case target of
        None \<Rightarrow> Inr ()
      | Some t \<Rightarrow>
          if sa_port t = 0 then Inl PartialTarget
          else if is_ipv4 (sa_ip t) \<noteq> ipv4 then Inl TargetFamilyMismatch
          else if is_unspecified (sa_ip t) then Inl UnspecifiedTarget
          else Inr ())"

definition validate_with_maxima :: "runtime_config \<Rightarrow> map_maxima \<Rightarrow> config_error + unit" where
  "validate_with_maxima c maxima =
     (if rc_schema_version c \<noteq> RUNTIME_CONFIG_ABI_VERSION then Inl UnsupportedSchemaVersion
      else if rc_idle_ttl c = 0 then Inl ZeroIdleTtl
      else if rc_log_capacity c = 0 \<or> rc_log_capacity c > 100000 then Inl InvalidLogCapacity
      else if rc_active_flow_capacity c = 0 \<or> rc_active_flow_capacity c > mm_flow_state maxima
      then Inl InvalidFlowCapacity
      else if saturating_mul_usize (rc_active_flow_capacity c) 3 > mm_flow_index maxima
      then Inl FlowIndexCapacityExceeded
      else if rc_tcp_terminal_grace c = 0 then Inl ZeroTerminalGrace
      else if ld_port (rc_listener c) = 0 then Inl InvalidListenerPort
      else if ld_ipv4_wildcard (rc_listener c)
                \<noteq> (is_unspecified (ld_address (rc_listener c)) \<and> is_ipv4 (ld_address (rc_listener c)))
              \<or> ld_ipv6_wildcard (rc_listener c)
                \<noteq> (is_unspecified (ld_address (rc_listener c)) \<and> \<not> is_ipv4 (ld_address (rc_listener c)))
      then Inl InvalidListenerWildcard
      else
        and_then (validate_target (rc_ipv4_target c) True) (\<lambda>_.
        and_then (validate_target (rc_ipv6_target c) False) (\<lambda>_.
        and_then (bpf_duration_nanos (rc_idle_ttl c)) (\<lambda>_.
        and_then (bpf_duration_nanos (rc_tcp_terminal_grace c)) (\<lambda>_.
          Inr ())))))"

definition config_validate :: "runtime_config \<Rightarrow> config_error + unit" where
  "config_validate c = validate_with_maxima c map_maxima_default"

record config_store =
  cs_current :: runtime_config
  cs_next_revision :: u64
  cs_maxima :: map_maxima

definition store_new_with_maxima ::
    "runtime_config \<Rightarrow> map_maxima \<Rightarrow> config_error + config_store" where
  "store_new_with_maxima initial maxima =
     and_then (validate_with_maxima initial maxima) (\<lambda>_.
       Inr \<lparr>cs_current = initial, cs_next_revision = rc_revision initial + 1, cs_maxima = maxima\<rparr>)"

definition store_new :: "runtime_config \<Rightarrow> config_error + config_store" where
  "store_new initial = store_new_with_maxima initial map_maxima_default"

definition snapshot :: "config_store \<Rightarrow> runtime_config" where
  "snapshot st = cs_current st"

definition store_update ::
    "runtime_config \<Rightarrow> config_store \<Rightarrow> (config_error + runtime_config) \<times> config_store" where
  "store_update next_config st =
     (case validate_with_maxima next_config (cs_maxima st) of
        Inl e \<Rightarrow> (Inl e, st)
      | Inr _ \<Rightarrow>
          let next_config = next_config\<lparr>rc_revision := cs_next_revision st\<rparr>;
              st = st\<lparr>cs_next_revision := cs_next_revision st + 1\<rparr>;
              st = st\<lparr>cs_current := next_config\<rparr>
          in (Inr next_config, st))"

definition validate_snapshot_with_maxima ::
    "map_maxima \<Rightarrow> config_store \<Rightarrow> config_error + unit" where
  "validate_snapshot_with_maxima maxima st = validate_with_maxima (snapshot st) maxima"

fun publish_all ::
    "('c \<Rightarrow> 's \<Rightarrow> ('e + 'c) \<times> 's) \<Rightarrow> 'c list \<Rightarrow> 's \<Rightarrow> ('e + 'c) list \<times> 's" where
  "publish_all upd [] s = ([], s)"
| "publish_all upd (c # cs) s =
     (let (r, s) = upd c s; (rs, s) = publish_all upd cs s in (r # rs, s))"

fun successes :: "('e + 'c) list \<Rightarrow> 'c list" where
  "successes [] = []"
| "successes (Inl _ # rs) = successes rs"
| "successes (Inr c # rs) = c # successes rs"

section \<open>Validity\<close>

definition valid_target :: "bool \<Rightarrow> socket_addr \<Rightarrow> bool" where
  "valid_target ipv4 t \<longleftrightarrow>
     sa_port t \<noteq> 0 \<and> is_ipv4 (sa_ip t) = ipv4 \<and> \<not> is_unspecified (sa_ip t)"

definition valid_listener :: "listener_descriptor \<Rightarrow> bool" where
  "valid_listener l \<longleftrightarrow>
     ld_port l \<noteq> 0
     \<and> ld_ipv4_wildcard l = (ld_address l = V4 0)
     \<and> ld_ipv6_wildcard l = (ld_address l = V6 0)"

definition valid_config :: "map_maxima \<Rightarrow> runtime_config \<Rightarrow> bool" where
  "valid_config m c \<longleftrightarrow>
     rc_schema_version c = RUNTIME_CONFIG_ABI_VERSION
     \<and> 0 < rc_idle_ttl c \<and> rc_idle_ttl c < 2 ^ 64
     \<and> 0 < rc_tcp_terminal_grace c \<and> rc_tcp_terminal_grace c < 2 ^ 64
     \<and> 0 < rc_log_capacity c \<and> rc_log_capacity c \<le> 100000
     \<and> 0 < rc_active_flow_capacity c \<and> rc_active_flow_capacity c \<le> mm_flow_state m
     \<and> saturating_mul_usize (rc_active_flow_capacity c) 3 \<le> mm_flow_index m
     \<and> valid_listener (rc_listener c)
     \<and> pred_option (valid_target True) (rc_ipv4_target c)
     \<and> pred_option (valid_target False) (rc_ipv6_target c)"

lemma is_unspecified_eq:
  "(is_unspecified a \<and> is_ipv4 a) = (a = V4 0)" "(is_unspecified a \<and> \<not> is_ipv4 a) = (a = V6 0)"
  by (cases a; simp)+

lemma validate_target_iff [simp]: "validate_target t v4 = Inr u \<longleftrightarrow> pred_option (valid_target v4) t"
  by (auto simp: validate_target_def valid_target_def split: option.splits)

lemma bpf_duration_nanos_iff [simp]: "bpf_duration_nanos d = Inr w \<longleftrightarrow> d < 2 ^ 64 \<and> unat w = d"
  by (simp add: bpf_duration_nanos_def u64_try_from_Some_iff)

lemma bpf_duration_nanos_total: "(\<exists>w. bpf_duration_nanos d = Inr w) \<longleftrightarrow> d < 2 ^ 64"
  by (simp add: bpf_duration_nanos_def u64_try_from_def)

lemma validate_with_maxima_iff [simp]: "validate_with_maxima c m = Inr u \<longleftrightarrow> valid_config m c"
  unfolding validate_with_maxima_def is_unspecified_eq valid_config_def valid_listener_def
  by (auto simp: and_then_Inr_iff bpf_duration_nanos_total simp del: bpf_duration_nanos_iff)

lemma valid_config_revision [simp]: "valid_config m (c\<lparr>rc_revision := r\<rparr>) = valid_config m c"
  by (simp add: valid_config_def)

lemma saturating_mul_le_iff:
  "n < usize_max \<Longrightarrow> saturating_mul_usize a b \<le> n \<longleftrightarrow> a * b \<le> n"
  by (auto simp: saturating_mul_usize_def)

lemma valid_from_socket_addr: "valid_listener (from_socket_addr a) \<longleftrightarrow> sa_port a \<noteq> 0"
  by (simp add: valid_listener_def from_socket_addr_def is_unspecified_eq)

lemma store_update_cases:
  "store_update c st =
     (case validate_with_maxima c (cs_maxima st) of
        Inl e \<Rightarrow> (Inl e, st)
      | Inr _ \<Rightarrow> (Inr (c\<lparr>rc_revision := cs_next_revision st\<rparr>),
                  st\<lparr>cs_next_revision := cs_next_revision st + 1,
                     cs_current := c\<lparr>rc_revision := cs_next_revision st\<rparr>\<rparr>))"
  by (simp add: store_update_def Let_def del: validate_with_maxima_iff split: sum.splits)

lemma default_config_valid: "valid_config map_maxima_default runtime_config_default"
  by (simp add: runtime_config_default_def valid_config_def valid_from_socket_addr
      map_maxima_default_def from_secs_def ELF_FLOW_STATE_MAX_ENTRIES_def
      ELF_FLOW_INDEX_MAX_ENTRIES_def saturating_mul_usize_def)

section \<open>Publication\<close>

text \<open>The contract of a store whose readers only ever see validated values: a rejected update
  changes nothing, an accepted one is the next snapshot and carries the next revision.\<close>

locale publishing_store =
  fixes snap :: "'s \<Rightarrow> 'c" and revision :: "'c \<Rightarrow> u64"
    and update :: "'c \<Rightarrow> 's \<Rightarrow> ('e + 'c) \<times> 's"
    and valid :: "'s \<Rightarrow> 'c \<Rightarrow> bool" and next_revision :: "'s \<Rightarrow> u64"
  assumes rejected: "update c s = (Inl e, s') \<Longrightarrow> s' = s"
    and published: "update c s = (Inr c', s') \<Longrightarrow>
      snap s' = c' \<and> valid s c' \<and> valid s' = valid s
      \<and> revision c' = next_revision s \<and> next_revision s' = next_revision s + 1"
begin

lemma publish_all_valid:
  "publish_all update cs s = (rs, s') \<Longrightarrow> valid s (snap s) \<Longrightarrow>
   valid s' (snap s') \<and> valid s' = valid s"
proof (induction cs arbitrary: s rs)
  case (Cons c cs)
  obtain r s1 rs1 where 1: "update c s = (r, s1)" and 2: "publish_all update cs s1 = (rs1, s')"
    using Cons.prems(1) by (auto split: prod.splits)
  have "valid s1 (snap s1) \<and> valid s1 = valid s"
    using 1 Cons.prems(2) rejected published by (cases r) metis+
  with Cons.IH [OF 2] show ?case by metis
qed simp

lemma publish_all_snap:
  "publish_all update cs s = (rs, s') \<Longrightarrow> snap s' = last (snap s # successes rs)"
proof (induction cs arbitrary: s rs)
  case (Cons c cs)
  obtain r s1 rs1 where 1: "update c s = (r, s1)" and 2: "publish_all update cs s1 = (rs1, s')"
    and rs: "rs = r # rs1"
    using Cons.prems by (auto split: prod.splits)
  show ?case
    using Cons.IH [OF 2] 1 rs rejected published by (cases r) (auto split: if_splits)
qed simp

lemma publish_all_revisions:
  "publish_all update cs s = (rs, s') \<Longrightarrow>
   map revision (successes rs) =
     map (\<lambda>i. next_revision s + of_nat i) [0..<length (successes rs)]"
proof (induction cs arbitrary: s rs)
  case (Cons c cs)
  obtain r s1 rs1 where 1: "update c s = (r, s1)" and 2: "publish_all update cs s1 = (rs1, s')"
    and rs: "rs = r # rs1"
    using Cons.prems by (auto split: prod.splits)
  show ?case
  proof (cases r)
    case (Inl e)
    then have "s1 = s" using 1 rejected by blast
    then show ?thesis using Cons.IH [OF 2] rs Inl by simp
  next
    case (Inr c')
    then have "revision c' = next_revision s" "next_revision s1 = next_revision s + 1"
      using 1 published by blast+
    then show ?thesis
      using Cons.IH [OF 2] rs Inr
      by (simp add: upt_conv_Cons map_Suc_upt [symmetric] add.assoc del: upt_Suc)
  qed
qed simp

end

interpretation store: publishing_store snapshot rc_revision store_update
  "\<lambda>s. valid_config (cs_maxima s)" cs_next_revision
  by unfold_locales (auto simp: store_update_cases snapshot_def split: sum.splits)

section \<open>Properties\<close>



text \<open>C35: with the capacities compiled into the shipped object a configuration is accepted
  exactly when its schema is current, both durations are positive and fit the 64-bit
  nanosecond fields of the map, the log capacity is 1 to 100000, the listener has a port and
  consistent wildcard flags, each target is a usable address of its own family, and the flow
  capacity is 1 to 5461, so that three indexes per flow always fit the index map.\<close>

theorem config_validate_iff:
  "config_validate c = Inr () \<longleftrightarrow>
     rc_schema_version c = 3
     \<and> rc_idle_ttl c \<in> {1..<2 ^ 64} \<and> rc_tcp_terminal_grace c \<in> {1..<2 ^ 64}
     \<and> rc_log_capacity c \<in> {1..100000} \<and> rc_active_flow_capacity c \<in> {1..5461}
     \<and> valid_listener (rc_listener c)
     \<and> pred_option (valid_target True) (rc_ipv4_target c)
     \<and> pred_option (valid_target False) (rc_ipv6_target c)"
proof -
  have "saturating_mul_usize n 3 \<le> 16384 \<longleftrightarrow> n \<le> 5461" for n
    by (subst saturating_mul_le_iff) (auto simp: usize_max_def)
  then show ?thesis
    by (auto simp: config_validate_def valid_config_def map_maxima_default_def
        RUNTIME_CONFIG_ABI_VERSION_def ELF_FLOW_STATE_MAX_ENTRIES_def
        ELF_FLOW_INDEX_MAX_ENTRIES_def)
qed

end
