(* ===== verification/BTree_Map.thy ===== *)
theory BTree_Map
  imports Main "HOL-Library.List_Lexorder" "HOL-Library.Product_Lexorder"
begin

text \<open>
  \<open>std::collections::BTreeMap\<close> as the sources use it: an association list in strictly
  increasing key order, so that iteration is in key order as in Rust. The locale
  \<open>ordered_map\<close> is the interface; the sorted list interprets it.
\<close>

section \<open>Operations\<close>

type_synonym ('k, 'v) btree = "('k \<times> 'v) list"

definition bt_get :: "'k \<Rightarrow> ('k, 'v) btree \<Rightarrow> 'v option" where
  "bt_get k m = map_of m k"

fun bt_insert :: "'k::linorder \<Rightarrow> 'v \<Rightarrow> ('k, 'v) btree \<Rightarrow> ('k, 'v) btree" where
  "bt_insert k v [] = [(k, v)]"
| "bt_insert k v ((k', v') # m) =
     (if k < k' then (k, v) # (k', v') # m
      else if k = k' then (k, v) # m
      else (k', v') # bt_insert k v m)"

definition bt_retain :: "('k \<Rightarrow> 'v \<Rightarrow> bool) \<Rightarrow> ('k, 'v) btree \<Rightarrow> ('k, 'v) btree" where
  "bt_retain P m = filter (\<lambda>(k, v). P k v) m"

definition bt_remove :: "'k \<Rightarrow> ('k, 'v) btree \<Rightarrow> ('k, 'v) btree" where
  "bt_remove k m = filter (\<lambda>(k', _). k' \<noteq> k) m"

definition bt_keys :: "('k, 'v) btree \<Rightarrow> 'k list" where
  "bt_keys m = map fst m"

definition bt_values :: "('k, 'v) btree \<Rightarrow> 'v list" where
  "bt_values m = map snd m"

definition bt_inv :: "('k::linorder, 'v) btree \<Rightarrow> bool" where
  "bt_inv m \<longleftrightarrow> sorted_wrt (<) (map fst m)"

section \<open>Interface\<close>

locale ordered_map =
  fixes empty :: 'm and get :: "'k::linorder \<Rightarrow> 'm \<Rightarrow> 'v option"
    and insert :: "'k \<Rightarrow> 'v \<Rightarrow> 'm \<Rightarrow> 'm" and remove :: "'k \<Rightarrow> 'm \<Rightarrow> 'm"
    and retain :: "('k \<Rightarrow> 'v \<Rightarrow> bool) \<Rightarrow> 'm \<Rightarrow> 'm"
    and to_list :: "'m \<Rightarrow> ('k \<times> 'v) list" and inv :: "'m \<Rightarrow> bool"
  assumes inv_empty: "inv empty" and get_empty: "get k empty = None"
    and inv_insert: "inv m \<Longrightarrow> inv (insert k v m)"
    and get_insert: "inv m \<Longrightarrow> get k' (insert k v m) = (if k' = k then Some v else get k' m)"
    and inv_remove: "inv m \<Longrightarrow> inv (remove k m)"
    and get_remove: "inv m \<Longrightarrow> get k' (remove k m) = (if k' = k then None else get k' m)"
    and inv_retain: "inv m \<Longrightarrow> inv (retain P m)"
    and get_retain: "inv m \<Longrightarrow>
      get k (retain P m) = (case get k m of None \<Rightarrow> None | Some v \<Rightarrow> if P k v then Some v else None)"
    and to_list_sorted: "inv m \<Longrightarrow> sorted_wrt (<) (map fst (to_list m))"
    and to_list_get: "inv m \<Longrightarrow> (k, v) \<in> set (to_list m) \<longleftrightarrow> get k m = Some v"
begin

lemma distinct_keys: "inv m \<Longrightarrow> distinct (map fst (to_list m))"
  using to_list_sorted by (simp add: strict_sorted_iff)

lemma remove_absent: "inv m \<Longrightarrow> get k m = None \<Longrightarrow> get k' (remove k m) = get k' m"
  by (simp add: get_remove)

lemma remove_insert: "inv m \<Longrightarrow> get k' (remove k (insert k v m)) = get k' (remove k m)"
  by (simp add: get_remove get_insert inv_insert)

end

section \<open>Lemmas\<close>

lemma map_of_bt_insert [simp]: "map_of (bt_insert k v m) = (map_of m)(k \<mapsto> v)"
  by (induction m) (auto simp: fun_eq_iff)

lemma bt_get_insert [simp]: "bt_get k' (bt_insert k v m) = (if k' = k then Some v else bt_get k' m)"
  by (simp add: bt_get_def)

lemma bt_get_Nil [simp]: "bt_get k [] = None"
  by (simp add: bt_get_def)

lemma bt_get_remove [simp]: "bt_get k' (bt_remove k m) = (if k' = k then None else bt_get k' m)"
  by (induction m) (auto simp: bt_get_def bt_remove_def)

lemma fst_set_bt_insert: "fst ` set (bt_insert k v m) = insert k (fst ` set m)"
  by (simp flip: dom_map_of_conv_image_fst)

lemma bt_inv_insert [simp]: "bt_inv m \<Longrightarrow> bt_inv (bt_insert k v m)"
proof (induction m)
  case (Cons kv m)
  then show ?case
    using fst_set_bt_insert [of k v m]
    by (cases kv) (auto simp: bt_inv_def)
qed (simp add: bt_inv_def)

lemma bt_inv_filter [simp]: "bt_inv m \<Longrightarrow> bt_inv (filter P m)"
  by (induction m) (auto simp: bt_inv_def)

lemma bt_inv_remove [simp]: "bt_inv m \<Longrightarrow> bt_inv (bt_remove k m)"
  by (simp add: bt_remove_def)

lemma bt_inv_retain [simp]: "bt_inv m \<Longrightarrow> bt_inv (bt_retain P m)"
  by (simp add: bt_retain_def)

lemma bt_inv_Nil [simp]: "bt_inv []"
  by (simp add: bt_inv_def)

lemma bt_inv_distinct: "bt_inv m \<Longrightarrow> distinct (map fst m)"
  by (simp add: bt_inv_def strict_sorted_iff)

lemma bt_get_mem: "bt_inv m \<Longrightarrow> (k, v) \<in> set m \<longleftrightarrow> bt_get k m = Some v"
  by (auto simp: bt_get_def bt_inv_distinct dest: map_of_SomeD)

lemma bt_get_retain [simp]:
  assumes "bt_inv m"
  shows "bt_get k (bt_retain P m) =
    (case bt_get k m of None \<Rightarrow> None | Some v \<Rightarrow> if P k v then Some v else None)"
proof -
  have mem: "bt_get k (bt_retain P m) = Some v \<longleftrightarrow> bt_get k m = Some v \<and> P k v" for v
    unfolding bt_get_mem [OF assms, symmetric] bt_get_mem [OF bt_inv_retain [OF assms], symmetric]
    by (simp add: bt_retain_def)
  show ?thesis
  proof (cases "bt_get k (bt_retain P m)")
    case None
    then have "\<not> (bt_get k m = Some v \<and> P k v)" for v
      using mem by simp
    then show ?thesis using None by (simp split: option.split)
  next
    case (Some v)
    then have "bt_get k m = Some v" "P k v"
      using mem by simp_all
    then show ?thesis using Some by simp
  qed
qed

lemma bt_values_mem:
  assumes "bt_inv m"
  shows "v \<in> set (bt_values m) \<longleftrightarrow> (\<exists>k. bt_get k m = Some v)"
proof -
  have "v \<in> set (bt_values m) \<longleftrightarrow> (\<exists>k. (k, v) \<in> set m)"
    unfolding bt_values_def by force
  then show ?thesis by (simp add: bt_get_mem [OF assms])
qed

lemma bt_keys_mem:
  assumes "bt_inv m"
  shows "k \<in> set (bt_keys m) \<longleftrightarrow> bt_get k m \<noteq> None"
proof -
  have "k \<in> set (bt_keys m) \<longleftrightarrow> (\<exists>v. (k, v) \<in> set m)"
    unfolding bt_keys_def by force
  then show ?thesis by (simp add: bt_get_mem [OF assms])
qed

lemma length_bt_insert: "bt_get k m = None \<Longrightarrow> length (bt_insert k v m) = Suc (length m)"
  by (induction m) (auto simp: bt_get_def split: if_splits)

lemma bt_remove_insert: "bt_inv m \<Longrightarrow> bt_remove k (bt_insert k v m) = bt_remove k m"
  by (induction m) (auto simp: bt_remove_def bt_inv_def)

lemma bt_remove_absent: "bt_get k m = None \<Longrightarrow> bt_remove k m = m"
  by (auto simp: bt_get_def bt_remove_def map_of_eq_None_iff filter_id_conv image_iff)

lemma length_bt_remove:
  "bt_inv m \<Longrightarrow> bt_get k m \<noteq> None \<Longrightarrow> Suc (length (bt_remove k m)) = length m"
proof (induction m)
  case (Cons kv m)
  obtain k' v where kv: "kv = (k', v)" by fastforce
  have m: "bt_inv m" "\<forall>x \<in> fst ` set m. k' < x"
    using Cons.prems(1) by (auto simp: kv bt_inv_def)
  show ?case
  proof (cases "k' = k")
    case True
    then have "bt_get k m = None"
      using m by (auto simp: bt_get_def map_of_eq_None_iff)
    from bt_remove_absent [OF this] show ?thesis
      using True by (simp add: kv bt_remove_def)
  next
    case False
    then show ?thesis
      using Cons m by (simp add: kv bt_remove_def bt_get_def)
  qed
qed simp

interpretation bt: ordered_map "[]" bt_get bt_insert bt_remove bt_retain "\<lambda>m. m" bt_inv
proof (unfold_locales, goal_cases)
  case 9
  then show ?case by (simp add: bt_inv_def)
next
  case 10
  then show ?case by (simp add: bt_get_mem)
qed simp_all

end
