(* ===== verification/Backend.thy ===== *)
theory Backend
  imports Runtime_Config BTree_Map
begin

text \<open>
  The first half of \<open>crates/control-service/src/bpf.rs\<close>: the error and report types, the
  \<open>BpfBackend\<close> trait and the in-memory backend.

  A trait object is a record of its methods over an opaque state \<open>'s\<close> (each method
  takes the state and returns its result with the new state), so code that calls a
  \<open>dyn BpfBackend\<close> is a function of such a record. The trait's default methods are the
  \<open>default_\<close> definitions. \<open>memory_backend\<close> is the record of the in-memory implementation;
  its mutex makes every method atomic.
\<close>

section \<open>Types\<close>

datatype backend_error =
    MissingElf string
  | InvalidInterface string
  | Operation string string
  | Unsupported
  | NotAttached
  | AbiMismatch u16
  | FlowCapacity
  | PartialCleanup string

fun backend_error_message :: "backend_error \<Rightarrow> string" where
  "backend_error_message (MissingElf p) = ''ELF path does not exist: '' @ p"
| "backend_error_message (InvalidInterface i) = ''invalid interface name: '' @ i"
| "backend_error_message (Operation location message) =
     ''backend failure at '' @ location @ '': '' @ message"
| "backend_error_message Unsupported = ''backend does not support Linux TC operations''"
| "backend_error_message NotAttached = ''no ELF has been loaded''"
| "backend_error_message (AbiMismatch v) = ''ABI version '' @ show_word v @ '' is not supported''"
| "backend_error_message FlowCapacity = ''active-flow capacity is exhausted''"
| "backend_error_message (PartialCleanup m) = ''partial flow cleanup: '' @ m"

datatype direction = Ingress | Egress

fun show_direction :: "direction \<Rightarrow> string" where
  "show_direction Ingress = ''Ingress''"
| "show_direction Egress = ''Egress''"

record attachment =
  at_interface :: string
  at_direction :: direction

record attach_report =
  ar_attachments :: "attachment list"
  ar_created :: "attachment list"
  ar_maxima :: map_maxima

record flow_cleanup_report =
  cr_state_deleted :: bool
  cr_indexes_deleted :: usize
  cr_partial :: bool
  cr_stale_generation :: bool
  cr_observation_mismatch :: bool

definition cleanup_default :: flow_cleanup_report where
  "cleanup_default =
     \<lparr>cr_state_deleted = False, cr_indexes_deleted = 0, cr_partial = False,
      cr_stale_generation = False, cr_observation_mismatch = False\<rparr>"

record bpf_counters =
  bc_target_misses :: u64
  bc_flow_insert_failures :: u64
  bc_control_bypasses :: u64

definition counters_default :: bpf_counters where
  "counters_default =
     \<lparr>bc_target_misses = 0, bc_flow_insert_failures = 0, bc_control_bypasses = 0\<rparr>"

type_synonym ('s, 'a) action = "'s \<Rightarrow> (backend_error + 'a) \<times> 's"

section \<open>The backend trait\<close>

record 's backend =
  be_attach :: "string \<Rightarrow> string list \<Rightarrow> ('s, attach_report) action"
  be_detach :: "string list option \<Rightarrow> ('s, unit) action"
  be_rollback_attach :: "attachment list \<Rightarrow> ('s, unit) action"
  be_list_entries :: "('s, (bytes \<times> bytes) list) action"
  be_get_entry :: "bytes \<Rightarrow> ('s, bytes option) action"
  be_delete_entry :: "bytes \<Rightarrow> ('s, bool) action"
  be_list_flow_states :: "('s, flow_state list) action"
  be_delete_flow :: "u64 \<Rightarrow> u32 \<Rightarrow> u64 \<Rightarrow> u64 \<Rightarrow> ('s, flow_cleanup_report) action"
  be_set_runtime_config :: "runtime_config \<Rightarrow> ('s, unit) action"
  be_read_counters :: "('s, bpf_counters) action"
  be_map_maxima :: "'s \<Rightarrow> map_maxima"
  be_attachments :: "'s \<Rightarrow> attachment list"

definition unsupported :: "('s, 'a) action" where
  "unsupported s = (Inl Unsupported, s)"

definition default_rollback_attach ::
    "(string list option \<Rightarrow> ('s, unit) action) \<Rightarrow> attachment list \<Rightarrow> ('s, unit) action" where
  "default_rollback_attach detach attachments =
     (let interfaces = map at_interface attachments
      in detach (if interfaces = [] then None else Some interfaces))"

definition required_links :: "string list \<Rightarrow> attachment list" where
  "required_links interfaces =
     concat (map (\<lambda>i. [\<lparr>at_interface = i, at_direction = Ingress\<rparr>,
                       \<lparr>at_interface = i, at_direction = Egress\<rparr>]) interfaces)"

definition link_name :: "string \<Rightarrow> direction \<Rightarrow> string" where
  "link_name interface direction = interface @ '':'' @ show_direction direction"

section \<open>The in-memory backend\<close>

record memory_state =
  ms_entries :: "(bytes, bytes) btree"
  ms_flow_states :: "(u64 \<times> u32, flow_state) btree"
  ms_flow_indexes :: "(bytes, flow_index_value) btree"
  ms_flow_mode :: bool
  ms_maxima :: map_maxima
  ms_attachments :: "attachment list"
  ms_detach_calls :: usize
  ms_fail_attach :: "string option"
  ms_fail_delete :: "bytes option"
  ms_fail_release_publication :: bool
  ms_pending_releases :: "(u64 \<times> u32, unit) btree"
  ms_published_releases :: usize
  ms_abort_delete_guard :: bool
  ms_fail_list :: bool
  ms_runtime_config :: "runtime_config option"

definition memory_default :: memory_state where
  "memory_default =
     \<lparr>ms_entries = [], ms_flow_states = [], ms_flow_indexes = [], ms_flow_mode = False,
      ms_maxima = map_maxima_default, ms_attachments = [], ms_detach_calls = 0,
      ms_fail_attach = None, ms_fail_delete = None, ms_fail_release_publication = False,
      ms_pending_releases = [], ms_published_releases = 0, ms_abort_delete_guard = False,
      ms_fail_list = False, ms_runtime_config = None\<rparr>"

definition insert_mapping :: "mapping \<Rightarrow> memory_state \<Rightarrow> memory_state" where
  "insert_mapping m s =
     s\<lparr>ms_entries := bt_insert (encode_key (m_synthetic m)) (encode_value m) (ms_entries s)\<rparr>"

definition set_release_publication_failure :: "bool \<Rightarrow> memory_state \<Rightarrow> memory_state" where
  "set_release_publication_failure failure s = s\<lparr>ms_fail_release_publication := failure\<rparr>"

definition insert_flow_state :: "flow_state \<Rightarrow> memory_state \<Rightarrow> memory_state" where
  "insert_flow_state f s =
     (let v = \<lparr>fi_flow_id = fs_flow_id f, fi_generation = fs_generation f\<rparr>;
          s = s\<lparr>ms_flow_mode := True\<rparr>;
          s = s\<lparr>ms_flow_states :=
                  bt_insert (fs_flow_id f, fs_generation f) f (ms_flow_states s)\<rparr>;
          s = s\<lparr>ms_flow_indexes := bt_insert (encode_key (fs_original f)) v (ms_flow_indexes s)\<rparr>;
          s = s\<lparr>ms_flow_indexes := bt_insert (encode_key (fs_target f)) v (ms_flow_indexes s)\<rparr>
      in s\<lparr>ms_flow_indexes := bt_insert (encode_key (fs_reverse f)) v (ms_flow_indexes s)\<rparr>)"

fun push_missing :: "attachment list \<Rightarrow> attachment list \<Rightarrow> attachment list" where
  "push_missing [] links = links"
| "push_missing (a # as) links =
     push_missing as (if a \<in> set links then links else links @ [a])"

definition memory_attach :: "string \<Rightarrow> string list \<Rightarrow> (memory_state, attach_report) action" where
  "memory_attach elf interfaces s =
     (case List.find (\<lambda>i. i = [] \<or> length i > 15) interfaces of
        Some i \<Rightarrow> (Inl (InvalidInterface i), s)
      | None \<Rightarrow>
          let required = required_links interfaces;
              existing = ms_attachments s;
              created = filter (\<lambda>a. a \<notin> set existing) required
          in case List.find
                    (\<lambda>a. ms_fail_attach s = Some (link_name (at_interface a) (at_direction a)))
                    required of
               Some a \<Rightarrow>
                 (Inl (Operation (link_name (at_interface a) (at_direction a))
                         ''in-memory injected failure (transaction rolled back)''),
                  s\<lparr>ms_attachments := existing\<rparr>)
             | None \<Rightarrow>
                 (Inr \<lparr>ar_attachments = required, ar_created = created, ar_maxima = ms_maxima s\<rparr>,
                  s\<lparr>ms_attachments := push_missing required (ms_attachments s)\<rparr>))"

definition memory_detach :: "string list option \<Rightarrow> (memory_state, unit) action" where
  "memory_detach interfaces s =
     (Inr (),
      s\<lparr>ms_detach_calls := ms_detach_calls s + 1,
        ms_attachments := filter (\<lambda>a. case interfaces of
                                       None \<Rightarrow> False
                                     | Some selected \<Rightarrow> at_interface a \<notin> set selected)
                            (ms_attachments s)\<rparr>)"

definition memory_rollback_attach :: "attachment list \<Rightarrow> (memory_state, unit) action" where
  "memory_rollback_attach attachments s =
     (Inr (),
      s\<lparr>ms_attachments :=
          foldl (\<lambda>links a. filter (\<lambda>c. c \<noteq> a) links) (ms_attachments s) attachments\<rparr>)"

definition memory_list_entries :: "(memory_state, (bytes \<times> bytes) list) action" where
  "memory_list_entries s =
     (if ms_fail_list s
      then (Inl (Operation ''map:list'' ''in-memory injected list failure''), s)
      else
        (Inr (ms_entries s @
              map (\<lambda>f. let m = flow_state_mapping f in (encode_key (m_synthetic m), encode_value m))
                (bt_values (ms_flow_states s))), s))"

definition memory_get_entry :: "bytes \<Rightarrow> (memory_state, bytes option) action" where
  "memory_get_entry key s =
     (Inr (case bt_get key (ms_entries s) of
             Some v \<Rightarrow> Some v
           | None \<Rightarrow>
               (case bt_get key (ms_flow_indexes s) of
                  None \<Rightarrow> None
                | Some index \<Rightarrow>
                    map_option (\<lambda>f. encode_value (flow_state_mapping f))
                      (bt_get (fi_flow_id index, fi_generation index) (ms_flow_states s)))), s)"

definition memory_delete_entry :: "bytes \<Rightarrow> (memory_state, bool) action" where
  "memory_delete_entry key s =
     (if ms_fail_delete s = Some key
      then (Inl (Operation ''map:delete'' ''in-memory injected delete failure''), s)
      else if bt_get key (ms_entries s) \<noteq> None
      then (Inr True, s\<lparr>ms_entries := bt_remove key (ms_entries s)\<rparr>)
      else case bt_get key (ms_flow_indexes s) of
             None \<Rightarrow> (Inr False, s)
           | Some expected \<Rightarrow>
               let k = (fi_flow_id expected, fi_generation expected);
                   removed = (bt_get k (ms_flow_states s) \<noteq> None)
               in (Inr removed,
                   s\<lparr>ms_flow_indexes := bt_retain (\<lambda>_ v. v \<noteq> expected) (ms_flow_indexes s),
                     ms_flow_states := bt_remove k (ms_flow_states s)\<rparr>))"

definition memory_list_flow_states :: "(memory_state, flow_state list) action" where
  "memory_list_flow_states s =
     (if \<not> ms_flow_mode s then (Inl Unsupported, s) else (Inr (bt_values (ms_flow_states s)), s))"

definition memory_release_journal :: "u64 \<times> u32 \<Rightarrow> (memory_state, flow_cleanup_report) action" where
  "memory_release_journal k s =
     (if bt_get k (ms_pending_releases s) \<noteq> None then
        (if ms_fail_release_publication s
         then (Inr (cleanup_default\<lparr>cr_partial := True\<rparr>), s)
         else (Inr cleanup_default,
               s\<lparr>ms_pending_releases := bt_remove k (ms_pending_releases s),
                 ms_published_releases := ms_published_releases s + 1\<rparr>))
      else
        (Inr (cleanup_default\<lparr>cr_stale_generation :=
                list_ex (\<lambda>(i, g). i = fst k \<and> g \<noteq> snd k) (bt_keys (ms_flow_states s))\<rparr>), s))"

definition memory_delete_flow ::
    "u64 \<Rightarrow> u32 \<Rightarrow> u64 \<Rightarrow> u64 \<Rightarrow> (memory_state, flow_cleanup_report) action" where
  "memory_delete_flow flow_id gen observed guard_deadline s =
     (case bt_get (flow_id, gen) (ms_flow_states s) of
        None \<Rightarrow> memory_release_journal (flow_id, gen) s
      | Some current \<Rightarrow>
          if ms_abort_delete_guard s
          then (Inr (cleanup_default\<lparr>cr_observation_mismatch := True\<rparr>), s)
          else if observed \<noteq> 0 \<and> fs_last_used_ns current \<noteq> observed
          then (Inr (cleanup_default\<lparr>cr_observation_mismatch := True\<rparr>), s)
          else
            let s = s\<lparr>ms_pending_releases :=
                        bt_insert (flow_id, gen) () (ms_pending_releases s)\<rparr>;
                s = s\<lparr>ms_flow_states := bt_remove (flow_id, gen) (ms_flow_states s)\<rparr>;
                expected = \<lparr>fi_flow_id = flow_id, fi_generation = gen\<rparr>;
                before = length (ms_flow_indexes s);
                s = s\<lparr>ms_flow_indexes := bt_retain (\<lambda>_ v. v \<noteq> expected) (ms_flow_indexes s)\<rparr>;
                partial = ms_fail_release_publication s;
                s = (if partial then s
                     else s\<lparr>ms_pending_releases := bt_remove (flow_id, gen) (ms_pending_releases s),
                            ms_published_releases := ms_published_releases s + 1\<rparr>)
            in (Inr \<lparr>cr_state_deleted = True,
                     cr_indexes_deleted = before - length (ms_flow_indexes s),
                     cr_partial = partial, cr_stale_generation = False,
                     cr_observation_mismatch = False\<rparr>, s))"

definition memory_set_runtime_config :: "runtime_config \<Rightarrow> (memory_state, unit) action" where
  "memory_set_runtime_config c s = (Inr (), s\<lparr>ms_runtime_config := Some c\<rparr>)"

definition memory_backend :: "memory_state backend" where
  "memory_backend =
     \<lparr>be_attach = memory_attach, be_detach = memory_detach,
      be_rollback_attach = memory_rollback_attach, be_list_entries = memory_list_entries,
      be_get_entry = memory_get_entry, be_delete_entry = memory_delete_entry,
      be_list_flow_states = memory_list_flow_states, be_delete_flow = memory_delete_flow,
      be_set_runtime_config = memory_set_runtime_config, be_read_counters = unsupported,
      be_map_maxima = ms_maxima, be_attachments = ms_attachments\<rparr>"

definition flow_key :: "flow_state \<Rightarrow> u64 \<times> u32" where
  "flow_key f = (fs_flow_id f, fs_generation f)"

definition memory_flow :: "memory_state \<Rightarrow> u64 \<times> u32 \<Rightarrow> flow_state option" where
  "memory_flow s k = bt_get k (ms_flow_states s)"

definition memory_inv :: "memory_state \<Rightarrow> bool" where
  "memory_inv s \<longleftrightarrow>
     bt_inv (ms_entries s) \<and> bt_inv (ms_flow_states s) \<and> bt_inv (ms_flow_indexes s)
     \<and> bt_inv (ms_pending_releases s)
     \<and> (\<forall>k f. memory_flow s k = Some f \<longrightarrow> k = flow_key f)
     \<and> (\<forall>key v. bt_get key (ms_flow_indexes s) = Some v \<longrightarrow>
          memory_flow s (fi_flow_id v, fi_generation v) \<noteq> None)"

text \<open>A sequence of cleanup requests, with changes of the release channel's availability in
  between, and the reports it yields.\<close>

datatype cleanup_op = Delete u64 u32 u64 u64 | Channel bool

fun run_cleanups ::
    "cleanup_op list \<Rightarrow> memory_state \<Rightarrow> (backend_error + flow_cleanup_report) list \<times> memory_state" where
  "run_cleanups [] s = ([], s)"
| "run_cleanups (Delete i g ob d # ops) s =
     (let (r, s) = memory_delete_flow i g ob d s; (rs, s) = run_cleanups ops s in (r # rs, s))"
| "run_cleanups (Channel failure # ops) s =
     run_cleanups ops (set_release_publication_failure failure s)"

definition deletions :: "(backend_error + flow_cleanup_report) list \<Rightarrow> nat" where
  "deletions rs =
     length (filter (\<lambda>r. case r of Inl _ \<Rightarrow> False | Inr c \<Rightarrow> cr_state_deleted c) rs)"

definition journal_inv :: "memory_state \<Rightarrow> bool" where
  "journal_inv s \<longleftrightarrow>
     memory_inv s \<and> (\<forall>k. bt_get k (ms_pending_releases s) \<noteq> None \<longrightarrow> memory_flow s k = None)"

definition releases :: "memory_state \<Rightarrow> nat" where
  "releases s = length (ms_pending_releases s) + ms_published_releases s"

text \<open>A concrete flow, for evaluating the definitions.\<close>

definition sample_tuple :: "u16 \<Rightarrow> tuple" where
  "sample_tuple port =
     \<lparr>t_source = V4 0x0A000001, t_destination = V4 0x0A000002, t_protocol = PROTOCOL_TCP,
      t_source_port = 40000, t_destination_port = port\<rparr>"

definition sample_flow :: flow_state where
  "sample_flow =
     \<lparr>fs_flow_id = 7, fs_generation = 1, fs_original = sample_tuple 80,
      fs_target = sample_tuple 15001, fs_reverse = sample_tuple 443, fs_last_used_ns = 100,
      fs_protocol_flags = 1, fs_tcp_state_flags = 1, fs_fin_seen_mask = 0,
      fs_fin_ack_seen_mask = 0, fs_lifecycle = Active, fs_terminal_deadline_ns = 0\<rparr>"

section \<open>Contracts\<close>

text \<open>What the control service relies on for links: a failed attach leaves the links alone, a
  successful one adds exactly what it reports, and rolling back removes what it is given.\<close>

locale link_backend =
  fixes B :: "'s backend" and inv :: "'s \<Rightarrow> bool"
  assumes attach_inv: "inv s \<Longrightarrow> inv (snd (be_attach B elf is s))"
    and rollback_inv: "inv s \<Longrightarrow> inv (snd (be_rollback_attach B as s))"
    and attach_error: "inv s \<Longrightarrow> be_attach B elf is s = (Inl e, s') \<Longrightarrow>
      set (be_attachments B s') = set (be_attachments B s)"
    and attach_ok: "inv s \<Longrightarrow> be_attach B elf is s = (Inr r, s') \<Longrightarrow>
      set (be_attachments B s') = set (be_attachments B s) \<union> set (ar_attachments r)
      \<and> set (ar_created r) = set (ar_attachments r) - set (be_attachments B s)"
    and rollback_ok: "inv s \<Longrightarrow> be_rollback_attach B as s = (Inr u, s') \<Longrightarrow>
      set (be_attachments B s') = set (be_attachments B s) - set as"
    and config_inv: "inv s \<Longrightarrow> inv (snd (be_set_runtime_config B c s))"
    and config_links: "be_attachments B (snd (be_set_runtime_config B c s)) = be_attachments B s"
begin

lemma attach_rollback:
  assumes "inv s" "be_attach B elf is s = (Inr r, s1)"
    and "be_rollback_attach B (ar_created r) s1 = (Inr u, s2)"
  shows "set (be_attachments B s2) = set (be_attachments B s)"
proof -
  have "inv s1" using attach_inv [OF assms(1)] assms(2) by (metis snd_conv)
  then show ?thesis
    using attach_ok [OF assms(1,2)] rollback_ok [OF _ assms(3)] by auto
qed

end

text \<open>What it relies on for flows: enumeration is complete and lists each flow once, and a
  deletion removes the requested generation and nothing else, only if the flow is still as it
  was observed.\<close>

locale flow_backend =
  fixes B :: "'s backend" and inv :: "'s \<Rightarrow> bool"
    and flow :: "'s \<Rightarrow> u64 \<times> u32 \<Rightarrow> flow_state option"
  assumes list_ok: "inv s \<Longrightarrow> be_list_flow_states B s = (Inr fs, s') \<Longrightarrow>
      s' = s \<and> distinct (map flow_key fs)
      \<and> (\<forall>f. f \<in> set fs \<longleftrightarrow> flow s (flow_key f) = Some f)"
    and flow_keyed: "inv s \<Longrightarrow> flow s k = Some f \<Longrightarrow> k = flow_key f"
    and delete_inv: "inv s \<Longrightarrow> inv (snd (be_delete_flow B i g ob d s))"
    and delete_ok: "inv s \<Longrightarrow> be_delete_flow B i g ob d s = (Inr r, s') \<Longrightarrow>
      flow s' = (if cr_state_deleted r then (flow s)((i, g) := None) else flow s)"
    and delete_error: "inv s \<Longrightarrow> be_delete_flow B i g ob d s = (Inl e, s') \<Longrightarrow> flow s' = flow s"
    and delete_observed: "inv s \<Longrightarrow> be_delete_flow B i g ob d s = (Inr r, s') \<Longrightarrow>
      cr_state_deleted r \<Longrightarrow>
      \<exists>f. flow s (i, g) = Some f \<and> (ob = 0 \<or> fs_last_used_ns f = ob)"
begin

lemma deleted_not_listed:
  assumes "inv s" "be_delete_flow B i g ob d s = (Inr r, s1)" "cr_state_deleted r"
    and "be_list_flow_states B s1 = (Inr fs, s2)"
  shows "(i, g) \<notin> flow_key ` set fs"
proof -
  have "inv s1" using delete_inv [OF assms(1)] assms(2) by (metis snd_conv)
  moreover have "flow s1 (i, g) = None"
    using delete_ok [OF assms(1,2)] assms(3) by simp
  ultimately show ?thesis using list_ok [OF _ assms(4)] by auto
qed

lemma listed_keys:
  assumes "inv s" "be_list_flow_states B s = (Inr fs, s')"
  shows "flow_key ` set fs = {k. flow s k \<noteq> None}"
proof (intro equalityI subsetI)
  fix k assume "k \<in> flow_key ` set fs"
  then show "k \<in> {k. flow s k \<noteq> None}" using list_ok [OF assms] by auto
next
  fix k assume "k \<in> {k. flow s k \<noteq> None}"
  then obtain f where f: "flow s k = Some f" by auto
  then have "k = flow_key f" by (rule flow_keyed [OF assms(1)])
  then show "k \<in> flow_key ` set fs" using f list_ok [OF assms] by auto
qed

lemma others_kept:
  assumes "inv s" "be_delete_flow B i g ob d s = (r, s1)" "k \<noteq> (i, g)"
  shows "flow s1 k = flow s k"
  using delete_ok [OF assms(1)] delete_error [OF assms(1)] assms(2,3)
  by (cases r) (auto split: if_splits)

end

section \<open>The in-memory backend implements both\<close>

lemma set_push_missing: "set (push_missing as links) = set links \<union> set as"
  by (induction as links rule: push_missing.induct) auto

lemma distinct_push_missing: "distinct links \<Longrightarrow> distinct (push_missing as links)"
  by (induction as links rule: push_missing.induct) auto

lemma set_rollback_fold:
  "set (foldl (\<lambda>links a. filter (\<lambda>c. c \<noteq> a) links) links as) = set links - set as"
  by (induction as arbitrary: links) auto

interpretation memory_links: link_backend memory_backend "\<lambda>_. True"
  by unfold_locales
     (auto simp: memory_backend_def memory_attach_def memory_rollback_attach_def
       memory_set_runtime_config_def Let_def set_push_missing set_rollback_fold
       split: option.splits)

lemma memory_flow_simps [simp]:
  "memory_flow (s\<lparr>ms_pending_releases := p\<rparr>) = memory_flow s"
  "memory_flow (s\<lparr>ms_published_releases := n\<rparr>) = memory_flow s"
  "memory_flow (s\<lparr>ms_flow_indexes := x\<rparr>) = memory_flow s"
  by (simp_all add: memory_flow_def fun_eq_iff)

lemma memory_inv_default [simp]: "memory_inv memory_default"
  by (simp add: memory_inv_def memory_default_def memory_flow_def)

lemma memory_inv_insert_flow:
  assumes "memory_inv s"
  shows "memory_inv (insert_flow_state f s)"
  using assms by (auto simp: memory_inv_def insert_flow_state_def memory_flow_def Let_def flow_key_def)

lemma memory_release_journal_flow:
  "memory_inv s \<Longrightarrow> memory_release_journal k s = (r, s') \<Longrightarrow>
   memory_inv s' \<and> memory_flow s' = memory_flow s \<and> (\<forall>c. r = Inr c \<longrightarrow> \<not> cr_state_deleted c)"
  by (auto simp: memory_release_journal_def memory_inv_def memory_flow_def cleanup_default_def
      fun_eq_iff split: if_splits)

lemma memory_delete_flow_deleted:
  assumes "memory_flow s (i, g) = Some f" "\<not> ms_abort_delete_guard s"
    and "ob = 0 \<or> fs_last_used_ns f = ob"
  shows "memory_delete_flow i g ob d s =
     (let v = \<lparr>fi_flow_id = i, fi_generation = g\<rparr>;
          indexes = bt_retain (\<lambda>_ w. w \<noteq> v) (ms_flow_indexes s);
          failed = ms_fail_release_publication s;
          pending = bt_insert (i, g) () (ms_pending_releases s)
      in (Inr \<lparr>cr_state_deleted = True,
               cr_indexes_deleted = length (ms_flow_indexes s) - length indexes,
               cr_partial = failed, cr_stale_generation = False, cr_observation_mismatch = False\<rparr>,
          s\<lparr>ms_flow_states := bt_remove (i, g) (ms_flow_states s), ms_flow_indexes := indexes,
            ms_pending_releases := (if failed then pending else bt_remove (i, g) pending),
            ms_published_releases := ms_published_releases s + (if failed then 0 else 1)\<rparr>))"
  using assms by (auto simp: memory_delete_flow_def memory_flow_def Let_def)

lemma memory_delete_flow_refused:
  assumes "memory_flow s (i, g) = Some f"
    and "ms_abort_delete_guard s \<or> ob \<noteq> 0 \<and> fs_last_used_ns f \<noteq> ob"
  shows "memory_delete_flow i g ob d s = (Inr (cleanup_default\<lparr>cr_observation_mismatch := True\<rparr>), s)"
  using assms by (auto simp: memory_delete_flow_def memory_flow_def)

lemma memory_delete_flow_absent:
  "memory_flow s (i, g) = None \<Longrightarrow>
   memory_delete_flow i g ob d s = memory_release_journal (i, g) s"
  by (simp add: memory_delete_flow_def memory_flow_def)

lemma memory_delete_flow_exhaust:
  obtains (absent) "memory_flow s (i, g) = None"
  | (refused) f where "memory_flow s (i, g) = Some f"
      "ms_abort_delete_guard s \<or> ob \<noteq> 0 \<and> fs_last_used_ns f \<noteq> ob"
  | (deleted) f where "memory_flow s (i, g) = Some f" "\<not> ms_abort_delete_guard s"
      "ob = 0 \<or> fs_last_used_ns f = ob"
  by (cases "memory_flow s (i, g)") auto

lemma memory_remove_flow_inv:
  assumes "memory_inv s" "bt_inv pending"
  shows "memory_inv (s\<lparr>ms_flow_states := bt_remove (i, g) (ms_flow_states s),
      ms_flow_indexes := bt_retain (\<lambda>_ w. w \<noteq> \<lparr>fi_flow_id = i, fi_generation = g\<rparr>) (ms_flow_indexes s),
      ms_pending_releases := pending, ms_published_releases := n\<rparr>)"
  using assms by (auto simp: memory_inv_def memory_flow_def split: option.splits if_splits)

lemma memory_delete_flow_inv:
  assumes "memory_inv s"
  shows "memory_inv (snd (memory_delete_flow i g ob d s))"
proof (cases rule: memory_delete_flow_exhaust
    [where s = s and i = i and g = g and ob = ob])
  case absent
  then show ?thesis
    using memory_release_journal_flow [OF assms, of "(i, g)"]
    by (metis memory_delete_flow_absent prod.collapse)
next
  case refused
  then show ?thesis using assms by (simp add: memory_delete_flow_refused)
next
  case deleted
  have "bt_inv (ms_pending_releases s)" using assms by (simp add: memory_inv_def)
  then show ?thesis
    using memory_remove_flow_inv [OF assms]
    by (simp add: memory_delete_flow_deleted [OF deleted] Let_def)
qed

lemma memory_delete_flow_total: "\<exists>c s'. memory_delete_flow i g ob d s = (Inr c, s')"
  by (auto simp: memory_delete_flow_def memory_release_journal_def Let_def split: option.splits)

lemma memory_delete_flow_effect:
  assumes "memory_delete_flow i g ob d s = (Inr c, s')"
  shows "cr_state_deleted c \<longleftrightarrow> (\<exists>f. memory_flow s (i, g) = Some f
           \<and> \<not> ms_abort_delete_guard s \<and> (ob = 0 \<or> fs_last_used_ns f = ob))" (is ?deleted)
    and "memory_flow s' = (if cr_state_deleted c then (memory_flow s)((i, g) := None)
                           else memory_flow s)" (is ?flows)
    and "ms_flow_indexes s' = (if cr_state_deleted c
           then bt_retain (\<lambda>_ w. w \<noteq> \<lparr>fi_flow_id = i, fi_generation = g\<rparr>) (ms_flow_indexes s)
           else ms_flow_indexes s)" (is ?indexes)
    and "cr_indexes_deleted c = length (ms_flow_indexes s) - length (ms_flow_indexes s')" (is ?count)
proof -
  have "?deleted \<and> ?flows \<and> ?indexes \<and> ?count"
  proof (cases rule: memory_delete_flow_exhaust
      [where s = s and i = i and g = g and ob = ob])
    case absent
    then have "memory_release_journal (i, g) s = (Inr c, s')"
      using assms by (simp add: memory_delete_flow_absent)
    then have "\<not> cr_state_deleted c" "memory_flow s' = memory_flow s"
      "ms_flow_indexes s' = ms_flow_indexes s" "cr_indexes_deleted c = 0"
      by (auto simp: memory_release_journal_def cleanup_default_def split: if_splits)
    then show ?thesis using absent by simp
  next
    case refused
    then show ?thesis
      using assms by (auto simp: memory_delete_flow_refused cleanup_default_def)
  next
    case deleted
    let ?v = "\<lparr>fi_flow_id = i, fi_generation = g\<rparr>"
    have "cr_state_deleted c" "ms_flow_states s' = bt_remove (i, g) (ms_flow_states s)"
      "ms_flow_indexes s' = bt_retain (\<lambda>_ w. w \<noteq> ?v) (ms_flow_indexes s)"
      "cr_indexes_deleted c = length (ms_flow_indexes s) - length (ms_flow_indexes s')"
      using assms by (auto simp: memory_delete_flow_deleted [OF deleted] Let_def)
    then show ?thesis
      using deleted by (auto simp: memory_flow_def fun_eq_iff)
  qed
  then show ?deleted ?flows ?indexes ?count by blast+
qed

interpretation memory_flows: flow_backend memory_backend memory_inv memory_flow
proof (unfold_locales, goal_cases)
  case (1 s fs s')
  then have fs: "fs = bt_values (ms_flow_states s)" "s' = s"
    by (auto simp: memory_backend_def memory_list_flow_states_def split: if_splits)
  have inv: "bt_inv (ms_flow_states s)"
    and key: "\<And>k f. (k, f) \<in> set (ms_flow_states s) \<Longrightarrow> k = flow_key f"
    using 1(1) by (auto simp: memory_inv_def memory_flow_def bt_get_mem)
  have "map flow_key fs = map fst (ms_flow_states s)"
    using key by (auto simp: fs bt_values_def)
  moreover have "f \<in> set fs \<longleftrightarrow> memory_flow s (flow_key f) = Some f" for f
    unfolding fs(1) bt_values_mem [OF inv] memory_flow_def
    using key bt_get_mem [OF inv] by metis
  ultimately show ?case
    using fs(2) bt_inv_distinct [OF inv] by simp
next
  case (2 s k f)
  then show ?case by (cases k) (simp add: memory_inv_def)
next
  case (3 s i g ob d)
  then show ?case by (simp add: memory_backend_def memory_delete_flow_inv)
next
  case (4 s i g ob d r s')
  then show ?case
    using memory_delete_flow_effect(2) [of i g ob d s r s'] by (simp add: memory_backend_def)
next
  case (5 s i g ob d e s')
  then show ?case
    using memory_delete_flow_total [of i g ob d s] by (auto simp: memory_backend_def)
next
  case (6 s i g ob d r s')
  then show ?case
    using memory_delete_flow_effect(1) [of i g ob d s r s'] by (auto simp: memory_backend_def)
qed

section \<open>The release journal\<close>

lemma journal_step:
  assumes "journal_inv s" "memory_delete_flow i g ob d s = (Inr c, s')"
  shows "journal_inv s' \<and> releases s' = releases s + (if cr_state_deleted c then 1 else 0)"
proof (cases rule: memory_delete_flow_exhaust [where s = s and i = i and g = g and ob = ob])
  case absent
  let ?p = "ms_pending_releases s"
  have inv: "memory_inv s" "bt_inv ?p" using assms(1) by (auto simp: journal_inv_def memory_inv_def)
  have j: "memory_release_journal (i, g) s = (Inr c, s')"
    using absent assms(2) by (simp add: memory_delete_flow_absent)
  then have s': "memory_inv s'" "memory_flow s' = memory_flow s" "\<not> cr_state_deleted c"
    using memory_release_journal_flow [OF inv(1)] by auto
  have "s' = s \<or> bt_get (i, g) ?p \<noteq> None
      \<and> s' = s\<lparr>ms_pending_releases := bt_remove (i, g) ?p,
               ms_published_releases := ms_published_releases s + 1\<rparr>"
    using j by (auto simp: memory_release_journal_def split: if_splits)
  then show ?thesis
    using s' assms(1) length_bt_remove [OF inv(2), of "(i, g)"]
    by (auto simp: journal_inv_def releases_def split: if_splits)
next
  case refused
  then show ?thesis using assms by (auto simp: memory_delete_flow_refused cleanup_default_def)
next
  case deleted
  let ?p = "ms_pending_releases s"
  have inv: "memory_inv s" "bt_inv ?p" using assms(1) by (auto simp: journal_inv_def memory_inv_def)
  have new: "bt_get (i, g) ?p = None" using deleted(1) assms(1)
    unfolding journal_inv_def by (metis option.distinct(1))
  have "memory_inv s'" using memory_delete_flow_inv [OF inv(1)] assms(2) by (metis snd_conv)
  moreover have "memory_flow s' = (memory_flow s)((i, g) := None)" "cr_state_deleted c"
    using memory_delete_flow_effect [OF assms(2)] deleted by auto
  moreover have "ms_pending_releases s' =
      (if ms_fail_release_publication s then bt_insert (i, g) () ?p else ?p)"
    "ms_published_releases s' =
      ms_published_releases s + (if ms_fail_release_publication s then 0 else 1)"
    using assms(2) bt_remove_insert [OF inv(2)] bt_remove_absent [OF new]
    by (auto simp: memory_delete_flow_deleted [OF deleted] Let_def)
  ultimately show ?thesis
    using assms(1) new by (auto simp: journal_inv_def releases_def length_bt_insert)
qed

lemma journal_channel [simp]:
  "journal_inv (set_release_publication_failure x s) = journal_inv s"
  "releases (set_release_publication_failure x s) = releases s"
  by (simp_all add: set_release_publication_failure_def journal_inv_def memory_inv_def
      memory_flow_def releases_def)

lemma insert_flow_frame [simp]:
  "ms_entries (insert_flow_state f s) = ms_entries s"
  "ms_pending_releases (insert_flow_state f s) = ms_pending_releases s"
  "ms_published_releases (insert_flow_state f s) = ms_published_releases s"
  "ms_fail_release_publication (insert_flow_state f s) = ms_fail_release_publication s"
  "ms_abort_delete_guard (insert_flow_state f s) = ms_abort_delete_guard s"
  "ms_flow_mode (insert_flow_state f s)"
  by (simp_all add: insert_flow_state_def Let_def)

lemma memory_default_simps [simp]:
  "ms_entries memory_default = []" "ms_pending_releases memory_default = []"
  "ms_published_releases memory_default = 0" "\<not> ms_abort_delete_guard memory_default"
  "\<not> ms_fail_release_publication memory_default"
  by (simp_all add: memory_default_def)

lemma memory_flow_insert:
  "memory_flow (insert_flow_state f s) = (memory_flow s)(flow_key f \<mapsto> f)"
  by (auto simp: memory_flow_def insert_flow_state_def Let_def flow_key_def fun_eq_iff)

lemma insert_flow_indexes:
  assumes "t \<in> {fs_original f, fs_target f, fs_reverse f}"
  shows "bt_get (encode_key t) (ms_flow_indexes (insert_flow_state f s)) =
           Some \<lparr>fi_flow_id = fs_flow_id f, fi_generation = fs_generation f\<rparr>"
  using assms by (auto simp: insert_flow_state_def Let_def)

section \<open>Properties\<close>

text \<open>C2: a deletion removes the flow exactly when the requested generation exists, no guard
  aborts and the flow was not used since it was observed. It then removes every index that
  carries that identity and nothing else: other flows, and indexes of other flows or of other
  generations of the same flow, stay. Otherwise flows and indexes are untouched. The store
  stays well formed: no index ever refers to a missing flow.\<close>

theorem flow_deletion:
  assumes "memory_inv s" "memory_delete_flow i g ob d s = (Inr c, s')"
  shows "(cr_state_deleted c \<longleftrightarrow> (\<exists>f. memory_flow s (i, g) = Some f
            \<and> \<not> ms_abort_delete_guard s \<and> (ob = 0 \<or> fs_last_used_ns f = ob)))
    \<and> memory_flow s' = (if cr_state_deleted c then (memory_flow s)((i, g) := None) else memory_flow s)
    \<and> (\<forall>key. bt_get key (ms_flow_indexes s') =
         (case bt_get key (ms_flow_indexes s) of
            None \<Rightarrow> None
          | Some v \<Rightarrow> if cr_state_deleted c \<and> fi_flow_id v = i \<and> fi_generation v = g then None
                      else Some v))
    \<and> memory_inv s'"
proof -
  have "bt_inv (ms_flow_indexes s)" using assms(1) by (simp add: memory_inv_def)
  moreover have "memory_inv s'"
    using memory_delete_flow_inv [OF assms(1)] assms(2) by (metis snd_conv)
  ultimately show ?thesis
    using memory_delete_flow_effect [OF assms(2)]
    by (auto split: option.split)
qed

theorem flow_deletion_witness:
  "\<exists>c s'. memory_delete_flow 7 1 0 0 (insert_flow_state sample_flow memory_default) = (Inr c, s')
     \<and> cr_state_deleted c \<and> memory_flow s' (7, 1) = None"
proof -
  let ?s = "insert_flow_state sample_flow memory_default"
  obtain c s' where d: "memory_delete_flow 7 1 0 0 ?s = (Inr c, s')"
    using memory_delete_flow_total by blast
  have "memory_flow ?s (7, 1) = Some sample_flow" "\<not> ms_abort_delete_guard ?s"
    by (simp_all add: memory_flow_insert flow_key_def sample_flow_def)
  then show ?thesis
    using flow_deletion [OF memory_inv_insert_flow [OF memory_inv_default] d] d by auto
qed

text \<open>C26: whatever cleanup requests are made, in whatever order and however often the release
  channel fails and recovers, the capacity releases published plus those still journaled
  are exactly the flows deleted: no deletion is released twice and none is forgotten.\<close>

theorem release_accounting:
  assumes "journal_inv s" "run_cleanups ops s = (rs, s')"
  shows "journal_inv s' \<and> releases s' = releases s + deletions rs"
  using assms
proof (induction ops arbitrary: s rs)
  case (Cons op ops)
  show ?case
  proof (cases op)
    case (Delete i g ob d)
    obtain c s1 where 1: "memory_delete_flow i g ob d s = (Inr c, s1)"
      using memory_delete_flow_total by blast
    obtain rs1 where rs1: "run_cleanups ops s1 = (rs1, s')" "rs = Inr c # rs1"
      using Cons.prems(2) Delete 1 by (auto split: prod.splits)
    show ?thesis
      using Cons.IH [OF _ rs1(1)] journal_step [OF Cons.prems(1) 1] rs1(2)
      by (simp add: deletions_def)
  next
    case (Channel failure)
    then show ?thesis
      using Cons.IH [of "set_release_publication_failure failure s"] Cons.prems by simp
  qed
qed (simp add: deletions_def)

theorem release_accounting_witness:
  "\<exists>rs s'. run_cleanups [Channel True, Delete 7 1 0 0, Delete 7 1 0 0, Channel False, Delete 7 1 0 0]
      (memory_default\<lparr>ms_flow_states := [((7, 1), sample_flow)]\<rparr>) = (rs, s')
     \<and> releases s' = deletions rs"
proof -
  let ?s = "memory_default\<lparr>ms_flow_states := [((7, 1), sample_flow)]\<rparr>"
  let ?ops = "[Channel True, Delete 7 1 0 0, Delete 7 1 0 0, Channel False, Delete 7 1 0 0]"
  obtain rs s' where r: "run_cleanups ?ops ?s = (rs, s')" by fastforce
  have "journal_inv ?s" "releases ?s = 0"
    by (simp_all add: journal_inv_def memory_inv_def memory_flow_def bt_inv_def bt_get_def
        memory_default_def flow_key_def sample_flow_def releases_def)
  then show ?thesis
    using release_accounting [OF _ r] r by simp
qed

text \<open>a flow that has been inserted is found under its original, target and reverse
  tuple: the lookup returns the mapping from the synthetic to the original tuple of that very
  flow, unless an older entry of the plain mapping table has the same key.\<close>

theorem inserted_flow_lookup:
  assumes "t \<in> {fs_original f, fs_target f, fs_reverse f}"
    and "bt_get (encode_key t) (ms_entries s) = None"
  shows "memory_get_entry (encode_key t) (insert_flow_state f s) =
    (Inr (Some (encode_value (flow_state_mapping f))), insert_flow_state f s)"
proof -
  have "bt_get (fs_flow_id f, fs_generation f) (ms_flow_states (insert_flow_state f s)) = Some f"
    by (simp add: insert_flow_state_def Let_def)
  then show ?thesis
    using assms insert_flow_indexes [OF assms(1), of s] by (simp add: memory_get_entry_def)
qed

theorem inserted_flow_lookup_witness:
  "memory_get_entry (encode_key (sample_tuple 15001)) (insert_flow_state sample_flow memory_default) =
    (Inr (Some (encode_value (flow_state_mapping sample_flow))),
     insert_flow_state sample_flow memory_default)"
  by (rule inserted_flow_lookup) (simp_all add: sample_flow_def)

text \<open>attaching is transactional in the in-memory backend: an attach that fails leaves the
  links as they were, and rolling back the links an attach reports as created restores
  exactly the links that were there before, including those it found already attached.\<close>

theorem memory_attach_transaction:
  assumes "memory_attach elf ifs s = (r, s1)"
  shows "case r of
      Inl e \<Rightarrow> ms_attachments s1 = ms_attachments s
    | Inr rep \<Rightarrow> set (ms_attachments s1) = set (ms_attachments s) \<union> set (required_links ifs)
        \<and> set (ms_attachments (snd (memory_rollback_attach (ar_created rep) s1))) =
            set (ms_attachments s)"
proof (cases r)
  case (Inl e)
  then show ?thesis
    using assms by (auto simp: memory_attach_def Let_def split: option.splits)
next
  case (Inr rep)
  have a: "be_attach memory_backend elf ifs s = (Inr rep, s1)"
    using assms Inr by (simp add: memory_backend_def)
  have b: "be_rollback_attach memory_backend (ar_created rep) s1 =
      (Inr (), snd (memory_rollback_attach (ar_created rep) s1))"
    by (simp add: memory_backend_def memory_rollback_attach_def)
  have "ar_attachments rep = required_links ifs"
    using assms Inr by (auto simp: memory_attach_def Let_def split: option.splits)
  then show ?thesis
    using memory_links.attach_ok [OF TrueI a] memory_links.attach_rollback [OF TrueI a b] Inr
    by (simp add: memory_backend_def)
qed

theorem memory_attach_transaction_witness:
  "set (ms_attachments (snd (memory_attach ''/x.o'' [''eth0''] memory_default))) =
     set (required_links [''eth0''])"
proof -
  have "is_ok (fst (memory_attach ''/x.o'' [''eth0''] memory_default))"
    by (simp add: memory_attach_def memory_default_def required_links_def Let_def)
  then show ?thesis
    using memory_attach_transaction [OF surjective_pairing, of "''/x.o''" "[''eth0'']" memory_default]
    by (auto simp: is_ok_iff memory_default_def)
qed

end
