(* ===== verification/Linux_Backend.thy ===== *)
theory Linux_Backend
  imports Backend
begin

text \<open>
  \<open>LinuxTcAdapter\<close>, \<open>UnsupportedLinuxTcAdapter\<close> and \<open>LinuxBpfBackend\<close> of
  \<open>crates/control-service/src/bpf.rs\<close>: the production backend that coordinates links
  through an adapter. The adapter is a record of its methods over its own state \<open>'a\<close>; the
  operation lock serialises the mutating calls, so each call is one atomic transition. Whether
  the ELF file exists is a question to the file system, a parameter of \<open>attach\<close>.

  The locale \<open>tc_adapter\<close> states what an adapter keeps of its own link list; in it the
  production backend is shown to implement the link contract of \<open>Backend\<close>.
\<close>

section \<open>Model\<close>

record 'a adapter =
  ad_load_elf :: "string \<Rightarrow> u16 \<Rightarrow> ('a, unit) action"
  ad_attach :: "string \<Rightarrow> direction \<Rightarrow> ('a, unit) action"
  ad_detach :: "string \<Rightarrow> direction \<Rightarrow> ('a, unit) action"
  ad_list_entries :: "('a, (bytes \<times> bytes) list) action"
  ad_get_entry :: "bytes \<Rightarrow> ('a, bytes option) action"
  ad_delete_entry :: "bytes \<Rightarrow> ('a, bool) action"
  ad_list_flow_states :: "('a, flow_state list) action"
  ad_delete_flow :: "u64 \<Rightarrow> u32 \<Rightarrow> u64 \<Rightarrow> u64 \<Rightarrow> ('a, flow_cleanup_report) action"
  ad_set_runtime_config :: "runtime_config \<Rightarrow> ('a, unit) action"
  ad_read_counters :: "('a, bpf_counters) action"
  ad_map_maxima :: "'a \<Rightarrow> map_maxima"

definition unsupported_adapter :: "'a adapter" where
  "unsupported_adapter =
     \<lparr>ad_load_elf = (\<lambda>_ _. unsupported), ad_attach = (\<lambda>_ _. unsupported),
      ad_detach = (\<lambda>_ _. unsupported), ad_list_entries = unsupported,
      ad_get_entry = (\<lambda>_. unsupported), ad_delete_entry = (\<lambda>_. unsupported),
      ad_list_flow_states = unsupported, ad_delete_flow = (\<lambda>_ _ _ _. unsupported),
      ad_set_runtime_config = (\<lambda>_. unsupported), ad_read_counters = unsupported,
      ad_map_maxima = (\<lambda>_. map_maxima_default)\<rparr>"

record 'a linux_state =
  lx_adapter :: 'a
  lx_attachments :: "attachment list"

definition with_adapter :: "'a \<Rightarrow> 'a linux_state" where
  "with_adapter a = \<lparr>lx_adapter = a, lx_attachments = []\<rparr>"

definition on_adapter :: "('a, 'r) action \<Rightarrow> ('a linux_state, 'r) action" where
  "on_adapter f s = (let (r, a) = f (lx_adapter s) in (r, s\<lparr>lx_adapter := a\<rparr>))"

text \<open>The loop over links shared by \<open>detach\<close>, \<open>rollback_attach\<close> and the rollback inside
  \<open>attach\<close>: the rendered failures and the links that were detached, in order.\<close>

fun detach_each ::
    "'a adapter \<Rightarrow> attachment list \<Rightarrow> 'a \<Rightarrow> string list \<times> attachment list \<times> 'a" where
  "detach_each A [] a = ([], [], a)"
| "detach_each A (l # ls) a =
     (case ad_detach A (at_interface l) (at_direction l) a of
        (Inl e, a) \<Rightarrow>
          let (failures, detached, a) = detach_each A ls a
          in ((link_name (at_interface l) (at_direction l) @ '': '' @ backend_error_message e)
                # failures, detached, a)
      | (Inr _, a) \<Rightarrow>
          let (failures, detached, a) = detach_each A ls a in (failures, l # detached, a))"

fun attach_each ::
    "'a adapter \<Rightarrow> attachment list \<Rightarrow> attachment list \<Rightarrow> attachment list
       \<Rightarrow> ('a, attachment list) action" where
  "attach_each A owned [] created a = (Inr created, a)"
| "attach_each A owned (l # ls) created a =
     (if l \<in> set owned then attach_each A owned ls created a
      else case ad_attach A (at_interface l) (at_direction l) a of
        (Inl e, a) \<Rightarrow>
          let (failures, detached, a) = detach_each A created a;
              rollback = (if failures = [] then ''transaction rolled back''
                          else ''transaction rollback incomplete: '' @ join ''; '' failures)
          in (Inl (Operation (link_name (at_interface l) (at_direction l))
                     (backend_error_message e @ '' ('' @ rollback @ '')'')), a)
      | (Inr _, a) \<Rightarrow> attach_each A owned ls (created @ [l]) a)"

definition linux_attach ::
    "(string \<Rightarrow> bool) \<Rightarrow> 'a adapter \<Rightarrow> string \<Rightarrow> string list \<Rightarrow> ('a linux_state, attach_report) action"
  where
  "linux_attach exists A elf interfaces s =
     (if \<not> exists elf then (Inl (MissingElf elf), s)
      else if interfaces = [] then (Inl (InvalidInterface ''no interfaces supplied''), s)
      else case List.find (\<lambda>i. i = [] \<or> length i > 15) interfaces of
        Some i \<Rightarrow> (Inl (InvalidInterface i), s)
      | None \<Rightarrow>
          (case ad_load_elf A elf PROGRAM_ABI_VERSION (lx_adapter s) of
             (Inl e, a) \<Rightarrow> (Inl e, s\<lparr>lx_adapter := a\<rparr>)
           | (Inr _, a) \<Rightarrow>
               (case attach_each A (lx_attachments s) (required_links interfaces) [] a of
                  (Inl e, a) \<Rightarrow> (Inl e, s\<lparr>lx_adapter := a\<rparr>)
                | (Inr created, a) \<Rightarrow>
                    let s = s\<lparr>lx_adapter := a, lx_attachments := lx_attachments s @ created\<rparr>
                    in (Inr \<lparr>ar_attachments = lx_attachments s, ar_created = created,
                             ar_maxima = ad_map_maxima A a\<rparr>, s))))"

definition linux_detach ::
    "'a adapter \<Rightarrow> string list option \<Rightarrow> ('a linux_state, unit) action" where
  "linux_detach A interfaces s =
     (let selected = filter (\<lambda>l. case interfaces of
                                   None \<Rightarrow> True
                                 | Some items \<Rightarrow> at_interface l \<in> set items) (lx_attachments s);
          (failures, detached, a) = detach_each A selected (lx_adapter s);
          s = s\<lparr>lx_adapter := a,
                lx_attachments := filter (\<lambda>l. l \<notin> set detached) (lx_attachments s)\<rparr>
      in if failures \<noteq> [] then (Inl (Operation ''detach'' (join ''; '' failures)), s)
         else (Inr (), s))"

definition linux_rollback_attach ::
    "'a adapter \<Rightarrow> attachment list \<Rightarrow> ('a linux_state, unit) action" where
  "linux_rollback_attach A attachments s =
     (let (failures, detached, a) = detach_each A attachments (lx_adapter s);
          s = s\<lparr>lx_adapter := a,
                lx_attachments := filter (\<lambda>l. l \<notin> set detached) (lx_attachments s)\<rparr>
      in if failures = [] then (Inr (), s)
         else (Inl (Operation ''attach-rollback'' (join ''; '' failures)), s))"

definition linux_backend :: "(string \<Rightarrow> bool) \<Rightarrow> 'a adapter \<Rightarrow> 'a linux_state backend" where
  "linux_backend exists A =
     \<lparr>be_attach = linux_attach exists A, be_detach = linux_detach A,
      be_rollback_attach = linux_rollback_attach A,
      be_list_entries = on_adapter (ad_list_entries A),
      be_get_entry = (\<lambda>key. on_adapter (ad_get_entry A key)),
      be_delete_entry = (\<lambda>key. on_adapter (ad_delete_entry A key)),
      be_list_flow_states = on_adapter (ad_list_flow_states A),
      be_delete_flow = (\<lambda>i g ob d. on_adapter (ad_delete_flow A i g ob d)),
      be_set_runtime_config = (\<lambda>c. on_adapter (ad_set_runtime_config A c)),
      be_read_counters = unsupported,
      be_map_maxima = (\<lambda>s. ad_map_maxima A (lx_adapter s)),
      be_attachments = lx_attachments\<rparr>"

definition rollback_incomplete :: "backend_error \<Rightarrow> bool" where
  "rollback_incomplete e \<longleftrightarrow>
     (\<exists>location m failures. failures \<noteq> []
        \<and> e = Operation location (m @ '' ('' @ (''transaction rollback incomplete: ''
                @ join ''; '' failures) @ '')''))"

section \<open>The adapter contract\<close>

lemma linux_attach_error_cases:
  "linux_attach ex A elf ifs s = (Inl e, s') \<Longrightarrow>
   s' = s
   \<or> (\<exists>a1. ad_load_elf A elf PROGRAM_ABI_VERSION (lx_adapter s) = (Inl e, a1)
        \<and> s' = s\<lparr>lx_adapter := a1\<rparr>)
   \<or> (\<exists>u a1 a2. ad_load_elf A elf PROGRAM_ABI_VERSION (lx_adapter s) = (Inr u, a1)
        \<and> attach_each A (lx_attachments s) (required_links ifs) [] a1 = (Inl e, a2)
        \<and> s' = s\<lparr>lx_adapter := a2\<rparr>)"
  by (auto simp: linux_attach_def Let_def split: if_splits option.splits prod.splits sum.splits)

lemma linux_attach_ok_cases:
  "linux_attach ex A elf ifs s = (Inr r, s') \<Longrightarrow>
   \<exists>u a1 a2 created. ad_load_elf A elf PROGRAM_ABI_VERSION (lx_adapter s) = (Inr u, a1)
     \<and> attach_each A (lx_attachments s) (required_links ifs) [] a1 = (Inr created, a2)
     \<and> s' = s\<lparr>lx_adapter := a2, lx_attachments := lx_attachments s @ created\<rparr>
     \<and> r = \<lparr>ar_attachments = lx_attachments s @ created, ar_created = created,
            ar_maxima = ad_map_maxima A a2\<rparr>"
  by (auto simp: linux_attach_def Let_def split: if_splits option.splits prod.splits sum.splits)

lemma attachment_eta [simp]: "\<lparr>at_interface = at_interface l, at_direction = at_direction l\<rparr> = l"
  by simp

lemma detach_each_subset: "detach_each A ls a = (failures, detached, a') \<Longrightarrow> set detached \<subseteq> set ls"
  by (induction ls arbitrary: a failures detached)
     (simp, fastforce split: prod.splits sum.splits)

lemma detach_each_complete: "detach_each A ls a = ([], detached, a') \<Longrightarrow> detached = ls"
  by (induction ls arbitrary: a detached) (auto split: prod.splits sum.splits)

text \<open>What an adapter promises of the links it tracks. A failed detach may have dropped the
  link it was asked for, but touches no other.\<close>

locale tc_adapter =
  fixes A :: "'a adapter" and inv :: "'a \<Rightarrow> bool" and links :: "'a \<Rightarrow> attachment set"
  assumes load_inv: "inv a \<Longrightarrow> inv (snd (ad_load_elf A elf v a))"
    and load_links: "inv a \<Longrightarrow> links (snd (ad_load_elf A elf v a)) = links a"
    and attach_inv: "inv a \<Longrightarrow> inv (snd (ad_attach A i d a))"
    and attach_ok: "inv a \<Longrightarrow> ad_attach A i d a = (Inr u, a') \<Longrightarrow>
      links a' = insert \<lparr>at_interface = i, at_direction = d\<rparr> (links a)"
    and attach_error: "inv a \<Longrightarrow> ad_attach A i d a = (Inl e, a') \<Longrightarrow> links a' = links a"
    and detach_inv: "inv a \<Longrightarrow> inv (snd (ad_detach A i d a))"
    and detach_ok: "inv a \<Longrightarrow> ad_detach A i d a = (Inr u, a') \<Longrightarrow>
      links a' = links a - {\<lparr>at_interface = i, at_direction = d\<rparr>}"
    and detach_error: "inv a \<Longrightarrow> ad_detach A i d a = (Inl e, a') \<Longrightarrow>
      links a' \<subseteq> links a \<and> links a - {\<lparr>at_interface = i, at_direction = d\<rparr>} \<subseteq> links a'"
    and config_inv: "inv a \<Longrightarrow> inv (snd (ad_set_runtime_config A c a))"
begin

lemma attach_step: "inv a \<Longrightarrow> ad_attach A i d a = (r, a') \<Longrightarrow> inv a'"
  using attach_inv [of a i d] by simp

lemma detach_step: "inv a \<Longrightarrow> ad_detach A i d a = (r, a') \<Longrightarrow> inv a'"
  using detach_inv [of a i d] by simp

lemma load_step: "inv a \<Longrightarrow> ad_load_elf A elf v a = (r, a') \<Longrightarrow> inv a' \<and> links a' = links a"
  using load_inv [of a elf v] load_links [of a elf v] by simp

lemma detach_each_links:
  "detach_each A ls a = (failures, detached, a') \<Longrightarrow> inv a \<Longrightarrow>
   inv a' \<and> links a' \<subseteq> links a - set detached \<and> links a - set ls \<subseteq> links a'"
proof (induction ls arbitrary: a failures detached)
  case (Cons l ls)
  obtain r a1 where r: "ad_detach A (at_interface l) (at_direction l) a = (r, a1)" by fastforce
  obtain f1 d1 where d1: "detach_each A ls a1 = (f1, d1, a')"
    using Cons.prems r by (cases r) (auto split: prod.splits)
  note IH = Cons.IH [OF d1 detach_step [OF Cons.prems(2) r]]
  show ?case
  proof (cases r)
    case (Inl e)
    then have "detached = d1" using Cons.prems r d1 by simp
    then show ?thesis using IH detach_error [OF Cons.prems(2) r [unfolded Inl]] by auto
  next
    case (Inr u)
    then have "detached = l # d1" using Cons.prems r d1 by simp
    then show ?thesis using IH detach_ok [OF Cons.prems(2) r [unfolded Inr]] by auto
  qed
qed simp

lemma attach_each_links:
  "attach_each A owned ls created a = (Inr cs, a') \<Longrightarrow> inv a \<Longrightarrow>
   set cs = set created \<union> (set ls - set owned) \<and> links a' = links a \<union> (set ls - set owned)"
proof (induction ls arbitrary: created a)
  case (Cons l ls)
  show ?case
  proof (cases "l \<in> set owned")
    case False
    obtain u a1 where r: "ad_attach A (at_interface l) (at_direction l) a = (Inr u, a1)"
      and rest: "attach_each A owned ls (created @ [l]) a1 = (Inr cs, a')"
      using Cons.prems False by (auto split: prod.splits sum.splits)
    show ?thesis
      using Cons.IH [OF rest attach_step [OF Cons.prems(2) r]] attach_ok [OF Cons.prems(2) r] False
      by auto
  qed (use Cons in auto)
qed simp

lemma attach_each_inv: "inv a \<Longrightarrow> inv (snd (attach_each A owned ls created a))"
proof (induction ls arbitrary: created a)
  case (Cons l ls)
  obtain r a1 where r: "ad_attach A (at_interface l) (at_direction l) a = (r, a1)" by fastforce
  obtain fs ds a2 where d: "detach_each A created a1 = (fs, ds, a2)" using prod_cases3 by blast
  show ?case
    using Cons.IH [OF attach_step [OF Cons.prems r]] Cons.IH [OF Cons.prems]
      detach_each_links [OF d attach_step [OF Cons.prems r]] r d
    by (cases r) auto
qed simp

lemma attach_each_error:
  assumes "attach_each A owned ls created a = (Inl e, a')" "inv a"
    and "links a = L \<union> set created" "set created \<inter> L = {}" "L \<subseteq> set owned"
  shows "links a' = L \<or> rollback_incomplete e"
  using assms
proof (induction ls arbitrary: created a)
  case (Cons l ls)
  show ?case
  proof (cases "l \<in> set owned")
    case True
    then show ?thesis using Cons by simp
  next
    case False
    obtain r a1 where r: "ad_attach A (at_interface l) (at_direction l) a = (r, a1)" by fastforce
    note inv1 = attach_step [OF Cons.prems(2) r]
    show ?thesis
    proof (cases r)
      case (Inr u)
      have "attach_each A owned ls (created @ [l]) a1 = (Inl e, a')"
        using Cons.prems(1) False r Inr by simp
      moreover have "links a1 = L \<union> set (created @ [l])"
        using attach_ok [OF Cons.prems(2) r [unfolded Inr]] Cons.prems(3) by auto
      moreover have "set (created @ [l]) \<inter> L = {}"
        using Cons.prems(4,5) False by auto
      ultimately show ?thesis using Cons.IH inv1 Cons.prems(5) by blast
    next
      case (Inl e1)
      obtain fs ds where d: "detach_each A created a1 = (fs, ds, a')"
        using Cons.prems(1) False r Inl by (auto split: prod.splits)
      have a1: "links a1 = L \<union> set created"
        using attach_error [OF Cons.prems(2) r [unfolded Inl]] Cons.prems(3) by simp
      show ?thesis
      proof (cases "fs = []")
        case True
        then have "ds = created" using detach_each_complete [of A created a1 ds a'] d by simp
        then show ?thesis using detach_each_links [OF d inv1] a1 Cons.prems(4) by auto
      next
        case False
        then have "e = Operation (link_name (at_interface l) (at_direction l))
            (backend_error_message e1 @ '' ('' @ (''transaction rollback incomplete: ''
              @ join ''; '' fs) @ '')'')"
          using Cons.prems(1) \<open>l \<notin> set owned\<close> r Inl d by simp
        then show ?thesis
          using False unfolding rollback_incomplete_def by blast
      qed
    qed
  qed
qed simp

lemma linux_attach_restores:
  assumes "linux_attach ex A elf ifs s = (Inl e, s')" "inv (lx_adapter s)"
    and "links (lx_adapter s) \<subseteq> set (lx_attachments s)"
  shows "lx_attachments s' = lx_attachments s
    \<and> (links (lx_adapter s') = links (lx_adapter s) \<or> rollback_incomplete e)"
proof -
  from linux_attach_error_cases [OF assms(1)] show ?thesis
  proof (elim disjE exE conjE, goal_cases)
    case (2 a1)
    then show ?case using load_step [OF assms(2)] by simp
  next
    case (3 u a1 a2)
    then show ?case
      using attach_each_error [OF 3(2), of "links (lx_adapter s)"] load_step [OF assms(2) 3(1)]
        assms(3) by simp
  qed simp
qed

lemma linux_attach_coherent:
  assumes "linux_attach ex A elf ifs s = (Inr r, s')" "inv (lx_adapter s)"
    and "links (lx_adapter s) = set (lx_attachments s)"
  shows "links (lx_adapter s') = set (lx_attachments s')
    \<and> set (lx_attachments s') = set (lx_attachments s) \<union> set (required_links ifs)"
  using linux_attach_ok_cases [OF assms(1)]
proof (elim exE conjE, goal_cases)
  case (1 u a1 a2 created)
  then show ?case
    using attach_each_links [OF 1(2)] load_step [OF assms(2) 1(1)] assms(3) by auto
qed

lemma linux_detach_links:
  assumes "linux_detach A ifs s = (r, s')" "inv (lx_adapter s)"
  defines "selected \<equiv> {l \<in> set (lx_attachments s).
      case ifs of None \<Rightarrow> True | Some items \<Rightarrow> at_interface l \<in> set items}"
  shows "set (lx_attachments s) - selected \<subseteq> set (lx_attachments s')"
    and "links (lx_adapter s) - selected \<subseteq> links (lx_adapter s')"
    and "is_ok r \<Longrightarrow> set (lx_attachments s') = set (lx_attachments s) - selected
          \<and> links (lx_adapter s') = links (lx_adapter s) - selected"
proof -
  let ?ls = "filter (\<lambda>l. case ifs of None \<Rightarrow> True | Some items \<Rightarrow> at_interface l \<in> set items)
      (lx_attachments s)"
  have sel: "set ?ls = selected" by (auto simp: selected_def)
  obtain fs ds a where d: "detach_each A ?ls (lx_adapter s) = (fs, ds, a)"
    using prod_cases3 by blast
  have s': "s' = s\<lparr>lx_adapter := a,
      lx_attachments := filter (\<lambda>l. l \<notin> set ds) (lx_attachments s)\<rparr>"
    and ok: "is_ok r \<Longrightarrow> fs = []"
    using assms(1) d by (auto simp: linux_detach_def Let_def split: if_splits)
  have sub: "set ds \<subseteq> selected" using detach_each_subset [OF d] sel by simp
  note links = detach_each_links [OF d assms(2)]
  show "set (lx_attachments s) - selected \<subseteq> set (lx_attachments s')"
    using sub by (auto simp: s')
  show "links (lx_adapter s) - selected \<subseteq> links (lx_adapter s')"
    using links sel by (simp add: s')
  show "is_ok r \<Longrightarrow> set (lx_attachments s') = set (lx_attachments s) - selected
          \<and> links (lx_adapter s') = links (lx_adapter s) - selected"
    using links detach_each_complete [of A ?ls "lx_adapter s" ds a] d ok sel
    by (auto simp: s')
qed

end

section \<open>The link contract\<close>

lemma linux_rollback_set:
  assumes "linux_rollback_attach A as s = (Inr u, s')"
  shows "set (lx_attachments s') = set (lx_attachments s) - set as"
proof -
  obtain fs ds a where d: "detach_each A as (lx_adapter s) = (fs, ds, a)"
    using prod_cases3 by blast
  with assms have "fs = []" "s' = s\<lparr>lx_adapter := a,
      lx_attachments := filter (\<lambda>l. l \<notin> set ds) (lx_attachments s)\<rparr>"
    by (auto simp: linux_rollback_attach_def Let_def split: if_splits)
  then show ?thesis using detach_each_complete [of A as "lx_adapter s" ds a] d by auto
qed

lemma linux_rollback_adapter:
  "lx_adapter (snd (linux_rollback_attach A as s)) = snd (snd (detach_each A as (lx_adapter s)))"
  by (simp add: linux_rollback_attach_def Let_def split: prod.splits)

sublocale tc_adapter \<subseteq> linux_links: link_backend "linux_backend ex A" "\<lambda>s. inv (lx_adapter s)"
  for ex
proof (unfold_locales, goal_cases)
  case (1 s elf ifs)
  obtain r s' where a: "linux_attach ex A elf ifs s = (r, s')" by fastforce
  show ?case
  proof (cases r)
    case (Inl e)
    from linux_attach_error_cases [OF a [unfolded Inl]] show ?thesis
    proof (elim disjE exE conjE, goal_cases)
      case (3 u a1 a2)
      then show ?case
        using attach_each_inv [of a1 "lx_attachments s" "required_links ifs" "[]"]
          load_step [OF 1 3(1)] a by (simp add: linux_backend_def)
    qed (use a 1 load_step [OF 1] in \<open>simp_all add: linux_backend_def\<close>)
  next
    case (Inr rep)
    from linux_attach_ok_cases [OF a [unfolded Inr]] show ?thesis
    proof (elim exE conjE, goal_cases)
      case (1 u a1 a2 created)
      then show ?case
        using attach_each_inv [of a1 "lx_attachments s" "required_links ifs" "[]"]
          load_step [OF \<open>inv (lx_adapter s)\<close> 1(1)] a by (simp add: linux_backend_def)
    qed
  qed
next
  case (2 s as)
  obtain fs ds a where d: "detach_each A as (lx_adapter s) = (fs, ds, a)"
    using prod_cases3 by blast
  show ?case
    using detach_each_links [OF d 2] d by (simp add: linux_backend_def linux_rollback_adapter)
next
  case (3 s elf ifs e s')
  then show ?case
    using linux_attach_error_cases [of ex A elf ifs s e s'] by (auto simp: linux_backend_def)
next
  case (4 s elf ifs r s')
  then have "linux_attach ex A elf ifs s = (Inr r, s')" by (simp add: linux_backend_def)
  from linux_attach_ok_cases [OF this] show ?case
  proof (elim exE conjE, goal_cases)
    case (1 u a1 a2 created)
    then show ?case
      using attach_each_links [OF 1(2)] load_step [OF 4(1) 1(1)]
      by (auto simp: linux_backend_def)
  qed
next
  case (5 s as u s')
  then show ?case using linux_rollback_set [of A as s u s'] by (simp add: linux_backend_def)
next
  case (6 s c)
  then show ?case
    using config_inv [of "lx_adapter s" c]
    by (cases "ad_set_runtime_config A c (lx_adapter s)")
       (simp add: linux_backend_def on_adapter_def)
next
  case (7 c s)
  then show ?case by (simp add: linux_backend_def on_adapter_def split: prod.splits)
qed

end
