(* ===== verification/Aya_Adapter.thy ===== *)
theory Aya_Adapter
  imports Linux_Backend
begin

text \<open>
  \<open>AyaLinuxTcAdapter\<close> of \<open>crates/control-service/src/bpf.rs\<close>: the adapter that loads the
  ELF object, attaches the classifiers and reads and writes the BPF maps.

  The \<open>aya\<close> crate and the kernel behind it are not under \<open>src\<close>: they are the record \<open>aya\<close>
  of the calls the adapter makes, over an opaque kernel state \<open>'k\<close> that every call may
  change, so that the packet path running concurrently is part of the parameter. \<open>'h\<close> is a
  loaded object and \<open>'l\<close> a link handle. The adapter's mutex is held for the whole of every
  method, so a method is one transition of the adapter state.
\<close>

section \<open>The library the adapter calls\<close>

datatype map_error = KeyNotFound | ElementNotFound | OtherMapError string

datatype tc_error = AlreadyAttached | OtherTcError string string

record ('h, 'l, 'k) aya =
  ay_load_file :: "string \<Rightarrow> 'k \<Rightarrow> (string + 'h) \<times> 'k"
  ay_has_program :: "'h \<Rightarrow> string \<Rightarrow> bool"
  ay_classifier :: "'h \<Rightarrow> string \<Rightarrow> string + unit"
  ay_program_load :: "'h \<Rightarrow> string \<Rightarrow> 'k \<Rightarrow> (string + unit) \<times> 'k"
  ay_has_map :: "'h \<Rightarrow> string \<Rightarrow> bool"
  ay_map_typed :: "'h \<Rightarrow> string \<Rightarrow> string + unit"
  ay_map_info :: "'h \<Rightarrow> string \<Rightarrow> (string + u32) option"
  ay_qdisc_add_clsact :: "string \<Rightarrow> 'k \<Rightarrow> (tc_error + unit) \<times> 'k"
  ay_attach :: "'h \<Rightarrow> string \<Rightarrow> string \<Rightarrow> direction \<Rightarrow> 'k \<Rightarrow> (string + 'l) \<times> 'k"
  ay_take_link :: "'h \<Rightarrow> string \<Rightarrow> 'l \<Rightarrow> 'k \<Rightarrow> (string + 'l) \<times> 'k"
  ay_link_detach :: "'l \<Rightarrow> 'k \<Rightarrow> (string + unit) \<times> 'k"
  ay_map_get :: "'h \<Rightarrow> string \<Rightarrow> bytes \<Rightarrow> 'k \<Rightarrow> (map_error + bytes) \<times> 'k"
  ay_map_insert :: "'h \<Rightarrow> string \<Rightarrow> bytes \<Rightarrow> bytes \<Rightarrow> u64 \<Rightarrow> 'k \<Rightarrow> (map_error + unit) \<times> 'k"
  ay_map_remove :: "'h \<Rightarrow> string \<Rightarrow> bytes \<Rightarrow> 'k \<Rightarrow> (map_error + unit) \<times> 'k"
  ay_map_iter :: "'h \<Rightarrow> string \<Rightarrow> 'k \<Rightarrow> (map_error + bytes \<times> bytes) list \<times> 'k"
  ay_queue_push :: "'h \<Rightarrow> string \<Rightarrow> bytes \<Rightarrow> 'k \<Rightarrow> (map_error + unit) \<times> 'k"
  ay_array_get :: "'h \<Rightarrow> string \<Rightarrow> u32 \<Rightarrow> 'k \<Rightarrow> (map_error + bytes) \<times> 'k"
  ay_array_set :: "'h \<Rightarrow> string \<Rightarrow> u32 \<Rightarrow> bytes \<Rightarrow> 'k \<Rightarrow> (map_error + unit) \<times> 'k"
  ay_clock_gettime :: "'k \<Rightarrow> (u64 \<times> u64) option \<times> 'k"
  ay_show_map_error :: "map_error \<Rightarrow> string"

section \<open>Names and state\<close>

definition FLOW_INDEX_MAP_NAME_V1 :: string where "FLOW_INDEX_MAP_NAME_V1 = ''ssp_flow_index_v1''"
definition FLOW_STATE_MAP_NAME_V1 :: string where "FLOW_STATE_MAP_NAME_V1 = ''ssp_flow_state_v1''"
definition ACTIVE_FLOWS_MAP_NAME_V1 :: string where
  "ACTIVE_FLOWS_MAP_NAME_V1 = ''ssp_tc_active_flows_v1''"
definition ACTIVE_FLOW_RELEASES_MAP_NAME_V1 :: string where
  "ACTIVE_FLOW_RELEASES_MAP_NAME_V1 = ''ssp_tc_active_flow_releases_v1''"
definition ACTIVE_FLOW_RELEASE_PENDING_MAP_NAME_V1 :: string where
  "ACTIVE_FLOW_RELEASE_PENDING_MAP_NAME_V1 = ''ssp_tc_active_flow_release_pending_v1''"
definition FLOW_GENERATION_MAP_NAME_V1 :: string where
  "FLOW_GENERATION_MAP_NAME_V1 = ''ssp_flow_generation_v1''"
definition FLOW_DELETE_GUARD_MAP_NAME_V1 :: string where
  "FLOW_DELETE_GUARD_MAP_NAME_V1 = ''ssp_flow_delete_guard_v1''"
definition FLOW_DELETE_OUTCOME_MAP_NAME_V1 :: string where
  "FLOW_DELETE_OUTCOME_MAP_NAME_V1 = ''ssp_flow_delete_outcome_v1''"
definition FLOW_PACKET_INFLIGHT_MAP_NAME_V1 :: string where
  "FLOW_PACKET_INFLIGHT_MAP_NAME_V1 = ''ssp_flow_packet_inflight_v1''"
definition RUNTIME_CONFIG_MAP_NAME_V3 :: string where
  "RUNTIME_CONFIG_MAP_NAME_V3 = ''ssp_runtime_config_v3''"
definition COUNTERS_MAP_NAME_V1 :: string where "COUNTERS_MAP_NAME_V1 = ''ssp_tc_counters_v1''"
definition INGRESS_PROGRAM_NAME_V3 :: string where
  "INGRESS_PROGRAM_NAME_V3 = ''ssp_tc_ingress_v3''"
definition EGRESS_PROGRAM_NAME_V3 :: string where "EGRESS_PROGRAM_NAME_V3 = ''ssp_tc_egress_v3''"

definition BPF_NOEXIST :: u64 where "BPF_NOEXIST = 1"
definition FLOW_DELETE_COMMITTED :: u32 where "FLOW_DELETE_COMMITTED = 2"
definition FLOW_RELEASE_PENDING :: u32 where "FLOW_RELEASE_PENDING = 0"

record 'l aya_link =
  al_attachment :: attachment
  al_id :: 'l

record ('h, 'l) aya_state =
  as_elf :: string
  as_bpf :: 'h
  as_links :: "'l aya_link list"
  as_maxima :: map_maxima

record ('h, 'l, 'k) aya_tc =
  tc_state :: "('h, 'l) aya_state option"
  tc_wsl_hooks :: bool
  tc_kernel :: 'k

section \<open>Helpers\<close>

definition map_error :: "('h, 'l, 'k) aya \<Rightarrow> map_error \<Rightarrow> backend_error" where
  "map_error K e = Operation ''map'' (ay_show_map_error K e)"

definition saturating_mul_u64 :: "u64 \<Rightarrow> u64 \<Rightarrow> u64" where
  "saturating_mul_u64 a b = (if unat a * unat b < 2 ^ 64 then a * b else - 1)"

definition adapter_now_ns :: "('h, 'l, 'k) aya \<Rightarrow> 'k \<Rightarrow> u64 \<times> 'k" where
  "adapter_now_ns K k =
     (case ay_clock_gettime K k of
        (Some (sec, nsec), k) \<Rightarrow> (saturating_add_u64 (saturating_mul_u64 sec 1000000000) nsec, k)
      | (None, k) \<Rightarrow> (0, k))"

definition deletion_guard_deadline_ns :: "('h, 'l, 'k) aya \<Rightarrow> 'k \<Rightarrow> u64 \<times> 'k" where
  "deletion_guard_deadline_ns K k =
     (case adapter_now_ns K k of (now, k) \<Rightarrow> (saturating_add_u64 now 1000000000, k))"

definition map_max_entries :: "('h, 'l, 'k) aya \<Rightarrow> 'h \<Rightarrow> string \<Rightarrow> backend_error + usize" where
  "map_max_entries K h name =
     (case ay_map_info K h name of
        None \<Rightarrow> Inl (Operation ''map'' ''required map has an unsupported map type'')
      | Some (Inl e) \<Rightarrow> Inl (Operation ''map'' e)
      | Some (Inr n) \<Rightarrow> Inr (unat n))"

text \<open>The borrow helpers differ in the map they name and in the message for a missing one.\<close>

definition with_map ::
    "string \<Rightarrow> string \<Rightarrow> ('h, 'l, 'k) aya \<Rightarrow> 'h \<Rightarrow> ('k, 'a) action \<Rightarrow> ('k, 'a) action" where
  "with_map name missing K h operation k =
     (if \<not> ay_has_map K h name then (Inl (Operation ''map'' missing), k)
      else case ay_map_typed K h name of
             Inl e \<Rightarrow> (Inl (Operation ''map'' e), k)
           | Inr _ \<Rightarrow> operation k)"

definition with_flow_index_map :: "('h, 'l, 'k) aya \<Rightarrow> 'h \<Rightarrow> ('k, 'a) action \<Rightarrow> ('k, 'a) action" where
  "with_flow_index_map = with_map FLOW_INDEX_MAP_NAME_V1 ''versioned flow index map is missing''"

definition with_state_map :: "('h, 'l, 'k) aya \<Rightarrow> 'h \<Rightarrow> ('k, 'a) action \<Rightarrow> ('k, 'a) action" where
  "with_state_map = with_map FLOW_STATE_MAP_NAME_V1 ''versioned flow state map is missing''"

definition with_active_flows_map ::
    "('h, 'l, 'k) aya \<Rightarrow> 'h \<Rightarrow> ('k, 'a) action \<Rightarrow> ('k, 'a) action" where
  "with_active_flows_map = with_map ACTIVE_FLOWS_MAP_NAME_V1 ''active-flow counter map is missing''"

definition with_active_flow_releases ::
    "('h, 'l, 'k) aya \<Rightarrow> 'h \<Rightarrow> ('k, 'a) action \<Rightarrow> ('k, 'a) action" where
  "with_active_flow_releases =
     with_map ACTIVE_FLOW_RELEASES_MAP_NAME_V1 ''active-flow release queue is missing''"

definition with_active_flow_release_pending_map ::
    "('h, 'l, 'k) aya \<Rightarrow> 'h \<Rightarrow> ('k, 'a) action \<Rightarrow> ('k, 'a) action" where
  "with_active_flow_release_pending_map =
     with_map ACTIVE_FLOW_RELEASE_PENDING_MAP_NAME_V1 ''active-flow release journal is missing''"

definition with_delete_guard_map ::
    "('h, 'l, 'k) aya \<Rightarrow> 'h \<Rightarrow> ('k, 'a) action \<Rightarrow> ('k, 'a) action" where
  "with_delete_guard_map =
     with_map FLOW_DELETE_GUARD_MAP_NAME_V1 ''flow deletion guard map is missing''"

definition with_delete_outcome_map ::
    "('h, 'l, 'k) aya \<Rightarrow> 'h \<Rightarrow> ('k, 'a) action \<Rightarrow> ('k, 'a) action" where
  "with_delete_outcome_map =
     with_map FLOW_DELETE_OUTCOME_MAP_NAME_V1 ''flow deletion outcome map is missing''"

definition with_packet_inflight_map ::
    "('h, 'l, 'k) aya \<Rightarrow> 'h \<Rightarrow> ('k, 'a) action \<Rightarrow> ('k, 'a) action" where
  "with_packet_inflight_map =
     with_map FLOW_PACKET_INFLIGHT_MAP_NAME_V1 ''flow packet in-flight map is missing''"

definition with_runtime_map :: "('h, 'l, 'k) aya \<Rightarrow> 'h \<Rightarrow> ('k, 'a) action \<Rightarrow> ('k, 'a) action" where
  "with_runtime_map = with_map RUNTIME_CONFIG_MAP_NAME_V3 ''versioned runtime config map is missing''"

definition with_counters_map :: "('h, 'l, 'k) aya \<Rightarrow> 'h \<Rightarrow> ('k, 'a) action \<Rightarrow> ('k, 'a) action" where
  "with_counters_map = with_map COUNTERS_MAP_NAME_V1 ''BPF counters map is missing''"

text \<open>The recurring treatments of a map call's result: an absent key read as \<open>None\<close>, an absent
  key removed with success, and any other error wrapped with the location \<open>map\<close>.\<close>

definition map_get_opt ::
    "('h, 'l, 'k) aya \<Rightarrow> 'h \<Rightarrow> string \<Rightarrow> bytes \<Rightarrow> ('k, bytes option) action" where
  "map_get_opt K h name key k =
     (case ay_map_get K h name key k of
        (Inr v, k) \<Rightarrow> (Inr (Some v), k)
      | (Inl KeyNotFound, k) \<Rightarrow> (Inr None, k)
      | (Inl ElementNotFound, k) \<Rightarrow> (Inr None, k)
      | (Inl e, k) \<Rightarrow> (Inl (map_error K e), k))"

definition map_remove :: "('h, 'l, 'k) aya \<Rightarrow> 'h \<Rightarrow> string \<Rightarrow> bytes \<Rightarrow> ('k, unit) action" where
  "map_remove K h name key k =
     (case ay_map_remove K h name key k of (r, k) \<Rightarrow> (map_err (map_error K) r, k))"

definition map_remove_lenient ::
    "('h, 'l, 'k) aya \<Rightarrow> 'h \<Rightarrow> string \<Rightarrow> bytes \<Rightarrow> ('k, unit) action" where
  "map_remove_lenient K h name key k =
     (case ay_map_remove K h name key k of
        (Inr u, k) \<Rightarrow> (Inr u, k)
      | (Inl KeyNotFound, k) \<Rightarrow> (Inr (), k)
      | (Inl ElementNotFound, k) \<Rightarrow> (Inr (), k)
      | (Inl e, k) \<Rightarrow> (Inl (map_error K e), k))"

definition map_insert ::
    "('h, 'l, 'k) aya \<Rightarrow> 'h \<Rightarrow> string \<Rightarrow> bytes \<Rightarrow> bytes \<Rightarrow> u64 \<Rightarrow> ('k, unit) action" where
  "map_insert K h name key val flags k =
     (case ay_map_insert K h name key val flags k of (r, k) \<Rightarrow> (map_err (map_error K) r, k))"

section \<open>Loading\<close>

definition required_map_max :: "('h, 'l, 'k) aya \<Rightarrow> 'h \<Rightarrow> string \<Rightarrow> backend_error + usize" where
  "required_map_max K h name =
     (if \<not> ay_has_map K h name
      then Inl (Operation ''map'' (''required map '' @ name @ '' is missing''))
      else map_max_entries K h name)"

definition load_program :: "('h, 'l, 'k) aya \<Rightarrow> 'h \<Rightarrow> string \<Rightarrow> ('k, unit) action" where
  "load_program K h name k =
     (if \<not> ay_has_program K h name
      then (Inl (Operation (''program:'' @ name) ''required TC program is missing''), k)
      else case ay_classifier K h name of
             Inl e \<Rightarrow> (Inl (Operation (''program:'' @ name) e), k)
           | Inr _ \<Rightarrow>
               (case ay_program_load K h name k of
                  (r, k) \<Rightarrow> (map_err (Operation (''program:'' @ name)) r, k)))"

definition verify_object :: "('h, 'l, 'k) aya \<Rightarrow> 'h \<Rightarrow> ('k, map_maxima) action" where
  "verify_object K h =
     (if ay_has_program K h ''ssp_tc_ingress_v2'' \<or> ay_has_program K h ''ssp_tc_egress_v2''
         \<or> ay_has_map K h ''ssp_destination_policy_map_v1'' \<or> ay_has_map K h ''ssp_runtime_config_v1''
      then fail (Operation ''load'' ''stale v2 or destination-policy ABI artifact is present'')
      else case required_map_max K h FLOW_INDEX_MAP_NAME_V1 of
        Inl e \<Rightarrow> fail e
      | Inr flow_index \<Rightarrow>
     (case required_map_max K h FLOW_STATE_MAP_NAME_V1 of
        Inl e \<Rightarrow> fail e
      | Inr flow_state \<Rightarrow>
      if \<not> ay_has_map K h RUNTIME_CONFIG_MAP_NAME_V3
      then fail (Operation ''map'' (''required map '' @ RUNTIME_CONFIG_MAP_NAME_V3 @ '' is missing''))
      else if \<not> ay_has_map K h COUNTERS_MAP_NAME_V1
      then fail (Operation ''map'' ''BPF counters map is missing'')
      else case map_max_entries K h COUNTERS_MAP_NAME_V1 of
        Inl e \<Rightarrow> fail e
      | Inr counters \<Rightarrow>
      if counters < 3
      then fail (Operation ''map'' ''BPF counters map does not expose all v3 counter slots'')
      else
        bind_act (with_flow_index_map K h (ret ())) (\<lambda>_.
        bind_act (with_state_map K h (ret ())) (\<lambda>_.
        bind_act (with_active_flows_map K h (ret ())) (\<lambda>_.
        bind_act (with_active_flow_releases K h (ret ())) (\<lambda>_.
        bind_act (with_active_flow_release_pending_map K h (ret ())) (\<lambda>_.
        if \<not> ay_has_map K h FLOW_GENERATION_MAP_NAME_V1
        then fail (Operation ''map''
                     (''required map '' @ FLOW_GENERATION_MAP_NAME_V1 @ '' is missing''))
        else
        bind_act (with_delete_guard_map K h (ret ())) (\<lambda>_.
        bind_act (with_delete_outcome_map K h (ret ())) (\<lambda>_.
        bind_act (with_packet_inflight_map K h (ret ())) (\<lambda>_.
        bind_act (with_runtime_map K h (ret ())) (\<lambda>_.
        bind_act (with_counters_map K h (ret ())) (\<lambda>_.
        bind_act (load_program K h INGRESS_PROGRAM_NAME_V3) (\<lambda>_.
        bind_act (load_program K h EGRESS_PROGRAM_NAME_V3) (\<lambda>_.
          ret \<lparr>mm_flow_index = flow_index, mm_flow_state = flow_state\<rparr>))))))))))))))"

definition load_object ::
    "('h, 'l, 'k) aya \<Rightarrow> string \<Rightarrow> (('h, 'l, 'k) aya_tc, unit) action" where
  "load_object K elf s =
     (case ay_load_file K elf (tc_kernel s) of
        (Inl e, k) \<Rightarrow> (Inl (Operation ''load'' (''ELF load failed: '' @ e)), s\<lparr>tc_kernel := k\<rparr>)
      | (Inr h, k) \<Rightarrow>
          (case verify_object K h k of
             (Inl e, k) \<Rightarrow> (Inl e, s\<lparr>tc_kernel := k\<rparr>)
           | (Inr maxima, k) \<Rightarrow>
               (Inr (), s\<lparr>tc_kernel := k,
                  tc_state := Some \<lparr>as_elf = elf, as_bpf = h, as_links = [],
                                    as_maxima = maxima\<rparr>\<rparr>)))"

definition aya_load_elf ::
    "('h, 'l, 'k) aya \<Rightarrow> string \<Rightarrow> u16 \<Rightarrow> (('h, 'l, 'k) aya_tc, unit) action" where
  "aya_load_elf K elf abi_version s =
     (if abi_version \<noteq> PROGRAM_ABI_VERSION then (Inl (AbiMismatch abi_version), s)
      else case tc_state s of
        Some current \<Rightarrow>
          if as_elf current = elf then (Inr (), s)
          else if as_links current \<noteq> []
          then (Inl (Operation ''load''
                       ''cannot replace an ELF while owned TC links are attached''), s)
          else load_object K elf s
      | None \<Rightarrow> load_object K elf s)"

section \<open>Links\<close>

definition hook_program :: "bool \<Rightarrow> direction \<Rightarrow> string" where
  "hook_program wsl_hooks direction =
     (case (wsl_hooks, direction) of
        (False, Ingress) \<Rightarrow> INGRESS_PROGRAM_NAME_V3
      | (False, Egress) \<Rightarrow> EGRESS_PROGRAM_NAME_V3
      | (True, Ingress) \<Rightarrow> EGRESS_PROGRAM_NAME_V3
      | (True, Egress) \<Rightarrow> INGRESS_PROGRAM_NAME_V3)"

definition attach_classifier ::
    "('h, 'l, 'k) aya \<Rightarrow> 'h \<Rightarrow> string \<Rightarrow> string \<Rightarrow> direction \<Rightarrow> ('k, 'l) action" where
  "attach_classifier K h program interface direction k =
     (if \<not> ay_has_program K h program
      then (Inl (Operation (''program:'' @ program) ''required TC program is missing''), k)
      else case ay_classifier K h program of
             Inl e \<Rightarrow> (Inl (Operation (''program:'' @ program) e), k)
           | Inr _ \<Rightarrow>
               (case ay_attach K h program interface direction k of
                  (r, k) \<Rightarrow> (map_err (Operation (link_name interface direction)) r, k)))"

definition aya_attach ::
    "('h, 'l, 'k) aya \<Rightarrow> string \<Rightarrow> direction \<Rightarrow> (('h, 'l, 'k) aya_tc, unit) action" where
  "aya_attach K interface direction s =
     (case tc_state s of
        None \<Rightarrow> (Inl NotAttached, s)
      | Some st \<Rightarrow>
          let attachment = \<lparr>at_interface = interface, at_direction = direction\<rparr>
          in if attachment \<in> al_attachment ` set (as_links st) then (Inr (), s)
          else case ay_qdisc_add_clsact K interface (tc_kernel s) of
            (r, k) \<Rightarrow>
              let refused = (case r of
                    Inr _ \<Rightarrow> None
                  | Inl AlreadyAttached \<Rightarrow> None
                  | Inl (OtherTcError shown debug) \<Rightarrow>
                      if \<not> tc_wsl_hooks s
                         \<or> \<not> str_contains ''Exclusivity flag on, cannot modify'' debug
                      then Some shown else None)
              in case refused of
                   Some shown \<Rightarrow>
                     (Inl (Operation (link_name interface direction)
                             (''clsact setup failed: '' @ shown)), s\<lparr>tc_kernel := k\<rparr>)
                 | None \<Rightarrow>
                     (case attach_classifier K (as_bpf st) (hook_program (tc_wsl_hooks s) direction)
                             interface direction k of
                        (Inl e, k) \<Rightarrow> (Inl e, s\<lparr>tc_kernel := k\<rparr>)
                      | (Inr link_id, k) \<Rightarrow>
                          (Inr (), s\<lparr>tc_kernel := k,
                             tc_state := Some (st\<lparr>as_links := as_links st @
                               [\<lparr>al_attachment = attachment, al_id = link_id\<rparr>]\<rparr>)\<rparr>)))"

fun position :: "('a \<Rightarrow> bool) \<Rightarrow> 'a list \<Rightarrow> nat option" where
  "position P [] = None"
| "position P (x # xs) = (if P x then Some 0 else map_option Suc (position P xs))"

definition remove_nth :: "nat \<Rightarrow> 'a list \<Rightarrow> 'a list" where
  "remove_nth i xs = take i xs @ drop (Suc i) xs"

definition insert_nth :: "nat \<Rightarrow> 'a \<Rightarrow> 'a list \<Rightarrow> 'a list" where
  "insert_nth i x xs = take i xs @ x # drop i xs"

definition aya_detach ::
    "('h, 'l, 'k) aya \<Rightarrow> string \<Rightarrow> direction \<Rightarrow> (('h, 'l, 'k) aya_tc, unit) action" where
  "aya_detach K interface direction s =
     (case tc_state s of
        None \<Rightarrow> (Inl NotAttached, s)
      | Some st \<Rightarrow>
          let attachment = \<lparr>at_interface = interface, at_direction = direction\<rparr>
          in case position (\<lambda>l. al_attachment l = attachment) (as_links st) of
               None \<Rightarrow> (Inl (Operation (link_name interface direction) ''owned link is missing''), s)
             | Some index \<Rightarrow>
                 let tracked = as_links st ! index;
                     st = st\<lparr>as_links := remove_nth index (as_links st)\<rparr>;
                     s = s\<lparr>tc_state := Some st\<rparr>;
                     program = hook_program (tc_wsl_hooks s) direction
                 in if \<not> ay_has_program K (as_bpf st) program
                    then (Inl (Operation (''program:'' @ program) ''required TC program is missing''), s)
                    else case ay_classifier K (as_bpf st) program of
                      Inl e \<Rightarrow> (Inl (Operation (''program:'' @ program) e), s)
                    | Inr _ \<Rightarrow>
                    (case ay_take_link K (as_bpf st) program (al_id tracked) (tc_kernel s) of
                       (Inl e, k) \<Rightarrow>
                         (Inl (Operation (link_name interface direction) e), s\<lparr>tc_kernel := k\<rparr>)
                     | (Inr link, k) \<Rightarrow>
                         (case ay_link_detach K link k of
                            (Inr _, k) \<Rightarrow> (Inr (), s\<lparr>tc_kernel := k\<rparr>)
                          | (Inl e, k) \<Rightarrow>
                              (Inl (Operation (link_name interface direction) e),
                               s\<lparr>tc_kernel := k,
                                 tc_state := Some (st\<lparr>as_links := insert_nth index
                                   \<lparr>al_attachment = al_attachment tracked, al_id = link\<rparr>
                                   (as_links st)\<rparr>)\<rparr>))))"

section \<open>Maps\<close>

definition on_loaded ::
    "('h, 'l, 'k) aya_tc \<Rightarrow> ('h \<Rightarrow> ('k, 'a) action) \<Rightarrow> (backend_error + 'a) \<times> ('h, 'l, 'k) aya_tc" where
  "on_loaded s f =
     (case tc_state s of
        None \<Rightarrow> (Inl NotAttached, s)
      | Some st \<Rightarrow> (case f (as_bpf st) (tc_kernel s) of (r, k) \<Rightarrow> (r, s\<lparr>tc_kernel := k\<rparr>)))"

definition scan_map ::
    "('h, 'l, 'k) aya \<Rightarrow> 'h \<Rightarrow> string \<Rightarrow> (bytes \<times> bytes \<Rightarrow> backend_error + 'a) \<Rightarrow> ('k, 'a list) action"
  where
  "scan_map K h name f k =
     (case ay_map_iter K h name k of
        (entries, k) \<Rightarrow>
          (collect_results (map (\<lambda>e. and_then (map_err (map_error K) e) f) entries), k))"

definition aya_list_flow_states ::
    "('h, 'l, 'k) aya \<Rightarrow> (('h, 'l, 'k) aya_tc, flow_state list) action" where
  "aya_list_flow_states K s =
     on_loaded s (\<lambda>h. with_state_map K h (scan_map K h FLOW_STATE_MAP_NAME_V1 (\<lambda>(_, val).
       map_err (\<lambda>e. Operation ''flow-state:decode'' (abi_error_message e)) (decode_flow_state val))))"

definition aya_list_entries ::
    "('h, 'l, 'k) aya \<Rightarrow> (('h, 'l, 'k) aya_tc, (bytes \<times> bytes) list) action" where
  "aya_list_entries K =
     bind_act (aya_list_flow_states K) (\<lambda>states.
       ret (map (\<lambda>f. let m = flow_state_mapping f in (encode_key (m_synthetic m), encode_value m))
              (filter (\<lambda>f. fs_lifecycle f = Active) states)))"

definition decode_index :: "bytes \<Rightarrow> backend_error + flow_index_value" where
  "decode_index v =
     map_err (\<lambda>e. Operation ''flow-index:decode'' (abi_error_message e)) (decode_flow_index v)"

definition aya_get_entry ::
    "('h, 'l, 'k) aya \<Rightarrow> bytes \<Rightarrow> (('h, 'l, 'k) aya_tc, bytes option) action" where
  "aya_get_entry K key s =
     (if length key \<noteq> KEY_LEN
      then (Inl (Operation ''map:get''
                   (''invalid mapping key length: '' @ show_nat (length key))), s)
      else on_loaded s (\<lambda>h.
        bind_act (with_flow_index_map K h (map_get_opt K h FLOW_INDEX_MAP_NAME_V1 key)) (\<lambda>index.
          case index of
            None \<Rightarrow> ret None
          | Some index \<Rightarrow>
              (case decode_index index of
                 Inl e \<Rightarrow> fail e
               | Inr index \<Rightarrow>
                   let state_key = encode_flow_state_key (fi_flow_id index) (fi_generation index)
                   in bind_act (with_state_map K h
                                  (map_get_opt K h FLOW_STATE_MAP_NAME_V1 state_key)) (\<lambda>flow.
                        case flow of
                          None \<Rightarrow> ret None
                        | Some flow \<Rightarrow>
                            (case decode_flow_state flow of
                               Inl e \<Rightarrow> fail (Operation ''flow-state:decode'' (abi_error_message e))
                             | Inr flow \<Rightarrow>
                                 if fs_lifecycle flow \<noteq> Active then ret None
                                 else ret (Some (encode_value (flow_state_mapping flow)))))))))"

section \<open>Deleting a flow\<close>

text \<open>The generation guard is installed first; \<open>guard_active\<close> records whether it was.\<close>

definition install_guard ::
    "('h, 'l, 'k) aya \<Rightarrow> 'h \<Rightarrow> bytes \<Rightarrow> u64 \<Rightarrow> bool \<Rightarrow> ('k, bool) action" where
  "install_guard K h state_key deadline guard_active =
     (if \<not> guard_active then
        attempt (with_delete_guard_map K h (map_remove K h FLOW_DELETE_GUARD_MAP_NAME_V1 state_key)) (\<lambda>_.
        attempt (with_delete_outcome_map K h
                   (map_remove K h FLOW_DELETE_OUTCOME_MAP_NAME_V1 state_key)) (\<lambda>_.
          ret True))
      else
        bind_act (with_delete_guard_map K h
                    (map_get_opt K h FLOW_DELETE_GUARD_MAP_NAME_V1 state_key)) (\<lambda>existing.
          let install =
            attempt (with_delete_outcome_map K h
                       (map_remove K h FLOW_DELETE_OUTCOME_MAP_NAME_V1 state_key)) (\<lambda>_.
            bind_act (with_delete_guard_map K h
                        (map_insert K h FLOW_DELETE_GUARD_MAP_NAME_V1 state_key
                           (to_le_bytes deadline) BPF_NOEXIST)) (\<lambda>_.
              ret True))
          in case existing of
               None \<Rightarrow> install
             | Some guard \<Rightarrow>
                 attempt (adapter_now_ns K) (\<lambda>now.
                   if now \<le> from_le_bytes guard then ret False
                   else bind_act (with_delete_guard_map K h
                                    (map_remove K h FLOW_DELETE_GUARD_MAP_NAME_V1 state_key)) (\<lambda>_.
                          install))))"

definition read_in_flight :: "('h, 'l, 'k) aya \<Rightarrow> 'h \<Rightarrow> bytes \<Rightarrow> ('k, u64) action" where
  "read_in_flight K h state_key =
     with_packet_inflight_map K h
       (bind_act (map_get_opt K h FLOW_PACKET_INFLIGHT_MAP_NAME_V1 state_key) (\<lambda>v.
          ret (case v of None \<Rightarrow> 0 | Some v \<Rightarrow> from_ne_bytes v)))"

fun wait_quiescent :: "nat \<Rightarrow> ('h, 'l, 'k) aya \<Rightarrow> 'h \<Rightarrow> bytes \<Rightarrow> ('k, bool) action" where
  "wait_quiescent 0 K h state_key = ret False"
| "wait_quiescent (Suc n) K h state_key =
     bind_act (read_in_flight K h state_key) (\<lambda>in_flight.
       if in_flight = 0 then ret True else wait_quiescent n K h state_key)"

definition read_state :: "('h, 'l, 'k) aya \<Rightarrow> 'h \<Rightarrow> bytes \<Rightarrow> ('k, bytes option) action" where
  "read_state K h state_key =
     with_state_map K h (map_get_opt K h FLOW_STATE_MAP_NAME_V1 state_key)"

text \<open>Commits the deletion against concurrent packets. The result is a report when the caller
  has to stop, and the committed record otherwise.\<close>

definition mismatch_report :: flow_cleanup_report where
  "mismatch_report = cleanup_default\<lparr>cr_observation_mismatch := True\<rparr>"

definition confirm_quiescent ::
    "('h, 'l, 'k) aya \<Rightarrow> 'h \<Rightarrow> bytes \<Rightarrow> ('k, flow_cleanup_report + bytes) action" where
  "confirm_quiescent K h state_key =
     bind_act (wait_quiescent 128 K h state_key) (\<lambda>quiescent.
       if \<not> quiescent then ret (Inl mismatch_report)
       else
         bind_act (read_state K h state_key) (\<lambda>committed_flow.
           case committed_flow of
             None \<Rightarrow> ret (Inl cleanup_default)
           | Some flow \<Rightarrow> ret (Inr flow)))"

definition commit_deletion ::
    "('h, 'l, 'k) aya \<Rightarrow> 'h \<Rightarrow> bytes \<Rightarrow> ('k, flow_cleanup_report + bytes) action" where
  "commit_deletion K h state_key =
     bind_act (wait_quiescent 128 K h state_key) (\<lambda>quiet.
     bind_act (if quiet then read_state K h state_key else ret None) (\<lambda>stable.
       case stable of
         None \<Rightarrow> ret (Inl mismatch_report)
       | Some _ \<Rightarrow>
           attempt (with_delete_outcome_map K h
                      (map_insert K h FLOW_DELETE_OUTCOME_MAP_NAME_V1 state_key
                         (to_ne_bytes FLOW_DELETE_COMMITTED) BPF_NOEXIST)) (\<lambda>committed.
             if \<not> is_ok committed then ret (Inl mismatch_report)
             else confirm_quiescent K h state_key)))"

definition delete_index ::
    "('h, 'l, 'k) aya \<Rightarrow> 'h \<Rightarrow> flow_index_value \<Rightarrow> bytes \<Rightarrow> ('k, bool) action" where
  "delete_index K h expected key =
     with_flow_index_map K h
       (bind_act (map_get_opt K h FLOW_INDEX_MAP_NAME_V1 key) (\<lambda>current.
          case current of
            None \<Rightarrow> ret False
          | Some current \<Rightarrow>
              (case decode_index current of
                 Inl e \<Rightarrow> fail e
               | Inr current \<Rightarrow>
                   if current \<noteq> expected then ret False
                   else bind_act (map_remove K h FLOW_INDEX_MAP_NAME_V1 key) (\<lambda>_. ret True))))"

fun delete_indexes ::
    "('h, 'l, 'k) aya \<Rightarrow> 'h \<Rightarrow> flow_index_value \<Rightarrow> bytes list \<Rightarrow> usize \<times> bool \<Rightarrow> 'k
       \<Rightarrow> (usize \<times> bool) \<times> 'k" where
  "delete_indexes K h expected [] acc k = (acc, k)"
| "delete_indexes K h expected (key # keys) (deleted, partial) k =
     (case delete_index K h expected key k of
        (Inr True, k) \<Rightarrow> delete_indexes K h expected keys (deleted + 1, partial) k
      | (Inr False, k) \<Rightarrow> delete_indexes K h expected keys (deleted, partial) k
      | (Inl _, k) \<Rightarrow> delete_indexes K h expected keys (deleted, True) k)"

definition index_keys_of ::
    "('h, 'l, 'k) aya \<Rightarrow> 'h \<Rightarrow> flow_index_value \<Rightarrow> u64 \<Rightarrow> bytes option
       \<Rightarrow> ('k, flow_cleanup_report + bytes list) action" where
  "index_keys_of K h expected observed flow =
     (case flow of
        Some flow \<Rightarrow>
          (case decode_flow_state flow of
             Inl e \<Rightarrow> fail (Operation ''flow-state:decode'' (abi_error_message e))
           | Inr flow \<Rightarrow>
               if observed \<noteq> 0 \<and> fs_last_used_ns flow \<noteq> observed then ret (Inl mismatch_report)
               else ret (Inr [encode_key (fs_original flow), encode_key (fs_target flow),
                              encode_key (fs_reverse flow)]))
      | None \<Rightarrow>
          bind_act (with_flow_index_map K h (scan_map K h FLOW_INDEX_MAP_NAME_V1 (\<lambda>(key, val).
                      and_then (decode_index val) (\<lambda>v. Inr (key, v))))) (\<lambda>entries.
            ret (Inr (map fst (filter (\<lambda>(_, v). v = expected) entries)))))"

definition stale_generation_of ::
    "('h, 'l, 'k) aya \<Rightarrow> 'h \<Rightarrow> flow_index_value \<Rightarrow> bytes option \<Rightarrow> ('k, bool) action" where
  "stale_generation_of K h expected flow =
     (if flow \<noteq> None then ret False
      else bind_act (with_flow_index_map K h (scan_map K h FLOW_INDEX_MAP_NAME_V1 (\<lambda>(_, val).
                       and_then (decode_index val) (\<lambda>v.
                         Inr (fi_flow_id v = fi_flow_id expected
                              \<and> fi_generation v \<noteq> fi_generation expected))))) (\<lambda>found.
             ret (list_ex (\<lambda>b. b) found)))"

text \<open>Removing the record: the release is journaled before the state is given up, and the
  journal entry is withdrawn when the removal fails. The result is whether the state was
  removed and whether something was left over.\<close>

definition transfer_state ::
    "('h, 'l, 'k) aya \<Rightarrow> 'h \<Rightarrow> bytes \<Rightarrow> bytes option \<Rightarrow> ('k, bool \<times> bool) action" where
  "transfer_state K h state_key flow =
     (if flow = None then ret (False, False)
      else
        bind_act (with_active_flow_release_pending_map K h
                    (map_insert K h ACTIVE_FLOW_RELEASE_PENDING_MAP_NAME_V1 state_key
                       (to_ne_bytes FLOW_RELEASE_PENDING) 0)) (\<lambda>_.
        attempt (with_state_map K h (map_remove K h FLOW_STATE_MAP_NAME_V1 state_key)) (\<lambda>removed.
          if is_ok removed then ret (True, False)
          else attempt (with_active_flow_release_pending_map K h
                          (map_remove K h ACTIVE_FLOW_RELEASE_PENDING_MAP_NAME_V1 state_key)) (\<lambda>_.
                 ret (False, True)))))"

text \<open>The owner of the record removes the indexes and the packet counter and publishes the
  journaled release.\<close>

definition finish_removal ::
    "('h, 'l, 'k) aya \<Rightarrow> 'h \<Rightarrow> u64 \<Rightarrow> u32 \<Rightarrow> bool \<Rightarrow> bytes list \<Rightarrow> bool \<Rightarrow> bool \<Rightarrow> bool
       \<Rightarrow> ('k, flow_cleanup_report) action" where
  "finish_removal K h flow_id gen owner keys state_deleted partial stale =
     (let expected = \<lparr>fi_flow_id = flow_id, fi_generation = gen\<rparr>;
          state_key = encode_flow_state_key flow_id gen
      in attempt (if owner then delete_indexes K h expected keys (0, partial)
                  else (\<lambda>k. ((0, partial), k))) (\<lambda>(indexes_deleted, partial).
         attempt (if owner then with_packet_inflight_map K h
                    (map_remove_lenient K h FLOW_PACKET_INFLIGHT_MAP_NAME_V1 state_key)
                  else ret ()) (\<lambda>inflight.
         let partial = (partial \<or> \<not> is_ok inflight)
         in bind_act (with_active_flow_release_pending_map K h
                        (map_get_opt K h ACTIVE_FLOW_RELEASE_PENDING_MAP_NAME_V1 state_key)) (\<lambda>pending.
            attempt (if pending \<noteq> None \<and> owner
                     then with_active_flow_releases K h (\<lambda>k.
                       case ay_queue_push K h ACTIVE_FLOW_RELEASES_MAP_NAME_V1 state_key k of
                         (r, k) \<Rightarrow> (map_err (map_error K) r, k))
                     else ret ()) (\<lambda>pushed.
              ret \<lparr>cr_state_deleted = state_deleted, cr_indexes_deleted = indexes_deleted,
                   cr_partial = (partial \<or> \<not> is_ok pushed), cr_stale_generation = stale,
                   cr_observation_mismatch = False\<rparr>)))))"

definition remove_flow ::
    "('h, 'l, 'k) aya \<Rightarrow> 'h \<Rightarrow> u64 \<Rightarrow> u32 \<Rightarrow> u64 \<Rightarrow> bytes option \<Rightarrow> ('k, flow_cleanup_report) action"
  where
  "remove_flow K h flow_id gen observed flow =
     (let expected = \<lparr>fi_flow_id = flow_id, fi_generation = gen\<rparr>;
          state_key = encode_flow_state_key flow_id gen
      in bind_act (stale_generation_of K h expected flow) (\<lambda>stale.
         bind_act (index_keys_of K h expected observed flow) (\<lambda>keys.
           case keys of
             Inl report \<Rightarrow> ret report
           | Inr keys \<Rightarrow>
               bind_act (transfer_state K h state_key flow) (\<lambda>(state_deleted, partial).
                 finish_removal K h flow_id gen (state_deleted \<or> flow = None)
                   (remdups_adj (sort keys)) state_deleted partial stale))))"

definition release_guard ::
    "('h, 'l, 'k) aya \<Rightarrow> 'h \<Rightarrow> bytes \<Rightarrow> bool \<Rightarrow> 'k \<Rightarrow> string list \<times> 'k" where
  "release_guard K h state_key guard_active =
     (if \<not> guard_active then (\<lambda>k. ([], k))
      else
        attempt (with_delete_guard_map K h
                   (map_remove_lenient K h FLOW_DELETE_GUARD_MAP_NAME_V1 state_key)) (\<lambda>g.
        attempt (with_delete_outcome_map K h
                   (map_remove_lenient K h FLOW_DELETE_OUTCOME_MAP_NAME_V1 state_key)) (\<lambda>out k.
          ((case g of Inl e \<Rightarrow> [''guard cleanup failed: '' @ backend_error_message e] | Inr _ \<Rightarrow> [])
           @ (case out of Inl e \<Rightarrow> [''outcome cleanup failed: '' @ backend_error_message e]
                        | Inr _ \<Rightarrow> []), k))))"

definition delete_flow_loaded ::
    "('h, 'l, 'k) aya \<Rightarrow> 'h \<Rightarrow> u64 \<Rightarrow> u32 \<Rightarrow> u64 \<Rightarrow> u64 \<Rightarrow> ('k, flow_cleanup_report) action" where
  "delete_flow_loaded K h flow_id gen observed deadline =
     (let state_key = encode_flow_state_key flow_id gen
      in bind_act (read_state K h state_key) (\<lambda>initial_flow.
           let guard_active = (initial_flow \<noteq> None)
           in bind_act (install_guard K h state_key deadline guard_active) (\<lambda>installed.
                if \<not> installed then ret mismatch_report
                else
                  attempt (if guard_active
                           then bind_act (commit_deletion K h state_key) (\<lambda>outcome.
                                  case outcome of
                                    Inl report \<Rightarrow> ret report
                                  | Inr flow \<Rightarrow> remove_flow K h flow_id gen observed (Some flow))
                           else remove_flow K h flow_id gen observed None) (\<lambda>cleanup.
                  attempt (release_guard K h state_key guard_active) (\<lambda>failures k.
                    (case cleanup of
                       Inr report \<Rightarrow>
                         Inr (if failures \<noteq> [] then report\<lparr>cr_partial := True\<rparr> else report)
                     | Inl e \<Rightarrow>
                         Inl (if failures = [] then e
                              else Operation ''flow-delete:operation-cleanup''
                                     (backend_error_message e @ ''; '' @ join ''; '' failures)), k))))))"

definition aya_delete_flow ::
    "('h, 'l, 'k) aya \<Rightarrow> u64 \<Rightarrow> u32 \<Rightarrow> u64 \<Rightarrow> u64
       \<Rightarrow> (('h, 'l, 'k) aya_tc, flow_cleanup_report) action" where
  "aya_delete_flow K flow_id gen observed deadline s =
     on_loaded s (\<lambda>h. delete_flow_loaded K h flow_id gen observed deadline)"

definition aya_delete_entry ::
    "('h, 'l, 'k) aya \<Rightarrow> bytes \<Rightarrow> (('h, 'l, 'k) aya_tc, bool) action" where
  "aya_delete_entry K key s =
     (if length key \<noteq> KEY_LEN
      then (Inl (Operation ''map:delete''
                   (''invalid mapping key length: '' @ show_nat (length key))), s)
      else
        bind_act (\<lambda>s. on_loaded s (\<lambda>h.
            with_flow_index_map K h (map_get_opt K h FLOW_INDEX_MAP_NAME_V1 key))) (\<lambda>index.
          case index of
            None \<Rightarrow> ret False
          | Some index \<Rightarrow>
              (case decode_index index of
                 Inl e \<Rightarrow> fail e
               | Inr index \<Rightarrow>
                   (\<lambda>s. case deletion_guard_deadline_ns K (tc_kernel s) of
                      (deadline, k) \<Rightarrow>
                        bind_act (aya_delete_flow K (fi_flow_id index) (fi_generation index) 0 deadline)
                          (\<lambda>report. ret (cr_state_deleted report \<or> cr_indexes_deleted report \<noteq> 0))
                          (s\<lparr>tc_kernel := k\<rparr>)))) s)"

section \<open>Configuration and counters\<close>

definition runtime_target_bytes :: "runtime_config \<Rightarrow> bytes \<Rightarrow> bytes" where
  "runtime_target_bytes c out =
     (let out = (case rc_ipv4_target c of
                   Some t \<Rightarrow> (case sa_ip t of
                     V4 a \<Rightarrow> copy_at 8 (to_be_bytes (sa_port t)) (copy_at 4 (octets (V4 a)) (out[2 := 1]))
                   | V6 _ \<Rightarrow> out)
                 | None \<Rightarrow> out)
      in case rc_ipv6_target c of
           Some t \<Rightarrow> (case sa_ip t of
             V6 a \<Rightarrow> copy_at 26 (to_be_bytes (sa_port t)) (copy_at 10 (octets (V6 a)) (out[3 := 1]))
           | V4 _ \<Rightarrow> out)
         | None \<Rightarrow> out)"

definition runtime_listener_bytes :: "listener_descriptor \<Rightarrow> bytes \<Rightarrow> bytes" where
  "runtime_listener_bytes l out =
     (let out = out[28 := (if is_ipv4 (ld_address l) then 4 else 6)];
          out = out[29 := (if ld_ipv4_wildcard l then 1 else 0)
                          OR push_bit 1 (if ld_ipv6_wildcard l then 1 else 0)];
          out = (case ld_address l of
                   V4 a \<Rightarrow> copy_at 42 (octets (V4 a)) out
                 | V6 a \<Rightarrow> copy_at 30 (octets (V6 a)) out)
      in copy_at 46 (to_be_bytes (ld_port l)) out)"

definition runtime_config_value :: "runtime_config \<Rightarrow> backend_error + bytes" where
  "runtime_config_value c =
     (let out = copy_at 0 (to_be_bytes (rc_schema_version c)) (replicate RUNTIME_CONFIG_VALUE_LEN 0);
          out = runtime_target_bytes c out;
          out = runtime_listener_bytes (rc_listener c) out
      in and_then (map_err (\<lambda>e. Operation ''runtime-config:idle-ttl'' (config_error_message e))
                    (bpf_duration_nanos (rc_idle_ttl c))) (\<lambda>ttl.
         and_then (map_err (\<lambda>e. Operation ''runtime-config:terminal-grace'' (config_error_message e))
                    (bpf_duration_nanos (rc_tcp_terminal_grace c))) (\<lambda>grace.
           let out = copy_at 48 (to_le_bytes ttl) out;
               out = copy_at 56 (to_le_bytes grace) out
           in Inr (copy_at 64 (to_le_bytes (of_nat (rc_active_flow_capacity c) :: u32)) out))))"

definition aya_set_runtime_config ::
    "('h, 'l, 'k) aya \<Rightarrow> runtime_config \<Rightarrow> (('h, 'l, 'k) aya_tc, unit) action" where
  "aya_set_runtime_config K c s =
     (case runtime_config_value c of
        Inl e \<Rightarrow> (Inl e, s)
      | Inr val \<Rightarrow>
          on_loaded s (\<lambda>h. with_runtime_map K h (\<lambda>k.
            case ay_array_set K h RUNTIME_CONFIG_MAP_NAME_V3 0 val k of
              (r, k) \<Rightarrow> (map_err (map_error K) r, k))))"

definition read_counter :: "('h, 'l, 'k) aya \<Rightarrow> 'h \<Rightarrow> u32 \<Rightarrow> ('k, u64) action" where
  "read_counter K h i k =
     (case ay_array_get K h COUNTERS_MAP_NAME_V1 i k of
        (Inl e, k) \<Rightarrow> (Inl (map_error K e), k)
      | (Inr v, k) \<Rightarrow> (Inr (from_le_bytes v), k))"

definition aya_read_counters ::
    "('h, 'l, 'k) aya \<Rightarrow> (('h, 'l, 'k) aya_tc, bpf_counters) action" where
  "aya_read_counters K s =
     on_loaded s (\<lambda>h. with_counters_map K h (
       bind_act (read_counter K h 0) (\<lambda>misses.
       bind_act (read_counter K h 1) (\<lambda>failures.
       bind_act (read_counter K h 2) (\<lambda>bypasses.
         ret \<lparr>bc_target_misses = misses, bc_flow_insert_failures = failures,
              bc_control_bypasses = bypasses\<rparr>)))))"

definition aya_map_maxima :: "('h, 'l, 'k) aya_tc \<Rightarrow> map_maxima" where
  "aya_map_maxima s = (case tc_state s of None \<Rightarrow> map_maxima_default | Some st \<Rightarrow> as_maxima st)"

definition aya_adapter :: "('h, 'l, 'k) aya \<Rightarrow> ('h, 'l, 'k) aya_tc adapter" where
  "aya_adapter K =
     \<lparr>ad_load_elf = aya_load_elf K, ad_attach = aya_attach K, ad_detach = aya_detach K,
      ad_list_entries = aya_list_entries K, ad_get_entry = aya_get_entry K,
      ad_delete_entry = aya_delete_entry K, ad_list_flow_states = aya_list_flow_states K,
      ad_delete_flow = aya_delete_flow K, ad_set_runtime_config = aya_set_runtime_config K,
      ad_read_counters = aya_read_counters K, ad_map_maxima = aya_map_maxima\<rparr>"

section \<open>Links: the adapter contract\<close>

definition aya_links :: "('h, 'l, 'k) aya_tc \<Rightarrow> attachment set" where
  "aya_links s = (case tc_state s of None \<Rightarrow> {} | Some st \<Rightarrow> al_attachment ` set (as_links st))"

definition aya_inv :: "('h, 'l, 'k) aya_tc \<Rightarrow> bool" where
  "aya_inv s \<longleftrightarrow>
     (case tc_state s of None \<Rightarrow> True | Some st \<Rightarrow> distinct (map al_attachment (as_links st)))"

lemma position_Some:
  "position P xs = Some i \<Longrightarrow> i < length xs \<and> P (xs ! i)"
  by (induction xs arbitrary: i) (auto split: if_splits)

lemma position_None: "position P xs = None \<longleftrightarrow> (\<forall>x \<in> set xs. \<not> P x)"
  by (induction xs) auto

lemma map_remove_nth: "map f (remove_nth i xs) = remove_nth i (map f xs)"
  by (simp add: remove_nth_def take_map drop_map)

lemma remove_nth_distinct:
  assumes "distinct xs" "i < length xs"
  shows "distinct (remove_nth i xs)" "set (remove_nth i xs) = set xs - {xs ! i}"
proof -
  have "xs = take i xs @ xs ! i # drop (Suc i) xs"
    using assms(2) by (simp add: id_take_nth_drop [symmetric])
  then have d: "distinct (take i xs @ xs ! i # drop (Suc i) xs)"
    and s: "set xs = set (take i xs @ xs ! i # drop (Suc i) xs)"
    using assms(1) by metis+
  then show "distinct (remove_nth i xs)" "set (remove_nth i xs) = set xs - {xs ! i}"
    by (auto simp: remove_nth_def)
qed

lemma map_insert_remove_nth:
  assumes "i < length xs" "f y = f (xs ! i)"
  shows "map f (insert_nth i y (remove_nth i xs)) = map f xs"
proof -
  have "map f xs = map f (take i xs @ xs ! i # drop (Suc i) xs)"
    using assms(1) by (metis id_take_nth_drop)
  moreover have "min i (length xs) = i" using assms(1) by simp
  ultimately show ?thesis
    using assms by (simp add: insert_nth_def remove_nth_def)
qed

lemma aya_links_set_eq:
  "tc_state s = Some st \<Longrightarrow> aya_links s = set (map al_attachment (as_links st))"
  by (simp add: aya_links_def)

lemma load_object_links:
  assumes "tc_state s = None \<or> (\<exists>st. tc_state s = Some st \<and> as_links st = [])"
  shows "aya_links (snd (load_object K elf s)) = aya_links s"
    and "aya_inv (snd (load_object K elf s))"
  using assms by (auto simp: load_object_def aya_links_def aya_inv_def
      split: prod.splits sum.splits option.splits)

lemma aya_load_elf_links:
  assumes "aya_inv s"
  shows "aya_links (snd (aya_load_elf K elf v s)) = aya_links s"
    and "aya_inv (snd (aya_load_elf K elf v s))"
  using assms load_object_links [of s K elf]
  by (auto simp: aya_load_elf_def split: option.splits)

lemma aya_attach_links:
  assumes "aya_inv s" "aya_attach K i d s = (r, s')"
  shows "aya_inv s' \<and> aya_links s' =
    (if is_ok r then insert \<lparr>at_interface = i, at_direction = d\<rparr> (aya_links s) else aya_links s)"
proof (cases "tc_state s")
  case None
  then show ?thesis using assms by (auto simp: aya_attach_def)
next
  case (Some st)
  let ?a = "\<lparr>at_interface = i, at_direction = d\<rparr>"
  show ?thesis
  proof (cases "?a \<in> al_attachment ` set (as_links st)")
    case True
    then show ?thesis
      using assms Some by (auto simp: aya_attach_def aya_links_def)
  next
    case False
    obtain q k1 where q: "ay_qdisc_add_clsact K i (tc_kernel s) = (q, k1)" by fastforce
    obtain c k2 where c: "attach_classifier K (as_bpf st) (hook_program (tc_wsl_hooks s) d) i d k1
        = (c, k2)" by fastforce
    have "(\<not> is_ok r \<and> (s' = s\<lparr>tc_kernel := k1\<rparr> \<or> s' = s\<lparr>tc_kernel := k2\<rparr>))
      \<or> (is_ok r \<and> (\<exists>l. s' = s\<lparr>tc_kernel := k2, tc_state := Some (st\<lparr>as_links := as_links st @
           [\<lparr>al_attachment = ?a, al_id = l\<rparr>]\<rparr>)\<rparr>))"
      using assms(2) Some False q c
      by (auto simp: aya_attach_def Let_def split: option.splits sum.splits)
    then show ?thesis
      using assms(1) Some False by (auto simp: aya_inv_def aya_links_def)
  qed
qed

lemma aya_detach_cases:
  assumes "tc_state s = Some st"
    and "position (\<lambda>x. al_attachment x = \<lparr>at_interface = i, at_direction = d\<rparr>) (as_links st) = Some n"
  defines "rm \<equiv> remove_nth n (as_links st)"
  shows "tc_state (snd (aya_detach K i d s)) = Some (st\<lparr>as_links := rm\<rparr>)
    \<or> (\<not> is_ok (fst (aya_detach K i d s)) \<and> (\<exists>x. al_attachment x = al_attachment (as_links st ! n)
         \<and> tc_state (snd (aya_detach K i d s)) = Some (st\<lparr>as_links := insert_nth n x rm\<rparr>)))"
proof -
  let ?p = "hook_program (tc_wsl_hooks s) d"
  obtain t k1 where t: "ay_take_link K (as_bpf st) ?p (al_id (as_links st ! n)) (tc_kernel s) = (t, k1)"
    by fastforce
  show ?thesis
  proof (cases "ay_has_program K (as_bpf st) ?p \<and> is_ok (ay_classifier K (as_bpf st) ?p) \<and> is_ok t")
    case False
    then show ?thesis
      using assms(1,2) t by (auto simp: aya_detach_def rm_def Let_def split: sum.splits)
  next
    case True
    then obtain u x where x: "ay_classifier K (as_bpf st) ?p = Inr u" "t = Inr x"
      by (auto simp: is_ok_iff)
    obtain q k2 where q: "ay_link_detach K x k1 = (q, k2)" by fastforce
    have "\<exists>y. al_attachment y = al_attachment (as_links st ! n)
        \<and> tc_state (snd (aya_detach K i d s)) = Some (st\<lparr>as_links := insert_nth n y rm\<rparr>)"
      if "q = Inl e" for e
      using assms(1,2) True x t q that
      by (intro exI [of _ "\<lparr>al_attachment = al_attachment (as_links st ! n), al_id = x\<rparr>"])
         (simp add: aya_detach_def rm_def Let_def)
    then show ?thesis
      using assms(1,2) True x t q by (cases q) (auto simp: aya_detach_def rm_def Let_def)
  qed
qed

lemma aya_detach_links:
  assumes "aya_inv s" "aya_detach K i d s = (r, s')"
  defines "l \<equiv> \<lparr>at_interface = i, at_direction = d\<rparr>"
  shows "aya_inv s' \<and> aya_links s' \<subseteq> aya_links s \<and> aya_links s - {l} \<subseteq> aya_links s'
    \<and> (is_ok r \<longrightarrow> aya_links s' = aya_links s - {l})"
proof (cases "tc_state s")
  case None
  then show ?thesis using assms by (auto simp: aya_detach_def)
next
  case (Some st)
  show ?thesis
  proof (cases "position (\<lambda>x. al_attachment x = l) (as_links st)")
    case None
    then show ?thesis using assms Some by (auto simp: aya_detach_def)
  next
    case pos: (Some n)
    let ?ls = "as_links st" and ?rm = "remove_nth n (as_links st)"
    have n: "n < length ?ls" "al_attachment (?ls ! n) = l" using position_Some [OF pos] by auto
    have dis: "distinct (map al_attachment ?ls)" using assms(1) Some by (simp add: aya_inv_def)
    have rm: "distinct (map al_attachment ?rm)"
      "set (map al_attachment ?rm) = set (map al_attachment ?ls) - {l}"
      using remove_nth_distinct [OF dis, of n] n by (simp_all add: map_remove_nth)
    have keep: "map al_attachment (insert_nth n x ?rm) = map al_attachment ?ls"
      if "al_attachment x = l" for x :: "'b aya_link"
      using map_insert_remove_nth [OF n(1), of al_attachment x] n(2) that by simp
    have "tc_state s' = Some (st\<lparr>as_links := ?rm\<rparr>)
      \<or> (\<not> is_ok r \<and> (\<exists>x. al_attachment x = l
           \<and> tc_state s' = Some (st\<lparr>as_links := insert_nth n x ?rm\<rparr>)))"
      using aya_detach_cases [OF Some pos [unfolded l_def], of K] n(2) assms(2)
      unfolding l_def by auto
    then show ?thesis
      using rm dis keep Some by (auto simp: aya_inv_def aya_links_set_eq simp del: set_map)
  qed
qed

interpretation aya: tc_adapter "aya_adapter K" aya_inv aya_links for K
proof (unfold_locales, goal_cases)
  case (1 a elf v)
  then show ?case by (simp add: aya_adapter_def aya_load_elf_links)
next
  case (2 a elf v)
  then show ?case by (simp add: aya_adapter_def aya_load_elf_links)
next
  case (3 a i d)
  then show ?case
    using aya_attach_links [OF 3 surjective_pairing, of K i d] by (simp add: aya_adapter_def)
next
  case (4 a i d u a')
  then show ?case
    using aya_attach_links [of a K i d "Inr u" a'] by (simp add: aya_adapter_def)
next
  case (5 a i d e a')
  then show ?case
    using aya_attach_links [of a K i d "Inl e" a'] by (simp add: aya_adapter_def)
next
  case (6 a i d)
  then show ?case
    using aya_detach_links [OF 6 surjective_pairing, of K i d] by (simp add: aya_adapter_def)
next
  case (7 a i d u a')
  then show ?case
    using aya_detach_links [of a K i d "Inr u" a'] by (simp add: aya_adapter_def)
next
  case (8 a i d e a')
  then show ?case
    using aya_detach_links [of a K i d "Inl e" a'] by (simp add: aya_adapter_def)
next
  case (9 a c)
  then show ?case
    by (simp add: aya_adapter_def aya_set_runtime_config_def on_loaded_def aya_inv_def
        split: sum.splits option.splits prod.splits)
qed

section \<open>A quiet kernel\<close>

text \<open>A kernel without concurrent packets: maps as association lists, with the documented
  results of the map calls (a missing key is an error of its own, \<open>BPF_NOEXIST\<close> refuses an
  existing key). Attaching to a listed interface and direction fails. It instantiates the
  library record when the definitions are evaluated.\<close>

record quiet_kernel =
  qk_maps :: "string \<Rightarrow> (bytes \<times> bytes) list"
  qk_queue :: "bytes list"
  qk_config :: "bytes option"
  qk_next_link :: nat
  qk_refused :: "attachment list"
  qk_now :: u64

definition quiet_start :: quiet_kernel where
  "quiet_start =
     \<lparr>qk_maps = (\<lambda>_. []), qk_queue = [], qk_config = None, qk_next_link = 0, qk_refused = [],
      qk_now = 0\<rparr>"

definition quiet_insert ::
    "string \<Rightarrow> bytes \<Rightarrow> bytes \<Rightarrow> u64 \<Rightarrow> quiet_kernel \<Rightarrow> (map_error + unit) \<times> quiet_kernel" where
  "quiet_insert name key val flags k =
     (if flags = BPF_NOEXIST \<and> map_of (qk_maps k name) key \<noteq> None
      then (Inl (OtherMapError ''exists''), k)
      else (Inr (), k\<lparr>qk_maps := (qk_maps k)(name :=
              (key, val) # filter (\<lambda>(x, _). x \<noteq> key) (qk_maps k name))\<rparr>))"

definition quiet_remove ::
    "string \<Rightarrow> bytes \<Rightarrow> quiet_kernel \<Rightarrow> (map_error + unit) \<times> quiet_kernel" where
  "quiet_remove name key k =
     (if map_of (qk_maps k name) key = None then (Inl KeyNotFound, k)
      else (Inr (), k\<lparr>qk_maps := (qk_maps k)(name :=
              filter (\<lambda>(x, _). x \<noteq> key) (qk_maps k name))\<rparr>))"

definition quiet_aya :: "(unit, nat, quiet_kernel) aya" where
  "quiet_aya =
     \<lparr>ay_load_file = (\<lambda>_ k. (Inr (), k)),
      ay_has_program = (\<lambda>_ name. name \<in> {INGRESS_PROGRAM_NAME_V3, EGRESS_PROGRAM_NAME_V3}),
      ay_classifier = (\<lambda>_ _. Inr ()), ay_program_load = (\<lambda>_ _ k. (Inr (), k)),
      ay_has_map = (\<lambda>_ name. name \<notin> {''ssp_destination_policy_map_v1'', ''ssp_runtime_config_v1''}),
      ay_map_typed = (\<lambda>_ _. Inr ()), ay_map_info = (\<lambda>_ _. Some (Inr 16384)),
      ay_qdisc_add_clsact = (\<lambda>_ k. (Inr (), k)),
      ay_attach = (\<lambda>_ _ i d k.
        if \<lparr>at_interface = i, at_direction = d\<rparr> \<in> set (qk_refused k) then (Inl ''refused'', k)
        else (Inr (qk_next_link k), k\<lparr>qk_next_link := qk_next_link k + 1\<rparr>)),
      ay_take_link = (\<lambda>_ _ l k. (Inr l, k)), ay_link_detach = (\<lambda>_ k. (Inr (), k)),
      ay_map_get = (\<lambda>_ name key k.
        (case map_of (qk_maps k name) key of None \<Rightarrow> Inl KeyNotFound | Some v \<Rightarrow> Inr v, k)),
      ay_map_insert = (\<lambda>_. quiet_insert), ay_map_remove = (\<lambda>_. quiet_remove),
      ay_map_iter = (\<lambda>_ name k. (map Inr (qk_maps k name), k)),
      ay_queue_push = (\<lambda>_ _ v k. (Inr (), k\<lparr>qk_queue := qk_queue k @ [v]\<rparr>)),
      ay_array_get = (\<lambda>_ _ _ k. (Inr (replicate 8 0), k)),
      ay_array_set = (\<lambda>_ _ _ v k. (Inr (), k\<lparr>qk_config := Some v\<rparr>)),
      ay_clock_gettime = (\<lambda>k. (Some (0, qk_now k), k)),
      ay_show_map_error = (\<lambda>e. case e of KeyNotFound \<Rightarrow> ''key not found''
        | ElementNotFound \<Rightarrow> ''element not found'' | OtherMapError m \<Rightarrow> m)\<rparr>"

definition quiet_tc :: "attachment list \<Rightarrow> (unit, nat, quiet_kernel) aya_tc" where
  "quiet_tc refused =
     \<lparr>tc_state = Some \<lparr>as_elf = ''ssp.o'', as_bpf = (), as_links = [], as_maxima = map_maxima_default\<rparr>,
      tc_wsl_hooks = False, tc_kernel = quiet_start\<lparr>qk_refused := refused\<rparr>\<rparr>"

lemmas quiet_eval =
  linux_attach_def with_adapter_def quiet_tc_def aya_adapter_def aya_load_elf_def
  required_links_def aya_attach_def attach_classifier_def hook_program_def quiet_aya_def
  quiet_start_def aya_detach_def remove_nth_def

section \<open>Properties\<close>

text \<open>attaching with the production backend is transactional whatever the kernel does: when
  it fails, the backend still owns the links it owned before, and the adapter's own links are
  back to what they were unless the error itself says that the rollback was incomplete.\<close>

theorem linux_attach_transaction:
  assumes "linux_attach ex (aya_adapter K) elf ifs s = (Inl e, s')"
    and "aya_inv (lx_adapter s)" "aya_links (lx_adapter s) \<subseteq> set (lx_attachments s)"
  shows "lx_attachments s' = lx_attachments s
    \<and> (aya_links (lx_adapter s') = aya_links (lx_adapter s) \<or> rollback_incomplete e)"
  by (rule aya.linux_attach_restores [OF assms])

theorem linux_attach_transaction_witness:
  "let s = with_adapter (quiet_tc [\<lparr>at_interface = ''eth0'', at_direction = Egress\<rparr>]);
       (r, s') = linux_attach (\<lambda>_. True) (aya_adapter quiet_aya) ''ssp.o'' [''eth0''] s
   in \<exists>e. r = Inl e \<and> lx_attachments s' = []
        \<and> (aya_links (lx_adapter s') = {} \<or> rollback_incomplete e)"
proof -
  let ?s = "with_adapter (quiet_tc [\<lparr>at_interface = ''eth0'', at_direction = Egress\<rparr>])"
  let ?r = "linux_attach (\<lambda>_. True) (aya_adapter quiet_aya) ''ssp.o'' [''eth0''] ?s"
  have "\<not> is_ok (fst ?r)" by (simp add: quiet_eval)
  then obtain e s' where r: "?r = (Inl e, s')"
    by (metis is_ok_simps(2) prod.collapse sum.exhaust)
  have "aya_inv (lx_adapter ?s)" "aya_links (lx_adapter ?s) = {}" "lx_attachments ?s = []"
    by (simp_all add: with_adapter_def quiet_tc_def aya_inv_def aya_links_def)
  then show ?thesis
    using linux_attach_transaction [OF r] r by simp
qed

text \<open>A successful attach keeps backend and adapter in step: the links the backend owns are
  exactly the adapter's, namely those it had and both directions of every requested
  interface.\<close>

theorem linux_attach_complete:
  assumes "linux_attach ex (aya_adapter K) elf ifs s = (Inr r, s')"
    and "aya_inv (lx_adapter s)" "aya_links (lx_adapter s) = set (lx_attachments s)"
  shows "aya_links (lx_adapter s') = set (lx_attachments s')
    \<and> set (lx_attachments s') = set (lx_attachments s) \<union> set (required_links ifs)"
  by (rule aya.linux_attach_coherent [OF assms])

theorem linux_attach_complete_witness:
  "let (r, s') = linux_attach (\<lambda>_. True) (aya_adapter quiet_aya) ''ssp.o'' [''eth0'']
         (with_adapter (quiet_tc []))
   in is_ok r \<and> set (lx_attachments s') = set (required_links [''eth0''])"
proof -
  let ?s = "with_adapter (quiet_tc [])"
  let ?r = "linux_attach (\<lambda>_. True) (aya_adapter quiet_aya) ''ssp.o'' [''eth0''] ?s"
  have "is_ok (fst ?r)" by (simp add: quiet_eval)
  then obtain r s' where r: "?r = (Inr r, s')"
    by (metis is_ok_iff prod.collapse)
  have "aya_inv (lx_adapter ?s)" "aya_links (lx_adapter ?s) = set (lx_attachments ?s)"
    "lx_attachments ?s = []"
    by (simp_all add: with_adapter_def quiet_tc_def aya_inv_def aya_links_def)
  then show ?thesis
    using linux_attach_complete [OF r] r by simp
qed


end
