(* ===== verification/Log_Ring.thy ===== *)
theory Log_Ring
  imports Prelude "HOL-Library.Sublist"
begin

text \<open>
  \<open>crates/control-service/src/logs.rs\<close>: the bounded log ring with monotonic cursors. The
  mutex makes every call atomic, so the ring is a state passed through the operations.
  \<open>log_inv H st\<close> relates a ring to the history \<open>H\<close> of everything ever appended: the ring
  is a suffix of it. The locale \<open>log_service\<close> is the contract a reader relies on; the
  ring's own operations interpret it.
\<close>

section \<open>Model\<close>

record log_record =
  lr_sequence :: u64
  lr_level :: string
  lr_message :: string

datatype log_error = CursorExpired u64 u64

fun log_error_message :: "log_error \<Rightarrow> string" where
  "log_error_message (CursorExpired cursor oldest) =
     ''log cursor '' @ show_word cursor @ '' is older than retained sequence '' @ show_word oldest"

record log_state =
  ls_capacity :: usize
  ls_next_sequence :: u64
  ls_records :: "log_record list"

text \<open>\<open>None\<close> is the panic of \<open>assert!(capacity > 0)\<close>.\<close>

definition log_ring_new :: "usize \<Rightarrow> log_state option" where
  "log_ring_new capacity =
     (if capacity > 0
      then Some \<lparr>ls_capacity = capacity, ls_next_sequence = 1, ls_records = []\<rparr>
      else None)"

function evict :: "usize \<Rightarrow> log_record list \<Rightarrow> log_record list" where
  "evict capacity records =
     (if length records > capacity then evict capacity (tl records) else records)"
  by auto

termination
  by (relation "measure (\<lambda>(c, rs). length rs)") auto

declare evict.simps [simp del]

definition log_append :: "string \<Rightarrow> string \<Rightarrow> log_state \<Rightarrow> u64 \<times> log_state" where
  "log_append level message st =
     (let sequence = ls_next_sequence st;
          st = st\<lparr>ls_next_sequence := ls_next_sequence st + 1\<rparr>;
          st = st\<lparr>ls_records := ls_records st @
                    [\<lparr>lr_sequence = sequence, lr_level = level, lr_message = message\<rparr>]\<rparr>;
          st = st\<lparr>ls_records := evict (ls_capacity st) (ls_records st)\<rparr>
      in (sequence, st))"

definition log_set_capacity :: "usize \<Rightarrow> log_state \<Rightarrow> log_state" where
  "log_set_capacity capacity st =
     (let st = st\<lparr>ls_capacity := max capacity 1\<rparr>
      in st\<lparr>ls_records := evict (ls_capacity st) (ls_records st)\<rparr>)"

definition log_pull ::
    "u64 \<Rightarrow> usize \<Rightarrow> log_state \<Rightarrow> log_error + (log_record list \<times> u64)" where
  "log_pull cursor limit st =
     (let answer =
        (let records = take limit (filter (\<lambda>r. lr_sequence r > cursor) (ls_records st));
             next_cursor = (if records = [] then cursor else lr_sequence (last records))
         in Inr (records, next_cursor))
      in case ls_records st of
           [] \<Rightarrow> answer
         | r # _ \<Rightarrow>
             if saturating_add_u64 cursor 1 < lr_sequence r
             then Inl (CursorExpired cursor (lr_sequence r))
             else answer)"

text \<open>A sequence of the ring's mutating calls, and the records it appends.\<close>

datatype log_op = Append string string | Resize usize

fun log_run :: "log_op list \<Rightarrow> log_state \<Rightarrow> log_state" where
  "log_run [] st = st"
| "log_run (Append l m # ops) st = log_run ops (snd (log_append l m st))"
| "log_run (Resize n # ops) st = log_run ops (log_set_capacity n st)"

fun appended :: "nat \<Rightarrow> log_op list \<Rightarrow> log_record list" where
  "appended i [] = []"
| "appended i (Append l m # ops) =
     \<lparr>lr_sequence = of_nat (Suc i), lr_level = l, lr_message = m\<rparr> # appended (Suc i) ops"
| "appended i (Resize n # ops) = appended i ops"

section \<open>The history a ring retains\<close>

definition log_history :: "log_record list \<Rightarrow> bool" where
  "log_history H \<longleftrightarrow> length H < 2 ^ 64 - 1
     \<and> (\<forall>i < length H. unat (lr_sequence (H ! i)) = Suc i)"

definition log_inv :: "log_record list \<Rightarrow> log_state \<Rightarrow> bool" where
  "log_inv H st \<longleftrightarrow>
     log_history H \<and> 0 < ls_capacity st \<and> length (ls_records st) \<le> ls_capacity st
     \<and> unat (ls_next_sequence st) = Suc (length H)
     \<and> suffix (ls_records st) H
     \<and> (H \<noteq> [] \<longrightarrow> ls_records st \<noteq> [])"

definition log_lost :: "log_record list \<Rightarrow> log_state \<Rightarrow> nat" where
  "log_lost H st = length H - length (ls_records st)"

locale log_service =
  fixes inv :: "log_record list \<Rightarrow> 's \<Rightarrow> bool"
    and lost :: "log_record list \<Rightarrow> 's \<Rightarrow> nat"
    and append :: "string \<Rightarrow> string \<Rightarrow> 's \<Rightarrow> u64 \<times> 's"
    and resize :: "usize \<Rightarrow> 's \<Rightarrow> 's"
    and pull :: "u64 \<Rightarrow> usize \<Rightarrow> 's \<Rightarrow> log_error + (log_record list \<times> u64)"
  assumes append_inv: "inv H s \<Longrightarrow> length H + 2 < 2 ^ 64 \<Longrightarrow> append l m s = (q, s') \<Longrightarrow>
      unat q = Suc (length H)
      \<and> inv (H @ [\<lparr>lr_sequence = q, lr_level = l, lr_message = m\<rparr>]) s'"
    and resize_inv: "inv H s \<Longrightarrow> inv H (resize n s)"
    and pull_ok: "inv H s \<Longrightarrow> pull c n s = Inr (rs, c') \<Longrightarrow>
      rs = take n (drop (unat c) H) \<and> unat c' = unat c + length rs"
    and pull_expired: "inv H s \<Longrightarrow> is_ok (pull c n s) \<longleftrightarrow> lost H s \<le> unat c"
    and lost_append: "inv H s \<Longrightarrow> length H + 2 < 2 ^ 64 \<Longrightarrow> append l m s = (q, s') \<Longrightarrow>
      lost H s \<le> lost (H @ [\<lparr>lr_sequence = q, lr_level = l, lr_message = m\<rparr>]) s'"
begin

text \<open>A reader that continues from the cursor it was given sees no gap and no repetition,
  whatever was appended between its two reads.\<close>

lemma pull_chain:
  assumes "inv H s" "pull c n s = Inr (rs, c')" "inv (H @ K) s'" "pull c' k s' = Inr (rs', c'')"
  shows "rs @ rs' = take (length rs + k) (drop (unat c) (H @ K))"
proof -
  have rs: "rs = take n (drop (unat c) H)" and c': "unat c' = unat c + length rs"
    using pull_ok [OF assms(1,2)] by auto
  have "rs' = take k (drop (length rs) (drop (unat c) (H @ K)))"
    using pull_ok [OF assms(3,4)] c' by (simp only: drop_drop add.commute)
  moreover have "rs = take (length rs) (drop (unat c) (H @ K))"
    using rs by (auto simp: min_def)
  ultimately show ?thesis by (simp only: take_add)
qed

lemma no_expiry_when_current:
  assumes "inv H s" "lost H s \<le> length H" "unat c = length H"
  shows "pull c n s = Inr ([], c)"
proof -
  obtain rs c' where p: "pull c n s = Inr (rs, c')"
    using assms pull_expired [of H s c n] by (auto simp: is_ok_iff)
  with pull_ok [OF assms(1) p] assms(3) show ?thesis
    by (simp add: word_unat_eq_iff)
qed

end

section \<open>The ring implements the contract\<close>

lemma evict_eq: "evict c rs = drop (length rs - c) rs"
proof (induction c rs rule: evict.induct)
  case (1 c rs)
  show ?case
  proof (cases "length rs > c")
    case True
    then obtain r rs' where "rs = r # rs'" by (cases rs) auto
    with 1 True show ?thesis
      by (simp add: evict.simps [of c "r # rs'"] Suc_diff_le)
  qed (simp add: evict.simps)
qed

lemma log_history_snoc:
  assumes "log_history H" "length H + 2 < 2 ^ 64" "unat q = Suc (length H)"
  shows "log_history (H @ [\<lparr>lr_sequence = q, lr_level = l, lr_message = m\<rparr>])"
  using assms by (auto simp: log_history_def nth_append)

lemma log_history_filter:
  assumes "log_history H" "k \<le> unat c"
  shows "filter (\<lambda>r. lr_sequence r > c) (drop k H) = drop (unat c) H"
proof -
  have seq: "unat (lr_sequence (H ! i)) = Suc i" if "i < length H" for i
    using assms(1) that by (simp add: log_history_def)
  let ?d = "drop k H"
  have "filter (\<lambda>r. lr_sequence r > c) (take (unat c - k) ?d) = []"
    by (auto simp: filter_empty_conv in_set_conv_nth word_less_nat_alt seq)
  moreover have "filter (\<lambda>r. lr_sequence r > c) (drop (unat c) H) = drop (unat c) H"
    by (auto simp: filter_id_conv in_set_conv_nth word_less_nat_alt seq)
  moreover have "?d = take (unat c - k) ?d @ drop (unat c) H"
    using assms(2) by (metis append_take_drop_id drop_drop le_add_diff_inverse2)
  ultimately show ?thesis by (metis append_Nil filter_append)
qed

lemma log_inv_head:
  assumes "log_inv H st" "ls_records st = r # rs"
  shows "unat (lr_sequence r) = Suc (log_lost H st)" "log_lost H st < length H"
proof -
  have d: "r # rs = drop (log_lost H st) H"
    using assms by (auto simp: log_inv_def log_lost_def suffix_def)
  then show less: "log_lost H st < length H"
    by (metis drop_eq_Nil linorder_not_le list.distinct(1))
  have "r = H ! log_lost H st"
    using d less by (metis hd_drop_conv_nth list.sel(1))
  then show "unat (lr_sequence r) = Suc (log_lost H st)"
    using assms(1) less by (simp add: log_inv_def log_history_def)
qed

lemma log_inv_empty:
  assumes "log_inv H st" "ls_records st = []"
  shows "H = []" "log_lost H st = 0"
  using assms by (auto simp: log_inv_def log_lost_def)

lemma saturating_succ_less_iff:
  assumes "n < 2 ^ 64 - 1" "unat w = Suc n"
  shows "saturating_add_u64 c 1 < w \<longleftrightarrow> unat c < n"
  using assms unat_u64_less [of c]
  by (auto simp: word_less_nat_alt unat_saturating_add_u64 min_def)

lemma log_pull_eq:
  assumes "log_inv H st"
  shows "log_pull c n st =
     (if log_lost H st \<le> unat c
      then let rs = take n (drop (unat c) H)
           in Inr (rs, if rs = [] then c else lr_sequence (last rs))
      else Inl (CursorExpired c (of_nat (Suc (log_lost H st)))))"
proof (cases "ls_records st")
  case Nil
  then show ?thesis
    using log_inv_empty [OF assms Nil] by (simp add: log_pull_def)
next
  case (Cons r rs)
  note head = log_inv_head [OF assms Cons]
  have expired: "saturating_add_u64 c 1 < lr_sequence r \<longleftrightarrow> \<not> log_lost H st \<le> unat c"
    using head assms by (subst saturating_succ_less_iff [of "log_lost H st"])
      (auto simp: log_inv_def log_history_def)
  have records: "ls_records st = drop (log_lost H st) H" and hist: "log_history H"
    using assms by (auto simp: log_inv_def log_lost_def suffix_def)
  have answer: "filter (\<lambda>r. lr_sequence r > c) (ls_records st) = drop (unat c) H"
    if "log_lost H st \<le> unat c"
    unfolding records by (rule log_history_filter [OF hist that])
  have "of_nat (Suc (log_lost H st)) = lr_sequence r"
    using head(1) by (metis of_nat_unat ucast_id)
  then show ?thesis
    using expired answer Cons by (simp add: log_pull_def Let_def)
qed

lemma suffix_evict: "suffix (evict c rs) rs"
  by (simp add: evict_eq suffix_drop)

lemma length_evict: "length (evict c rs) = min (length rs) c"
  by (simp add: evict_eq)

lemma log_inv_append:
  assumes "log_inv H st" "length H + 2 < 2 ^ 64" "log_append l m st = (q, st')"
  defines "r \<equiv> \<lparr>lr_sequence = q, lr_level = l, lr_message = m\<rparr>"
  shows "unat q = Suc (length H)" "log_inv (H @ [r]) st'"
    and "log_lost H st \<le> log_lost (H @ [r]) st'"
proof -
  have st': "q = ls_next_sequence st" "ls_capacity st' = ls_capacity st"
    "ls_next_sequence st' = q + 1" "ls_records st' = evict (ls_capacity st) (ls_records st @ [r])"
    using assms(3) by (auto simp: log_append_def Let_def r_def)
  show q: "unat q = Suc (length H)"
    using assms(1) st' by (simp add: log_inv_def)
  have "unat (q + 1) = Suc (unat q)"
    using q assms(2) by (simp add: unat_word_ariths)
  moreover have "suffix (ls_records st') (H @ [r])"
    using assms(1) suffix_evict [of "ls_capacity st" "ls_records st @ [r]"]
    by (auto simp: st' log_inv_def intro: suffix_order.trans)
  moreover have "length (ls_records st') = min (Suc (length (ls_records st))) (ls_capacity st)"
    by (simp add: st' length_evict)
  ultimately show "log_inv (H @ [r]) st'"
    using assms(1,2) q st' log_history_snoc [of H q l m]
    by (auto simp: log_inv_def r_def simp flip: length_greater_0_conv)
  show "log_lost H st \<le> log_lost (H @ [r]) st'"
    by (simp add: log_lost_def st' length_evict)
qed

lemma log_inv_set_capacity:
  assumes "log_inv H st"
  shows "log_inv H (log_set_capacity n st)"
proof -
  have "length (evict (max n 1) (ls_records st)) = min (length (ls_records st)) (max n 1)"
    by (simp add: length_evict)
  then show ?thesis
    using assms suffix_evict [of "max n 1" "ls_records st"]
    by (auto simp: log_inv_def log_set_capacity_def Let_def evict_eq
        intro: suffix_order.trans simp flip: length_greater_0_conv)
qed

lemma log_pull_next_cursor:
  assumes "log_history H" "rs = take n (drop (unat c) H)"
  shows "unat (if rs = [] then c else lr_sequence (last rs)) = unat c + length rs"
proof (cases "rs = []")
  case False
  let ?i = "unat c + length rs - 1"
  have "?i < length H" "last rs = H ! ?i"
    using assms False by (auto simp: last_conv_nth min_def)
  then show ?thesis
    using assms(1) False by (simp add: log_history_def)
qed simp

interpretation ring: log_service log_inv log_lost log_append log_set_capacity log_pull
proof (unfold_locales, goal_cases)
  case (1 H s l m q s')
  then show ?case using log_inv_append by blast
next
  case (2 H s n)
  then show ?case by (rule log_inv_set_capacity)
next
  case (3 H s c n rs c')
  then show ?case
    using log_pull_next_cursor [of H rs n c]
    by (auto simp: log_pull_eq Let_def log_inv_def split: if_splits)
next
  case (4 H s c n)
  then show ?case by (simp add: log_pull_eq Let_def)
next
  case (5 H s l m q s')
  then show ?case using log_inv_append by blast
qed

lemma appended_append:
  "appended i (ops @ ops') = appended i ops @ appended (i + length (appended i ops)) ops'"
  by (induction i ops rule: appended.induct) auto

lemma log_run_append: "log_run (ops @ ops') st = log_run ops' (log_run ops st)"
  by (induction ops st rule: log_run.induct) auto

lemma log_run_inv:
  assumes "log_inv H st" "length H + length (appended (length H) ops) + 1 < 2 ^ 64"
  shows "log_inv (H @ appended (length H) ops) (log_run ops st)"
  using assms
proof (induction ops st arbitrary: H rule: log_run.induct)
  case (2 l m ops st)
  obtain q st' where a: "log_append l m st = (q, st')" by fastforce
  let ?r = "\<lparr>lr_sequence = q, lr_level = l, lr_message = m\<rparr>"
  have "unat q = Suc (length H)" "log_inv (H @ [?r]) st'"
    using log_inv_append [OF 2(2) _ a] 2(3) by auto
  moreover from this have "q = of_nat (Suc (length H))"
    by (metis of_nat_unat ucast_id)
  ultimately show ?case
    using 2(1) [of "H @ [?r]"] 2(3) a by simp
qed (use ring.resize_inv in auto)

lemma log_new_inv: "log_ring_new cap = Some st \<Longrightarrow> log_inv [] st"
  by (auto simp: log_ring_new_def log_inv_def log_history_def split: if_splits)

lemma log_trace_inv:
  assumes "log_ring_new cap = Some st" "length (appended 0 ops) + 1 < 2 ^ 64"
  shows "log_inv (appended 0 ops) (log_run ops st)"
  using log_run_inv [OF log_new_inv [OF assms(1)], of ops] assms(2) by simp

section \<open>Properties\<close>

text \<open>C33: after any sequence of appends and capacity changes a pull returns exactly the
  records of the full history that follow the cursor, up to the limit and without a gap, and
  it fails with the cursor and the oldest retained sequence exactly when the record after the
  cursor has already been evicted.\<close>

theorem log_pull_trace:
  assumes "log_ring_new cap = Some st0" "length (appended 0 ops) + 1 < 2 ^ 64"
  defines "H \<equiv> appended 0 ops" and "st \<equiv> log_run ops st0"
  shows "log_pull c n st =
     (let lost = length H - length (ls_records st); rs = take n (drop (unat c) H)
      in if lost \<le> unat c then Inr (rs, if rs = [] then c else lr_sequence (last rs))
         else Inl (CursorExpired c (of_nat (Suc lost))))
     \<and> length (ls_records st) \<le> ls_capacity st"
  using log_trace_inv [OF assms(1,2)] log_pull_eq [of H st c n]
  by (simp add: H_def st_def log_lost_def Let_def log_inv_def)

theorem log_pull_trace_witness:
  "log_pull 1 5 (log_run [Append ''I'' ''a'', Append ''I'' ''b'', Append ''I'' ''c'']
      \<lparr>ls_capacity = 2, ls_next_sequence = 1, ls_records = []\<rparr>) =
   Inr ([\<lparr>lr_sequence = 2, lr_level = ''I'', lr_message = ''b''\<rparr>,
         \<lparr>lr_sequence = 3, lr_level = ''I'', lr_message = ''c''\<rparr>], 3)"
  using log_pull_trace [of 2 "\<lparr>ls_capacity = 2, ls_next_sequence = 1, ls_records = []\<rparr>"
      "[Append ''I'' ''a'', Append ''I'' ''b'', Append ''I'' ''c'']" 1 5]
  by (simp add: log_ring_new_def log_append_def evict_eq Let_def)

text \<open>A client that reads, lets any number of further appends and capacity changes happen
  and reads again from the returned cursor has received consecutive records of the history:
  nothing between the two reads is skipped and nothing is delivered twice.\<close>

theorem log_reader_no_gap:
  assumes "log_ring_new cap = Some st0" "length (appended 0 (ops @ ops')) + 1 < 2 ^ 64"
    and "log_pull c n (log_run ops st0) = Inr (rs, c')"
    and "log_pull c' k (log_run (ops @ ops') st0) = Inr (rs', c'')"
  shows "rs @ rs' = take (length rs + k) (drop (unat c) (appended 0 (ops @ ops')))"
proof -
  have "log_inv (appended 0 ops) (log_run ops st0)"
    using assms(2) by (intro log_trace_inv [OF assms(1)]) (simp add: appended_append)
  moreover have "log_inv (appended 0 ops @ appended (length (appended 0 ops)) ops')
      (log_run (ops @ ops') st0)"
    using log_trace_inv [OF assms(1,2)] by (simp add: appended_append)
  ultimately show ?thesis
    using ring.pull_chain [OF _ assms(3) _ assms(4)] by (simp add: appended_append)
qed

theorem log_reader_no_gap_witness:
  "[\<lparr>lr_sequence = 1, lr_level = ''I'', lr_message = ''a''\<rparr>] @
   [\<lparr>lr_sequence = 2, lr_level = ''I'', lr_message = ''b''\<rparr>] =
   take (1 + 1) (drop (unat (0 :: u64)) (appended 0 [Append ''I'' ''a'', Append ''I'' ''b'']))"
  using log_reader_no_gap [of 4 "\<lparr>ls_capacity = 4, ls_next_sequence = 1, ls_records = []\<rparr>"
      "[Append ''I'' ''a'']" "[Append ''I'' ''b'']" 0 1
      "[\<lparr>lr_sequence = 1, lr_level = ''I'', lr_message = ''a''\<rparr>]" 1 1
      "[\<lparr>lr_sequence = 2, lr_level = ''I'', lr_message = ''b''\<rparr>]" 2]
  by (simp add: log_ring_new_def log_append_def log_pull_def evict_eq saturating_add_u64_def Let_def)

end
