(* ===== verification/Proto.thy ===== *)
theory Proto
  imports Net
begin

text \<open>
  The messages of \<open>crates/proto/control.proto\<close>, which control service and host proxy
  exchange: one record per message with the proto3 field types (\<open>bytes\<close>, \<open>uint32\<close>,
  \<open>uint64\<close>; a message-valued field is optional). The generated codec and the transport
  carry them unchanged. A gRPC status is its code and message.
\<close>

datatype code =
    Cancelled
  | Unknown
  | InvalidArgument
  | DeadlineExceeded
  | NotFound
  | AlreadyExists
  | PermissionDenied
  | ResourceExhausted
  | FailedPrecondition
  | Aborted
  | OutOfRange
  | Unimplemented
  | Internal
  | Unavailable
  | DataLoss
  | Unauthenticated

datatype status = Status code string

record interface_request =
  irq_elf_path :: string
  irq_interfaces :: "string list"

record detach_request =
  drq_interfaces :: "string list"
  drq_all :: bool

record operation_reply =
  op_success :: bool
  op_message :: string
  op_failures :: "string list"

record proto_tuple =
  pt_family :: u32
  pt_source_address :: bytes
  pt_destination_address :: bytes
  pt_protocol :: u32
  pt_source_port :: u32
  pt_destination_port :: u32

record proto_mapping =
  pm_synthetic :: "proto_tuple option"
  pm_original :: "proto_tuple option"
  pm_last_seen_ns :: u64
  pm_protocol_flags :: u32
  pm_tcp_state_flags :: u32

record list_mappings_request =
  lmq_limit :: u32
  lmq_page_token :: bytes

record list_mappings_reply =
  lmr_mappings :: "proto_mapping list"
  lmr_next_page_token :: bytes
  lmr_skipped_entries :: u64

record proto_flow =
  pf_flow_id :: u64
  pf_generation :: u32
  pf_synthetic :: "proto_tuple option"
  pf_original :: "proto_tuple option"
  pf_protocol :: u32
  pf_last_used_ns :: u64
  pf_tcp_state_flags :: u32
  pf_protocol_flags :: u32
  pf_observed_now_ns :: u64
  pf_fin_seen_mask :: u32
  pf_fin_ack_seen_mask :: u32

record enumerate_flows_request =
  efq_limit :: u32
  efq_page_token :: bytes

record enumerate_flows_reply =
  efr_flows :: "proto_flow list"
  efr_next_page_token :: bytes

record delete_flow_request =
  dfq_flow_id :: u64
  dfq_generation :: u32
  dfq_observed_last_used_ns :: u64

datatype delete_outcome =
    OutcomeComplete
  | OutcomeAlreadyAbsent
  | OutcomeStaleGeneration
  | OutcomePartial
  | OutcomeObservationMismatch

fun outcome_as_i32 :: "delete_outcome \<Rightarrow> int" where
  "outcome_as_i32 OutcomeComplete = 0"
| "outcome_as_i32 OutcomeAlreadyAbsent = 1"
| "outcome_as_i32 OutcomeStaleGeneration = 2"
| "outcome_as_i32 OutcomePartial = 3"
| "outcome_as_i32 OutcomeObservationMismatch = 4"

definition outcome_try_from :: "int \<Rightarrow> delete_outcome option" where
  "outcome_try_from n =
     (if n = 0 then Some OutcomeComplete
      else if n = 1 then Some OutcomeAlreadyAbsent
      else if n = 2 then Some OutcomeStaleGeneration
      else if n = 3 then Some OutcomePartial
      else if n = 4 then Some OutcomeObservationMismatch
      else None)"

record delete_flow_reply =
  dfr_outcome :: int
  dfr_flow_id :: u64
  dfr_generation :: u32
  dfr_indexes_deleted :: u32
  dfr_state_deleted :: bool
  dfr_retryable :: bool

record status_reply =
  sr_ready :: bool
  sr_abi_version :: u32
  sr_attachments :: "string list"
  sr_target_misses :: u64
  sr_flow_insert_failures :: u64
  sr_control_bypasses :: u64
  sr_flow_index_map_max_entries :: u32
  sr_flow_state_map_max_entries :: u32

record proto_config =
  pc_idle_ttl_ms :: u64
  pc_log_capacity :: u32
  pc_active_flow_capacity :: u32
  pc_tcp_terminal_grace_ms :: u64
  pc_schema_version :: u32
  pc_ipv4_target_address :: bytes
  pc_ipv4_target_port :: u32
  pc_ipv6_target_address :: bytes
  pc_ipv6_target_port :: u32
  pc_listener_family :: u32
  pc_listener_address :: bytes
  pc_listener_port :: u32
  pc_listener_ipv4_wildcard :: bool
  pc_listener_ipv6_wildcard :: bool

record config_reply =
  cfr_revision :: u64
  cfr_config :: "proto_config option"

record pull_logs_request =
  plq_cursor :: u64
  plq_limit :: u32

record proto_log_record =
  pl_sequence :: u64
  pl_level :: string
  pl_message :: string

record pull_logs_reply =
  plr_records :: "proto_log_record list"
  plr_next_cursor :: u64

record health_reply =
  hr_live :: bool
  hr_ready :: bool

lemma outcome_round_trip [simp]: "outcome_try_from (outcome_as_i32 x) = Some x"
  by (cases x) (simp_all add: outcome_try_from_def)

end
