(* ===== verification/Control_Service.thy ===== *)
theory Control_Service
  imports Aya_Adapter Log_Ring Proto
begin

text \<open>
  \<open>crates/control-service/src/service.rs\<close>: the gRPC handlers and the conversions between the
  messages and the BPF types. A handler is a function of the backend's method record \<open>B\<close>,
  the request and the service state, and returns the reply or status with the new state.
  The configuration lock serialises \<open>attach\<close> and \<open>set_config\<close>, so each is one transition.
  Readings of the monotonic clock are arguments (\<open>now\<close>, \<open>observed_now\<close>), in the order the
  code takes them; the instance nonce is part of the state. Console output is not modelled.
\<close>

section \<open>State and cursors\<close>

definition FLOW_DELETE_GUARD_TTL_NS :: u64 where "FLOW_DELETE_GUARD_TTL_NS = 1000000000"

record 's service =
  sv_backend :: 's
  sv_config :: config_store
  sv_logs :: log_state
  sv_ready :: bool
  sv_token_nonce :: u64

definition service_new :: "'s \<Rightarrow> config_store \<Rightarrow> log_state \<Rightarrow> u64 \<Rightarrow> 's service" where
  "service_new backend config logs nonce =
     \<lparr>sv_backend = backend, sv_config = config, sv_logs = logs, sv_ready = False,
      sv_token_nonce = nonce\<rparr>"

text \<open>A freshly started service over a given backend state: the default configuration and an
  empty log of four records.\<close>

definition sample_service :: "'s \<Rightarrow> 's service" where
  "sample_service backend = service_new backend
     \<lparr>cs_current = runtime_config_default, cs_next_revision = 2, cs_maxima = map_maxima_default\<rparr>
     \<lparr>ls_capacity = 4, ls_next_sequence = 1, ls_records = []\<rparr> 5"

definition set_ready :: "bool \<Rightarrow> 's service \<Rightarrow> 's service" where
  "set_ready ready s = s\<lparr>sv_ready := ready\<rparr>"

definition log_event :: "string \<Rightarrow> string \<Rightarrow> 's service \<Rightarrow> 's service" where
  "log_event level message s = s\<lparr>sv_logs := snd (log_append level message (sv_logs s))\<rparr>"

record flow_cursor =
  fc_nonce :: u64
  fc_issued_ns :: u64
  fc_flow_id :: u64
  fc_generation :: u32

definition cursor_encode :: "flow_cursor \<Rightarrow> bytes" where
  "cursor_encode c =
     to_be_bytes (fc_nonce c) @ to_be_bytes (fc_issued_ns c) @ to_be_bytes (fc_flow_id c)
     @ to_be_bytes (fc_generation c) @ replicate 4 0"

definition cursor_decode :: "bytes \<Rightarrow> status + flow_cursor" where
  "cursor_decode bs =
     (if length bs \<noteq> 32 then Inl (Status InvalidArgument ''invalid flow page token'')
      else Inr \<lparr>fc_nonce = from_be_bytes (slice 0 8 bs), fc_issued_ns = from_be_bytes (slice 8 16 bs),
                fc_flow_id = from_be_bytes (slice 16 24 bs),
                fc_generation = from_be_bytes (slice 24 28 bs)\<rparr>)"

fun map_backend_error :: "backend_error \<Rightarrow> status" where
  "map_backend_error (MissingElf p) =
     Status InvalidArgument (backend_error_message (MissingElf p))"
| "map_backend_error (InvalidInterface i) =
     Status InvalidArgument (backend_error_message (InvalidInterface i))"
| "map_backend_error (AbiMismatch v) =
     Status FailedPrecondition (backend_error_message (AbiMismatch v))"
| "map_backend_error Unsupported = Status FailedPrecondition (backend_error_message Unsupported)"
| "map_backend_error NotAttached = Status FailedPrecondition (backend_error_message NotAttached)"
| "map_backend_error (Operation l m) = Status Internal (backend_error_message (Operation l m))"
| "map_backend_error FlowCapacity = Status ResourceExhausted (backend_error_message FlowCapacity)"
| "map_backend_error (PartialCleanup m) = Status Aborted (backend_error_message (PartialCleanup m))"

section \<open>Conversions\<close>

definition tuple_to_proto :: "tuple \<Rightarrow> proto_tuple" where
  "tuple_to_proto t =
     (let (fam, src, dst) =
        (case (t_source t, t_destination t) of
           (V4 s, V4 d) \<Rightarrow> (4, octets (V4 s), octets (V4 d))
         | (V6 s, V6 d) \<Rightarrow> (6, octets (V6 s), octets (V6 d))
         | _ \<Rightarrow> (0, [], []))
      in \<lparr>pt_family = fam, pt_source_address = src, pt_destination_address = dst,
          pt_protocol = ucast (t_protocol t), pt_source_port = ucast (t_source_port t),
          pt_destination_port = ucast (t_destination_port t)\<rparr>)"

definition address_from_proto :: "u32 \<Rightarrow> bytes \<Rightarrow> string \<Rightarrow> status + ip_addr" where
  "address_from_proto fam bs message =
     (if fam = 4 \<and> length bs = 4 then Inr (V4 (from_be_bytes bs))
      else if fam = 6 \<and> length bs = 16 then Inr (V6 (from_be_bytes bs))
      else Inl (Status InvalidArgument message))"

definition tuple_from_proto :: "proto_tuple option \<Rightarrow> status + tuple" where
  "tuple_from_proto p =
     (case p of
        None \<Rightarrow> Inl (Status InvalidArgument ''synthetic tuple is required'')
      | Some t \<Rightarrow>
          and_then (address_from_proto (pt_family t) (pt_source_address t)
                      ''invalid source address/family'') (\<lambda>src.
          and_then (address_from_proto (pt_family t) (pt_destination_address t)
                      ''invalid destination address/family'') (\<lambda>dst.
            if pt_protocol t > 0xFF \<or> pt_source_port t > 0xFFFF \<or> pt_destination_port t > 0xFFFF
            then Inl (Status InvalidArgument ''tuple field is out of range'')
            else
              let t = \<lparr>t_source = src, t_destination = dst, t_protocol = ucast (pt_protocol t),
                       t_source_port = ucast (pt_source_port t),
                       t_destination_port = ucast (pt_destination_port t)\<rparr>
              in and_then (map_err (\<lambda>e. Status InvalidArgument (abi_error_message e))
                             (tuple_validate t)) (\<lambda>_. Inr t))))"

definition mapping_to_proto :: "mapping \<Rightarrow> proto_mapping" where
  "mapping_to_proto m =
     \<lparr>pm_synthetic = Some (tuple_to_proto (m_synthetic m)),
      pm_original = Some (tuple_to_proto (m_original m)), pm_last_seen_ns = m_last_seen_ns m,
      pm_protocol_flags = m_protocol_flags m, pm_tcp_state_flags = m_tcp_state_flags m\<rparr>"

definition flow_to_proto :: "flow_state \<Rightarrow> u64 \<Rightarrow> proto_flow" where
  "flow_to_proto f observed_now =
     \<lparr>pf_flow_id = fs_flow_id f, pf_generation = fs_generation f,
      pf_synthetic = Some (tuple_to_proto (fs_target f)),
      pf_original = Some (tuple_to_proto (fs_original f)),
      pf_protocol = ucast (t_protocol (fs_original f)), pf_last_used_ns = fs_last_used_ns f,
      pf_tcp_state_flags = fs_tcp_state_flags f, pf_protocol_flags = fs_protocol_flags f,
      pf_observed_now_ns = observed_now, pf_fin_seen_mask = ucast (fs_fin_seen_mask f),
      pf_fin_ack_seen_mask = ucast (fs_fin_ack_seen_mask f)\<rparr>"

fun ip_bytes :: "ip_addr \<Rightarrow> bytes" where
  "ip_bytes (V4 a) = octets (V4 a)"
| "ip_bytes (V6 a) = octets (V6 a)"

definition target_address_bytes :: "socket_addr option \<Rightarrow> bytes" where
  "target_address_bytes t = (case t of None \<Rightarrow> [] | Some t \<Rightarrow> ip_bytes (sa_ip t))"

definition target_port_u32 :: "socket_addr option \<Rightarrow> u32" where
  "target_port_u32 t = (case t of None \<Rightarrow> 0 | Some t \<Rightarrow> ucast (sa_port t))"

definition config_to_proto :: "runtime_config \<Rightarrow> config_reply" where
  "config_to_proto c =
     \<lparr>cfr_revision = rc_revision c,
      cfr_config = Some
        \<lparr>pc_idle_ttl_ms = of_nat (as_millis (rc_idle_ttl c)),
         pc_log_capacity = of_nat (rc_log_capacity c),
         pc_active_flow_capacity = of_nat (rc_active_flow_capacity c),
         pc_tcp_terminal_grace_ms = of_nat (as_millis (rc_tcp_terminal_grace c)),
         pc_schema_version = ucast (rc_schema_version c),
         pc_ipv4_target_address = target_address_bytes (rc_ipv4_target c),
         pc_ipv4_target_port = target_port_u32 (rc_ipv4_target c),
         pc_ipv6_target_address = target_address_bytes (rc_ipv6_target c),
         pc_ipv6_target_port = target_port_u32 (rc_ipv6_target c),
         pc_listener_family = (if is_ipv4 (ld_address (rc_listener c)) then 4 else 6),
         pc_listener_address = ip_bytes (ld_address (rc_listener c)),
         pc_listener_port = ucast (ld_port (rc_listener c)),
         pc_listener_ipv4_wildcard = ld_ipv4_wildcard (rc_listener c),
         pc_listener_ipv6_wildcard = ld_ipv6_wildcard (rc_listener c)\<rparr>\<rparr>"

definition service_parse_address :: "u32 \<Rightarrow> bytes \<Rightarrow> string \<Rightarrow> status + ip_addr" where
  "service_parse_address fam bs label =
     (if fam = 4 \<and> length bs = 4 then Inr (V4 (from_be_bytes bs))
      else if fam = 6 \<and> length bs = 16 then Inr (V6 (from_be_bytes bs))
      else Inl (Status InvalidArgument (''invalid '' @ label @ '' address/family'')))"

definition parse_target :: "u32 \<Rightarrow> bytes \<Rightarrow> u32 \<Rightarrow> string \<Rightarrow> status + socket_addr option" where
  "parse_target fam address port label =
     (if address = [] \<and> port = 0 then Inr None
      else if address = [] \<or> port = 0 \<or> port > 0xFFFF
      then Inl (Status InvalidArgument (label @ '' address and port must be set together''))
      else and_then (service_parse_address fam address label) (\<lambda>ip.
             Inr (Some (socket_addr_new ip (ucast port)))))"

definition runtime_config_from_proto :: "proto_config option \<Rightarrow> status + runtime_config" where
  "runtime_config_from_proto p =
     (case p of
        None \<Rightarrow> Inl (Status InvalidArgument ''config is required'')
      | Some c \<Rightarrow>
          if pc_schema_version c \<noteq> ucast RUNTIME_CONFIG_ABI_VERSION
          then Inl (Status InvalidArgument ''unsupported runtime config schema version'')
          else
            and_then (service_parse_address (pc_listener_family c) (pc_listener_address c)
                        ''listener'') (\<lambda>address.
            and_then (ok_or (Status InvalidArgument ''listener port is out of range'')
                        (u16_try_from_u32 (pc_listener_port c))) (\<lambda>port.
            and_then (ok_or (Status InvalidArgument ''schema version is out of range'')
                        (u16_try_from_u32 (pc_schema_version c))) (\<lambda>version.
            and_then (parse_target 4 (pc_ipv4_target_address c) (pc_ipv4_target_port c)
                        ''IPv4 target'') (\<lambda>ipv4_target.
            and_then (parse_target 6 (pc_ipv6_target_address c) (pc_ipv6_target_port c)
                        ''IPv6 target'') (\<lambda>ipv6_target.
              Inr \<lparr>rc_schema_version = version, rc_revision = 0,
                   rc_idle_ttl = from_millis (pc_idle_ttl_ms c),
                   rc_log_capacity = unat (pc_log_capacity c),
                   rc_active_flow_capacity = unat (pc_active_flow_capacity c),
                   rc_tcp_terminal_grace = from_millis (pc_tcp_terminal_grace_ms c),
                   rc_ipv4_target = ipv4_target, rc_ipv6_target = ipv6_target,
                   rc_listener = \<lparr>ld_address = address, ld_port = port,
                      ld_ipv4_wildcard = pc_listener_ipv4_wildcard c,
                      ld_ipv6_wildcard = pc_listener_ipv6_wildcard c\<rparr>\<rparr>))))))"

section \<open>Handlers\<close>

type_synonym ('s, 'r) handler = "'s service \<Rightarrow> (status + 'r) \<times> 's service"

definition on_backend :: "('s, 'a) action \<Rightarrow> 's service \<Rightarrow> (backend_error + 'a) \<times> 's service" where
  "on_backend f s = (case f (sv_backend s) of (r, b) \<Rightarrow> (r, s\<lparr>sv_backend := b\<rparr>))"

definition rollback_message :: "string \<Rightarrow> backend_error + unit \<Rightarrow> string" where
  "rollback_message error rollback =
     (case rollback of
        Inr _ \<Rightarrow> error
      | Inl e \<Rightarrow> error @ ''; attach rollback failed: '' @ backend_error_message e)"

definition service_attach :: "'s backend \<Rightarrow> interface_request \<Rightarrow> ('s, operation_reply) handler" where
  "service_attach B req s =
     (if irq_elf_path req = [] \<or> irq_interfaces req = []
      then (Inl (Status InvalidArgument ''elf_path and interfaces are required''), s)
      else case on_backend (be_attach B (irq_elf_path req) (irq_interfaces req)) s of
        (Inl e, s) \<Rightarrow>
          (Inl (map_backend_error e),
           log_event ''ERROR'' (''attach failed: '' @ backend_error_message e) s)
      | (Inr report, s) \<Rightarrow>
          (case validate_snapshot_with_maxima (ar_maxima report) (sv_config s) of
             Inl e \<Rightarrow>
               (case on_backend (be_rollback_attach B (ar_created report)) s of
                  (rollback, s) \<Rightarrow>
                    let message = rollback_message (config_error_message e) rollback
                    in (Inl (Status FailedPrecondition message),
                        log_event ''ERROR'' (''attach rejected: '' @ message) s))
           | Inr _ \<Rightarrow>
               (case on_backend (be_set_runtime_config B (snapshot (sv_config s))) s of
                  (Inl e, s) \<Rightarrow>
                    (case on_backend (be_rollback_attach B (ar_created report)) s of
                       (rollback, s) \<Rightarrow>
                         let message = rollback_message (backend_error_message e) rollback
                         in (Inl (map_backend_error (Operation ''runtime-config'' message)),
                             log_event ''ERROR'' (''runtime config rejected: '' @ message) s))
                | (Inr _, s) \<Rightarrow>
                    (Inr \<lparr>op_success = True, op_message = ''attached ingress and egress'',
                          op_failures = []\<rparr>, set_ready True s))))"

definition service_detach :: "'s backend \<Rightarrow> detach_request \<Rightarrow> ('s, operation_reply) handler" where
  "service_detach B req s =
     (if \<not> drq_all req \<and> drq_interfaces req = []
      then (Inl (Status InvalidArgument ''interfaces or all is required''), s)
      else
        let interfaces = (if drq_all req then None else Some (drq_interfaces req))
        in case on_backend (be_detach B interfaces) s of
             (Inl e, s) \<Rightarrow> (Inl (map_backend_error e), s)
           | (Inr _, s) \<Rightarrow>
               (Inr \<lparr>op_success = True, op_message = ''detached'', op_failures = []\<rparr>,
                if be_attachments B (sv_backend s) = [] then set_ready False s else s))"

definition page_limit :: "u32 \<Rightarrow> usize" where
  "page_limit limit = (if limit = 0 then 256 else unat limit)"

fun mapping_page ::
    "usize \<Rightarrow> nat \<Rightarrow> (bytes \<times> bytes) list \<Rightarrow> proto_mapping list \<Rightarrow> u64 \<Rightarrow> log_state
       \<Rightarrow> list_mappings_reply \<times> log_state" where
  "mapping_page limit index [] mappings skipped logs =
     (\<lparr>lmr_mappings = mappings, lmr_next_page_token = [], lmr_skipped_entries = skipped\<rparr>, logs)"
| "mapping_page limit index ((key, val) # entries) mappings skipped logs =
     (if length mappings \<ge> limit
      then (\<lparr>lmr_mappings = mappings, lmr_next_page_token = to_be_bytes (of_nat index :: u64),
             lmr_skipped_entries = skipped\<rparr>, logs)
      else case decode_value key val of
        Inr m \<Rightarrow> mapping_page limit (Suc index) entries (mappings @ [mapping_to_proto m]) skipped logs
      | Inl e \<Rightarrow> mapping_page limit (Suc index) entries mappings (skipped + 1)
                  (snd (log_append ''WARN'' (''mapping skipped: '' @ abi_error_message e) logs)))"

definition page_offset :: "bytes \<Rightarrow> status + usize" where
  "page_offset token =
     (if token = [] then Inr 0
      else if length token = 8 then Inr (unat (from_be_bytes token :: u64))
      else Inl (Status InvalidArgument ''invalid page token''))"

definition list_mappings ::
    "'s backend \<Rightarrow> list_mappings_request \<Rightarrow> ('s, list_mappings_reply) handler" where
  "list_mappings B req s =
     (let limit = page_limit (lmq_limit req)
      in if limit > 10000
         then (Inl (Status ResourceExhausted ''mapping page limit is too large''), s)
         else case page_offset (lmq_page_token req) of
           Inl e \<Rightarrow> (Inl e, s)
         | Inr offset \<Rightarrow>
             (case on_backend (be_list_entries B) s of
                (Inl e, s) \<Rightarrow> (Inl (map_backend_error e), s)
              | (Inr entries, s) \<Rightarrow>
                  let entries = sort_key fst entries;
                      (reply, logs) = mapping_page limit offset (drop offset entries) [] 0 (sv_logs s)
                  in (Inr reply, s\<lparr>sv_logs := logs\<rparr>)))"

definition get_mapping :: "'s backend \<Rightarrow> proto_tuple option \<Rightarrow> ('s, proto_mapping) handler" where
  "get_mapping B synthetic s =
     (case tuple_from_proto synthetic of
        Inl e \<Rightarrow> (Inl e, s)
      | Inr t \<Rightarrow>
          let key = encode_key t
          in case on_backend (be_get_entry B key) s of
               (Inl e, s) \<Rightarrow> (Inl (map_backend_error e), s)
             | (Inr None, s) \<Rightarrow> (Inl (Status NotFound ''mapping not found''), s)
             | (Inr (Some val), s) \<Rightarrow>
                 (case decode_value key val of
                    Inl e \<Rightarrow> (Inl (Status FailedPrecondition (abi_error_message e)), s)
                  | Inr m \<Rightarrow> (Inr (mapping_to_proto m), s)))"

definition check_cursor :: "u64 \<Rightarrow> u64 \<Rightarrow> bytes \<Rightarrow> status + flow_cursor option" where
  "check_cursor nonce now token =
     (if token = [] then Inr None
      else and_then (cursor_decode token) (\<lambda>c.
        if fc_nonce c \<noteq> nonce \<or> fc_issued_ns c > now
           \<or> saturating_sub_u64 now (fc_issued_ns c) > 60000000000
        then Inl (Status FailedPrecondition ''flow page token expired or belongs to another service'')
        else Inr (Some c)))"

fun flow_page ::
    "usize \<Rightarrow> u64 \<Rightarrow> flow_cursor option \<Rightarrow> u64 \<Rightarrow> flow_state list \<Rightarrow> proto_flow list
       \<Rightarrow> enumerate_flows_reply" where
  "flow_page limit nonce cursor observed_now [] result =
     \<lparr>efr_flows = result, efr_next_page_token = []\<rparr>"
| "flow_page limit nonce cursor observed_now (f # flows) result =
     (if (case cursor of None \<Rightarrow> False
          | Some c \<Rightarrow> (fs_flow_id f, fs_generation f) \<le> (fc_flow_id c, fc_generation c))
      then flow_page limit nonce cursor observed_now flows result
      else if length result \<ge> limit
      then \<lparr>efr_flows = result,
            efr_next_page_token = cursor_encode
              \<lparr>fc_nonce = nonce,
               fc_issued_ns = (case cursor of None \<Rightarrow> observed_now | Some c \<Rightarrow> fc_issued_ns c),
               fc_flow_id = pf_flow_id (last result), fc_generation = pf_generation (last result)\<rparr>\<rparr>
      else flow_page limit nonce cursor observed_now flows (result @ [flow_to_proto f observed_now]))"

definition enumerate_flows ::
    "'s backend \<Rightarrow> u64 \<Rightarrow> u64 \<Rightarrow> enumerate_flows_request \<Rightarrow> ('s, enumerate_flows_reply) handler" where
  "enumerate_flows B now observed_now req s =
     (let limit = page_limit (efq_limit req)
      in if limit > 10000
         then (Inl (Status ResourceExhausted ''flow page limit is too large''), s)
         else case check_cursor (sv_token_nonce s) now (efq_page_token req) of
           Inl e \<Rightarrow> (Inl e, s)
         | Inr cursor \<Rightarrow>
             (case on_backend (be_list_flow_states B) s of
                (Inl e, s) \<Rightarrow> (Inl (map_backend_error e), s)
              | (Inr flows, s) \<Rightarrow>
                  (Inr (flow_page limit (sv_token_nonce s) cursor observed_now
                          (sort_key (\<lambda>f. (fs_flow_id f, fs_generation f)) flows) []), s)))"

definition delete_outcome_of :: "flow_cleanup_report \<Rightarrow> delete_outcome" where
  "delete_outcome_of r =
     (if cr_observation_mismatch r then OutcomeObservationMismatch
      else if cr_partial r then OutcomePartial
      else if cr_stale_generation r then OutcomeStaleGeneration
      else if cr_state_deleted r \<or> cr_indexes_deleted r \<noteq> 0 then OutcomeComplete
      else OutcomeAlreadyAbsent)"

definition service_delete_flow ::
    "'s backend \<Rightarrow> u64 \<Rightarrow> delete_flow_request \<Rightarrow> ('s, delete_flow_reply) handler" where
  "service_delete_flow B now req s =
     (case on_backend (be_delete_flow B (dfq_flow_id req) (dfq_generation req)
                         (dfq_observed_last_used_ns req)
                         (saturating_add_u64 now FLOW_DELETE_GUARD_TTL_NS)) s of
        (Inl e, s) \<Rightarrow> (Inl (map_backend_error e), s)
      | (Inr report, s) \<Rightarrow>
          (Inr \<lparr>dfr_outcome = outcome_as_i32 (delete_outcome_of report),
                dfr_flow_id = dfq_flow_id req, dfr_generation = dfq_generation req,
                dfr_indexes_deleted = of_nat (cr_indexes_deleted report),
                dfr_state_deleted = cr_state_deleted report, dfr_retryable = cr_partial report\<rparr>, s))"

definition get_status :: "'s backend \<Rightarrow> ('s, status_reply) handler" where
  "get_status B s =
     (case on_backend (be_read_counters B) s of
        (r, s) \<Rightarrow>
          (case (case r of
                   Inr counters \<Rightarrow> Inr counters
                 | Inl e \<Rightarrow> if e = Unsupported \<or> e = NotAttached then Inr counters_default
                            else Inl (map_backend_error e)) of
             Inl e \<Rightarrow> (Inl e, s)
           | Inr counters \<Rightarrow>
               (Inr \<lparr>sr_ready = sv_ready s, sr_abi_version = ucast PROGRAM_ABI_VERSION,
                     sr_attachments = map (\<lambda>a. link_name (at_interface a) (at_direction a))
                       (be_attachments B (sv_backend s)),
                     sr_target_misses = bc_target_misses counters,
                     sr_flow_insert_failures = bc_flow_insert_failures counters,
                     sr_control_bypasses = bc_control_bypasses counters,
                     sr_flow_index_map_max_entries =
                       of_nat (mm_flow_index (be_map_maxima B (sv_backend s))),
                     sr_flow_state_map_max_entries =
                       of_nat (mm_flow_state (be_map_maxima B (sv_backend s)))\<rparr>, s)))"

definition get_config :: "('s, config_reply) handler" where
  "get_config s = (Inr (config_to_proto (snapshot (sv_config s))), s)"

definition set_config :: "'s backend \<Rightarrow> proto_config option \<Rightarrow> ('s, config_reply) handler" where
  "set_config B config s =
     (case runtime_config_from_proto config of
        Inl e \<Rightarrow> (Inl e, s)
      | Inr next_config \<Rightarrow>
          if rc_listener next_config \<noteq> rc_listener (snapshot (sv_config s))
          then (Inl (Status FailedPrecondition ''listener descriptor is immutable''), s)
          else case validate_with_maxima next_config (be_map_maxima B (sv_backend s)) of
            Inl e \<Rightarrow> (Inl (Status InvalidArgument (config_error_message e)), s)
          | Inr _ \<Rightarrow>
              (case on_backend (be_set_runtime_config B next_config) s of
                 (r, s) \<Rightarrow>
                   if (case r of Inr _ \<Rightarrow> False | Inl e \<Rightarrow> e \<noteq> NotAttached \<and> e \<noteq> Unsupported)
                   then (Inl (map_backend_error (projl r)), s)
                   else case store_update next_config (sv_config s) of
                     (Inl e, store) \<Rightarrow>
                       (Inl (Status InvalidArgument (config_error_message e)),
                        s\<lparr>sv_config := store\<rparr>)
                   | (Inr updated, store) \<Rightarrow>
                       (Inr (config_to_proto updated),
                        s\<lparr>sv_config := store,
                          sv_logs := log_set_capacity (rc_log_capacity updated) (sv_logs s)\<rparr>)))"

definition pull_logs :: "pull_logs_request \<Rightarrow> ('s, pull_logs_reply) handler" where
  "pull_logs req s =
     (case log_pull (plq_cursor req) (page_limit (plq_limit req)) (sv_logs s) of
        Inl e \<Rightarrow> (Inl (Status FailedPrecondition (log_error_message e)), s)
      | Inr (records, next_cursor) \<Rightarrow>
          (Inr \<lparr>plr_records = map (\<lambda>r. \<lparr>pl_sequence = lr_sequence r, pl_level = lr_level r,
                                       pl_message = lr_message r\<rparr>) records,
                plr_next_cursor = next_cursor\<rparr>, s))"

definition health :: "('s, health_reply) handler" where
  "health s = (Inr \<lparr>hr_live = True, hr_ready = sv_ready s\<rparr>, s)"

text \<open>A call whose first clock reading is at most a minute after a cursor's issue.\<close>

definition within_minute :: "u64 \<Rightarrow> u64 \<times> u64 \<Rightarrow> bool" where
  "within_minute issued r \<longleftrightarrow>
     issued \<le> fst r \<and> saturating_sub_u64 (fst r) issued \<le> 60000000000"

text \<open>A client that follows the page tokens to the end, with the clock readings of the
  successive calls. \<open>None\<close> means the readings ran out before the last page.\<close>

fun collect_flows ::
    "'s backend \<Rightarrow> u32 \<Rightarrow> (u64 \<times> u64) list \<Rightarrow> bytes \<Rightarrow> 's service
       \<Rightarrow> (status + proto_flow list) option \<times> 's service" where
  "collect_flows B limit [] token s = (None, s)"
| "collect_flows B limit ((now, observed) # clock) token s =
     (case enumerate_flows B now observed \<lparr>efq_limit = limit, efq_page_token = token\<rparr> s of
        (Inl e, s) \<Rightarrow> (Some (Inl e), s)
      | (Inr page, s) \<Rightarrow>
          if efr_next_page_token page = [] then (Some (Inr (efr_flows page)), s)
          else case collect_flows B limit clock (efr_next_page_token page) s of
                 (Some (Inr flows), s) \<Rightarrow> (Some (Inr (efr_flows page @ flows)), s)
               | (r, s) \<Rightarrow> (r, s))"

section \<open>Conversion lemmas\<close>

lemma tuple_proto_round_trip_aux:
  assumes "valid_tuple t"
  shows "tuple_from_proto (Some (tuple_to_proto t)) = Inr t"
proof -
  have "tuple_validate t = Inr ()" using assms by simp
  then show ?thesis
    using assms
    by (cases t; cases "t_source t"; cases "t_destination t")
       (simp_all add: tuple_to_proto_def tuple_from_proto_def address_from_proto_def valid_tuple_def
         not_less Let_def del: tuple_validate_iff)
qed

lemma tuple_from_proto_valid: "tuple_from_proto p = Inr t \<Longrightarrow> valid_tuple t"
  by (auto simp: tuple_from_proto_def and_then_Inr_iff Let_def split: option.splits if_splits)

lemma cursor_round_trip: "cursor_decode (cursor_encode c) = Inr c"
  by (simp add: cursor_decode_def cursor_encode_def slice_simps)

section \<open>Paging\<close>

definition after_cursor :: "flow_cursor option \<Rightarrow> flow_state \<Rightarrow> bool" where
  "after_cursor c f \<longleftrightarrow>
     (case c of None \<Rightarrow> True | Some c \<Rightarrow> (fc_flow_id c, fc_generation c) < flow_key f)"

definition proto_key :: "proto_flow \<Rightarrow> u64 \<times> u32" where
  "proto_key p = (pf_flow_id p, pf_generation p)"

lemma proto_key_flow [simp]: "proto_key (flow_to_proto f t) = flow_key f"
  by (simp add: proto_key_def flow_to_proto_def flow_key_def)

lemma flow_page_eq:
  assumes "length res \<le> limit"
  shows "flow_page limit nonce c t fs res =
     (let rest = filter (after_cursor c) fs; n = limit - length res
      in if length rest \<le> n
         then \<lparr>efr_flows = res @ map (\<lambda>f. flow_to_proto f t) rest, efr_next_page_token = []\<rparr>
         else let page = res @ map (\<lambda>f. flow_to_proto f t) (take n rest)
              in \<lparr>efr_flows = page, efr_next_page_token = cursor_encode
                    \<lparr>fc_nonce = nonce, fc_issued_ns = (case c of None \<Rightarrow> t | Some c \<Rightarrow> fc_issued_ns c),
                     fc_flow_id = pf_flow_id (last page), fc_generation = pf_generation (last page)\<rparr>\<rparr>)"
  using assms
proof (induction fs arbitrary: res)
  case (Cons f fs)
  have skip: "(case c of None \<Rightarrow> False
      | Some c \<Rightarrow> (fs_flow_id f, fs_generation f) \<le> (fc_flow_id c, fc_generation c))
      \<longleftrightarrow> \<not> after_cursor c f"
    by (auto simp: after_cursor_def flow_key_def split: option.split)
  consider "\<not> after_cursor c f" | "after_cursor c f" "length res = limit"
    | "after_cursor c f" "length res < limit"
    using Cons.prems by fastforce
  then show ?case
  proof cases
    case 3
    then have "limit - length res = Suc (limit - Suc (length res))" by simp
    with 3 show ?thesis
      using Cons.IH [of "res @ [flow_to_proto f t]"] by (simp add: skip Let_def)
  qed (use Cons in \<open>simp_all add: skip Let_def\<close>)
qed simp

lemma filter_after_last:
  fixes c :: "flow_cursor option" and fs :: "flow_state list"
  defines "rest \<equiv> filter (after_cursor c) fs"
  assumes sorted: "sorted_wrt (<) (map flow_key fs)" and n: "0 < n" "n \<le> length rest"
    and key: "(fc_flow_id c', fc_generation c') = flow_key (last (take n rest))"
  shows "filter (after_cursor (Some c')) fs = drop n rest"
proof -
  let ?k = "flow_key (last (take n rest))"
  have last: "last (take n rest) = rest ! (n - 1)"
    using n by (subst last_conv_nth) (auto simp: rest_def)
  have sr: "sorted_wrt (\<lambda>x y. flow_key x < flow_key y) rest"
    using sorted by (simp add: rest_def sorted_wrt_map sorted_wrt_filter)
  have le: "flow_key f \<le> ?k" if f: "f \<in> set (take n rest)" for f
  proof -
    obtain i where i: "i < n" "i < length rest" "f = rest ! i"
      using f by (auto simp: in_set_conv_nth)
    then show ?thesis
      using sr last n by (cases "i = n - 1") (auto simp: sorted_wrt_iff_nth_less less_imp_le)
  qed
  have gt: "?k < flow_key f" if "f \<in> set (drop n rest)" for f
    using sr that last n by (auto simp: sorted_wrt_iff_nth_less in_set_conv_nth)
  have "last (take n rest) \<in> set rest"
    using last n by simp
  then have "after_cursor c (last (take n rest))"
    by (simp add: rest_def)
  then have "after_cursor (Some c') f \<Longrightarrow> after_cursor c f" for f
    using key by (auto simp: after_cursor_def split: option.splits)
  then have "filter (after_cursor (Some c')) fs = filter (after_cursor (Some c')) rest"
    by (auto simp: rest_def intro: filter_cong)
  also have "\<dots> = filter (after_cursor (Some c')) (take n rest @ drop n rest)"
    by simp
  also have "\<dots> = drop n rest"
    using le gt key by (auto simp: after_cursor_def filter_empty_conv filter_id_conv not_less
        simp del: append_take_drop_id)
  finally show ?thesis .
qed

lemma cursor_encode_nonempty [simp]: "cursor_encode c \<noteq> []"
  by (simp add: cursor_encode_def)

lemma page_limit_pos [simp]: "0 < page_limit limit"
  by (simp add: page_limit_def unat_gt_0)

lemma check_cursor_ok:
  "fc_nonce c = nonce \<Longrightarrow> within_minute (fc_issued_ns c) (now, t) \<Longrightarrow>
   check_cursor nonce now (cursor_encode c) = Inr (Some c)"
  by (simp add: check_cursor_def cursor_round_trip within_minute_def not_less)

lemma strict_sorted_flows:
  "distinct (map flow_key fs) \<Longrightarrow> sorted_wrt (<) (map flow_key (sort_key flow_key fs))"
  by (simp add: strict_sorted_iff distinct_map inj_on_def)

text \<open>A reported flow: the message of a flow made at one of the given clock readings.\<close>

definition reported :: "u64 set \<Rightarrow> proto_flow \<Rightarrow> flow_state \<Rightarrow> bool" where
  "reported T p f \<longleftrightarrow> (\<exists>t \<in> T. p = flow_to_proto f t)"

lemma reported_keys: "list_all2 (reported T) ps fs \<Longrightarrow> map proto_key ps = map flow_key fs"
  by (induction rule: list_all2_induct) (auto simp: reported_def)

lemma reported_page: "t \<in> T \<Longrightarrow> list_all2 (reported T) (map (\<lambda>f. flow_to_proto f t) fs) fs"
  by (auto simp: reported_def list_all2_conv_all_nth)

lemma page_reported:
  assumes "list_all2 (reported T) ps (drop n xs)" "T \<subseteq> T'" "t \<in> T'"
  shows "list_all2 (reported T') (map (\<lambda>f. flow_to_proto f t) (take n xs) @ ps) xs"
proof -
  have "list_all2 (reported T') ps (drop n xs)"
    using assms(1) by (rule list_all2_mono) (use assms(2) in \<open>auto simp: reported_def\<close>)
  with reported_page [OF assms(3), of "take n xs"]
  have "list_all2 (reported T') (map (\<lambda>f. flow_to_proto f t) (take n xs) @ ps) (take n xs @ drop n xs)"
    by (rule list_all2_appendI)
  then show ?thesis by simp
qed

context flow_backend
begin

lemma enumerate_page:
  assumes "inv (sv_backend s)" "be_list_flow_states B (sv_backend s) = (Inr fs, b)"
    and "page_limit limit \<le> 10000" "check_cursor (sv_token_nonce s) now token = Inr c"
  shows "enumerate_flows B now t \<lparr>efq_limit = limit, efq_page_token = token\<rparr> s =
    (Inr (flow_page (page_limit limit) (sv_token_nonce s) c t (sort_key flow_key fs) []), s)"
  using assms list_ok [OF assms(1,2)]
  by (simp add: enumerate_flows_def on_backend_def Let_def flow_key_def [abs_def])

lemma collect_from_cursor:
  assumes s: "inv (sv_backend s)" "be_list_flow_states B (sv_backend s) = (Inr fs, b)"
    and l: "page_limit limit \<le> 10000"
  defines "sfs \<equiv> sort_key flow_key fs"
  shows "fc_nonce c = sv_token_nonce s \<Longrightarrow>
    list_all (within_minute (fc_issued_ns c)) clock \<Longrightarrow>
    length (filter (after_cursor (Some c)) sfs) < length clock \<Longrightarrow>
    \<exists>ps. collect_flows B limit clock (cursor_encode c) s = (Some (Inr ps), s)
       \<and> list_all2 (reported (snd ` set clock)) ps (filter (after_cursor (Some c)) sfs)"
proof (induction clock arbitrary: c)
  case (Cons r clock)
  obtain now t where r: "r = (now, t)" by fastforce
  let ?n = "page_limit limit" and ?rest = "filter (after_cursor (Some c)) sfs"
  have cc: "check_cursor (sv_token_nonce s) now (cursor_encode c) = Inr (Some c)"
    using Cons.prems r by (intro check_cursor_ok [of _ _ _ t]) auto
  note page = enumerate_page [OF s l cc, of t, folded sfs_def]
  show ?case
  proof (cases "length ?rest \<le> ?n")
    case True
    then show ?thesis
      using page reported_page [of t "snd ` set (r # clock)" ?rest] by (simp add: r flow_page_eq Let_def)
  next
    case False
    let ?page = "map (\<lambda>f. flow_to_proto f t) (take ?n ?rest)"
    let ?c = "\<lparr>fc_nonce = sv_token_nonce s, fc_issued_ns = fc_issued_ns c,
        fc_flow_id = pf_flow_id (last ?page), fc_generation = pf_generation (last ?page)\<rparr>"
    have ne: "take ?n ?rest \<noteq> []" using False page_limit_pos [of limit] by auto
    then have "last ?page = flow_to_proto (last (take ?n ?rest)) t" by (simp add: last_map)
    then have key: "(fc_flow_id ?c, fc_generation ?c) = flow_key (last (take ?n ?rest))"
      by (simp add: flow_to_proto_def flow_key_def)
    have sorted: "sorted_wrt (<) (map flow_key sfs)"
      unfolding sfs_def using strict_sorted_flows list_ok [OF s] by blast
    have next_page: "filter (after_cursor (Some ?c)) sfs = drop ?n ?rest"
      using filter_after_last [OF sorted _ _ key] False page_limit_pos [of limit] by simp
    have "length (drop ?n ?rest) < length clock"
      using Cons.prems(3) False page_limit_pos [of limit] unfolding length_drop list.size by arith
    then obtain ps where ps: "collect_flows B limit clock (cursor_encode ?c) s = (Some (Inr ps), s)"
      "list_all2 (reported (snd ` set clock)) ps (drop ?n ?rest)"
      using Cons.IH [of ?c] Cons.prems next_page by auto
    have "enumerate_flows B now t \<lparr>efq_limit = limit, efq_page_token = cursor_encode c\<rparr> s =
        (Inr \<lparr>efr_flows = ?page, efr_next_page_token = cursor_encode ?c\<rparr>, s)"
      using page False by (simp add: flow_page_eq Let_def)
    then show ?thesis
      using ps(1) page_reported [OF ps(2), of "snd ` set (r # clock)" t] by (auto simp: r)
  qed
qed simp

lemma collect_flows_complete:
  assumes s: "inv (sv_backend s)" "be_list_flow_states B (sv_backend s) = (Inr fs, b)"
    and l: "page_limit limit \<le> 10000"
    and clock: "list_all (within_minute t) clock" "length fs \<le> length clock"
  shows "\<exists>ps. collect_flows B limit ((now, t) # clock) [] s = (Some (Inr ps), s)
    \<and> list_all2 (reported (insert t (snd ` set clock))) ps (sort_key flow_key fs)"
proof -
  let ?n = "page_limit limit" and ?sfs = "sort_key flow_key fs"
  have "check_cursor (sv_token_nonce s) now [] = Inr None" by (simp add: check_cursor_def)
  note page = enumerate_page [OF s l this, of t]
  have all: "filter (after_cursor None) ?sfs = ?sfs" by (simp add: after_cursor_def)
  show ?thesis
  proof (cases "length fs \<le> ?n")
    case True
    then show ?thesis
      using page all reported_page [of t "insert t (snd ` set clock)" ?sfs]
      by (simp add: flow_page_eq Let_def)
  next
    case False
    let ?page = "map (\<lambda>f. flow_to_proto f t) (take ?n ?sfs)"
    let ?c = "\<lparr>fc_nonce = sv_token_nonce s, fc_issued_ns = t,
        fc_flow_id = pf_flow_id (last ?page), fc_generation = pf_generation (last ?page)\<rparr>"
    have "?sfs \<noteq> []" using False by (metis le0 length_0_conv length_sort)
    then have "last ?page = flow_to_proto (last (take ?n ?sfs)) t"
      using page_limit_pos [of limit] by (subst last_map) auto
    then have key: "(fc_flow_id ?c, fc_generation ?c) = flow_key (last (take ?n ?sfs))"
      by (simp add: flow_to_proto_def flow_key_def)
    have sorted: "sorted_wrt (<) (map flow_key ?sfs)"
      using strict_sorted_flows list_ok [OF s] by blast
    have rest: "filter (after_cursor (Some ?c)) ?sfs = drop ?n ?sfs"
      using filter_after_last [OF sorted, of ?n None ?c] key False page_limit_pos [of limit]
      by (simp add: all)
    have "length (drop ?n ?sfs) < length clock"
      using clock(2) False page_limit_pos [of limit] unfolding length_drop length_sort by arith
    then obtain ps where ps: "collect_flows B limit clock (cursor_encode ?c) s = (Some (Inr ps), s)"
      "list_all2 (reported (snd ` set clock)) ps (drop ?n ?sfs)"
      using collect_from_cursor [OF s l, of ?c clock] clock(1) rest by auto
    have "enumerate_flows B now t \<lparr>efq_limit = limit, efq_page_token = []\<rparr> s =
        (Inr \<lparr>efr_flows = ?page, efr_next_page_token = cursor_encode ?c\<rparr>, s)"
      using page False all by (simp add: flow_page_eq Let_def)
    then show ?thesis
      using ps(1) page_reported [OF ps(2), of "insert t (snd ` set clock)" t] by auto
  qed
qed

end

section \<open>Attaching through the service\<close>

definition rollback_failed :: "status \<Rightarrow> bool" where
  "rollback_failed st \<longleftrightarrow>
     (\<exists>code m. st = Status code m \<and> str_contains ''; attach rollback failed: '' m)"

lemma str_contains_append_left: "str_contains n b \<Longrightarrow> str_contains n (a @ b)"
  by (induction a) auto

lemma str_contains_prefix: "take (length n) b = n \<Longrightarrow> str_contains n b"
  by (cases b) auto

lemma str_contains_mid: "str_contains n (a @ n @ b)"
  by (rule str_contains_append_left, rule str_contains_prefix) simp

declare str_contains.simps [simp del]

lemma rollback_message_failed:
  "\<not> is_ok r \<Longrightarrow> str_contains ''; attach rollback failed: '' (rollback_message m r)"
  by (cases r) (simp_all only: rollback_message_def sum.case is_ok_simps str_contains_mid simp_thms)

lemma operation_message_contains:
  "str_contains n m \<Longrightarrow> str_contains n (backend_error_message (Operation l m))"
  unfolding backend_error_message.simps by (intro str_contains_append_left)

lemma log_event_frame [simp]:
  "sv_backend (log_event l m s) = sv_backend s" "sv_config (log_event l m s) = sv_config s"
  "sv_ready (log_event l m s) = sv_ready s"
  by (simp_all add: log_event_def)

context link_backend
begin

lemma rollback_after_attach:
  assumes "inv b" "be_attach B elf ifs b = (Inr rep, b1)"
    and "be_attachments B b2 = be_attachments B b1" "inv b2"
    and "be_rollback_attach B (ar_created rep) b2 = (r, b3)"
  shows "set (be_attachments B b3) = set (be_attachments B b) \<or> \<not> is_ok r"
proof (cases r)
  case (Inr u)
  then show ?thesis
    using attach_ok [OF assms(1,2)] rollback_ok [OF assms(4), of "ar_created rep" u b3] assms(3,5)
    by auto
qed simp

lemma service_attach_error:
  assumes "inv (sv_backend s)" "service_attach B req s = (Inl st, s')"
  shows "sv_ready s' = sv_ready s \<and> sv_config s' = sv_config s
    \<and> (set (be_attachments B (sv_backend s')) = set (be_attachments B (sv_backend s))
       \<or> rollback_failed st)"
proof (cases "irq_elf_path req = [] \<or> irq_interfaces req = []")
  case True
  then show ?thesis using assms(2) by (auto simp: service_attach_def)
next
  case False
  obtain a b1 where a: "be_attach B (irq_elf_path req) (irq_interfaces req) (sv_backend s) = (a, b1)"
    by fastforce
  have inv1: "inv b1" using attach_inv [OF assms(1)] a by (metis snd_conv)
  show ?thesis
  proof (cases a)
    case (Inl e)
    then show ?thesis
      using assms(2) False a attach_error [OF assms(1), of _ _ e b1]
      by (auto simp: service_attach_def on_backend_def)
  next
    case (Inr rep)
    note ok = a [unfolded Inr]
    show ?thesis
    proof (cases "validate_snapshot_with_maxima (ar_maxima rep) (sv_config s)")
      case (Inl e)
      obtain r b3 where r: "be_rollback_attach B (ar_created rep) b1 = (r, b3)" by fastforce
      show ?thesis
        using assms(2) False ok Inl r rollback_after_attach [OF assms(1) ok refl inv1 r]
          rollback_message_failed [of r "config_error_message e"]
        by (auto simp: service_attach_def on_backend_def Let_def rollback_failed_def)
    next
      case valid: (Inr u)
      obtain c b2 where c: "be_set_runtime_config B (snapshot (sv_config s)) b1 = (c, b2)" by fastforce
      have b2: "be_attachments B b2 = be_attachments B b1" "inv b2"
        using config_links [of "snapshot (sv_config s)" b1] config_inv [OF inv1] c
        by (simp, metis snd_conv)
      obtain r b3 where r: "be_rollback_attach B (ar_created rep) b2 = (r, b3)" by fastforce
      obtain e where "c = Inl e"
        using assms(2) False ok valid c by (cases c) (auto simp: service_attach_def on_backend_def)
      then show ?thesis
        using assms(2) False ok valid c r rollback_after_attach [OF assms(1) ok b2 r]
          rollback_message_failed [of r "backend_error_message e"]
        by (auto simp: service_attach_def on_backend_def Let_def rollback_failed_def
            simp del: backend_error_message.simps intro: operation_message_contains)
    qed
  qed
qed

end

lemma get_mapping_inserted:
  assumes "valid_flow_state f" "sv_backend s = insert_flow_state f m"
    and "bt_get (encode_key (fs_target f)) (ms_entries m) = None"
  shows "get_mapping memory_backend (Some (tuple_to_proto (fs_target f))) s =
    (Inr (mapping_to_proto (flow_state_mapping f)), s)"
proof -
  have v: "valid_tuple (fs_target f)" "valid_tuple (fs_original f)"
    using assms(1) by (auto simp: valid_flow_state_def)
  have "bt_get (encode_key (fs_target f)) (ms_flow_indexes (insert_flow_state f m)) =
      Some \<lparr>fi_flow_id = fs_flow_id f, fi_generation = fs_generation f\<rparr>"
    by (rule insert_flow_indexes) simp
  moreover have "bt_get (fs_flow_id f, fs_generation f) (ms_flow_states (insert_flow_state f m)) =
      Some f"
    using memory_flow_insert [of f m] by (simp add: memory_flow_def flow_key_def fun_eq_iff)
  ultimately have "memory_get_entry (encode_key (fs_target f)) (sv_backend s) =
      (Inr (Some (encode_value (flow_state_mapping f))), sv_backend s)"
    using assms(2,3) by (simp add: memory_get_entry_def)
  moreover have "decode_value (encode_key (fs_target f)) (encode_value (flow_state_mapping f)) =
      Inr (flow_state_mapping f)"
    using v decode_encode_value [of "flow_state_mapping f"] by (auto simp: flow_state_mapping_def)
  ultimately show ?thesis
    using tuple_proto_round_trip_aux [OF v(1)]
    by (simp add: get_mapping_def on_backend_def memory_backend_def Let_def)
qed

section \<open>Properties\<close>

text \<open>A tuple sent over the control protocol is received unchanged exactly when it is valid:
  same family on both sides, TCP or UDP, nonzero ports and no unspecified address.\<close>

theorem tuple_proto_round_trip:
  "tuple_from_proto (Some (tuple_to_proto t)) = Inr t \<longleftrightarrow> tuple_validate t = Inr ()"
  using tuple_proto_round_trip_aux tuple_from_proto_valid by auto

text \<open>looking up the target tuple of a flow in the store through the service returns that
  flow's mapping: the tuple asked for as synthetic and the tuple before redirection as
  original, with the flow's time stamp and flags.\<close>

theorem get_mapping_returns_flow:
  assumes "valid_flow_state f" "sv_backend s = insert_flow_state f m"
    and "bt_get (encode_key (fs_target f)) (ms_entries m) = None"
  shows "get_mapping memory_backend (Some (tuple_to_proto (fs_target f))) s =
    (Inr (mapping_to_proto (flow_state_mapping f)), s)"
  using assms by (rule get_mapping_inserted)

theorem get_mapping_returns_flow_witness:
  "get_mapping memory_backend (Some (tuple_to_proto (fs_target sample_flow)))
     (sample_service (insert_flow_state sample_flow memory_default)) =
   (Inr (mapping_to_proto (flow_state_mapping sample_flow)),
    sample_service (insert_flow_state sample_flow memory_default))"
  by (rule get_mapping_returns_flow [where m = memory_default])
     (simp_all add: sample_service_def service_new_def sample_flow_def sample_tuple_def valid_flow_state_def
       valid_tuple_def protocol_consts)

text \<open>C28: a client that follows the page tokens, within a minute and with any page limit,
  receives every flow of the store exactly once, in the order of their identities, and the
  scan ends.\<close>

theorem flow_enumeration_complete:
  assumes "memory_inv (sv_backend s)" "ms_flow_mode (sv_backend s)" "page_limit limit \<le> 10000"
    and "list_all (within_minute t) clock" "length (ms_flow_states (sv_backend s)) \<le> length clock"
  shows "\<exists>ps. collect_flows memory_backend limit ((now, t) # clock) [] s = (Some (Inr ps), s)
    \<and> sorted_wrt (<) (map proto_key ps)
    \<and> set (map proto_key ps) = {k. memory_flow (sv_backend s) k \<noteq> None}"
proof -
  let ?fs = "bt_values (ms_flow_states (sv_backend s))"
  have l: "be_list_flow_states memory_backend (sv_backend s) = (Inr ?fs, sv_backend s)"
    using assms(2) by (simp add: memory_backend_def memory_list_flow_states_def)
  have "length ?fs \<le> length clock" using assms(5) by (simp add: bt_values_def)
  from memory_flows.collect_flows_complete [OF assms(1) l assms(3,4) this, of now]
  obtain ps where ps: "collect_flows memory_backend limit ((now, t) # clock) [] s = (Some (Inr ps), s)"
    "map proto_key ps = map flow_key (sort_key flow_key ?fs)"
    using reported_keys by blast
  have "distinct (map flow_key ?fs)" using memory_flows.list_ok [OF assms(1) l] by simp
  then have "sorted_wrt (<) (map proto_key ps)" using ps(2) by (simp add: strict_sorted_flows)
  moreover have "set (map proto_key ps) = {k. memory_flow (sv_backend s) k \<noteq> None}"
    using memory_flows.listed_keys [OF assms(1) l] ps(2) by simp
  ultimately show ?thesis using ps(1) by blast
qed

theorem flow_enumeration_complete_witness:
  "\<exists>ps. collect_flows memory_backend 1 [(10, 20), (30, 40), (50, 60)] []
       (sample_service (insert_flow_state (sample_flow\<lparr>fs_flow_id := 8\<rparr>)
         (insert_flow_state sample_flow memory_default))) =
     (Some (Inr ps), sample_service (insert_flow_state (sample_flow\<lparr>fs_flow_id := 8\<rparr>)
         (insert_flow_state sample_flow memory_default)))
     \<and> set (map proto_key ps) = {(7, 1), (8, 1)}"
proof -
  let ?m = "insert_flow_state (sample_flow\<lparr>fs_flow_id := 8\<rparr>)
    (insert_flow_state sample_flow memory_default)"
  have b: "sv_backend (sample_service ?m) = ?m" by (simp add: sample_service_def service_new_def)
  have "memory_inv ?m" by (intro memory_inv_insert_flow memory_inv_default)
  moreover have "ms_flow_mode ?m" "length (ms_flow_states ?m) = 2"
    by (simp_all add: insert_flow_state_def memory_default_def Let_def sample_flow_def)
  moreover have "{k. memory_flow ?m k \<noteq> None} = {(7, 1), (8, 1)}"
    by (auto simp: memory_flow_insert flow_key_def sample_flow_def memory_flow_def memory_default_def
        split: if_splits)
  moreover have "list_all (within_minute 20) [(30, 40), (50, 60)]" "page_limit 1 \<le> 10000"
    by (simp_all add: within_minute_def saturating_sub_u64_def page_limit_def)
  ultimately show ?thesis
    using flow_enumeration_complete [of "sample_service ?m" 1 20 "[(30, 40), (50, 60)]" 10, unfolded b]
    by (simp only: list.size) (auto simp del: collect_flows.simps)
qed

end
