(* ===== verification/Service_Correctness.thy ===== *)
theory Service_Correctness
  imports Control_Service
begin

text \<open>
  What the handlers of \<open>service.rs\<close> promise their callers: attaching is transactional,
  configuration updates are validated and keep the listener, deletions report what happened
  to the store, and a configuration read from the service can be written back.
\<close>

section \<open>Configuration messages\<close>

text \<open>Configurations the protocol can carry: whole milliseconds, 32-bit capacities and IPv6
  targets without flow label and scope.\<close>

definition plain_target :: "socket_addr option \<Rightarrow> bool" where
  "plain_target t \<longleftrightarrow>
     (case t of None \<Rightarrow> True | Some a \<Rightarrow> a = socket_addr_new (sa_ip a) (sa_port a))"

definition whole_millis :: "duration \<Rightarrow> bool" where
  "whole_millis d \<longleftrightarrow> d mod 1000000 = 0 \<and> as_millis d < 2 ^ 64"

definition representable :: "runtime_config \<Rightarrow> bool" where
  "representable c \<longleftrightarrow>
     whole_millis (rc_idle_ttl c) \<and> whole_millis (rc_tcp_terminal_grace c)
     \<and> rc_log_capacity c < 2 ^ 32 \<and> rc_active_flow_capacity c < 2 ^ 32
     \<and> plain_target (rc_ipv4_target c) \<and> plain_target (rc_ipv6_target c)"

lemma from_as_millis: "whole_millis d \<Longrightarrow> from_millis (of_nat (as_millis d)) = d"
  by (auto simp: whole_millis_def from_millis_def as_millis_def unat_of_nat)

lemma service_parse_ip_bytes:
  "service_parse_address (if is_ipv4 a then 4 else 6) (ip_bytes a) l = Inr a"
  by (cases a) (simp_all add: service_parse_address_def)

lemma parse_target_bytes:
  assumes "plain_target t" "validate_target t ipv4 = Inr ()"
  shows "parse_target (if ipv4 then 4 else 6) (target_address_bytes t) (target_port_u32 t) l = Inr t"
proof (cases t)
  case None
  then show ?thesis by (simp add: parse_target_def target_address_bytes_def target_port_u32_def)
next
  case (Some a)
  then have a: "a = socket_addr_new (sa_ip a) (sa_port a)" "sa_port a \<noteq> 0" "is_ipv4 (sa_ip a) = ipv4"
    using assms by (auto simp: plain_target_def validate_target_def split: if_splits)
  have port: "(ucast (sa_port a) :: u32) \<noteq> 0" "\<not> 0xFFFF < (ucast (sa_port a) :: u32)"
    using a(2) by (metis ucast_u16_u32 unsigned_0, simp add: not_less)
  have "ip_bytes (sa_ip a) \<noteq> []" by (cases "sa_ip a") (simp_all flip: length_0_conv)
  then show ?thesis
    using Some a(1,3) port service_parse_ip_bytes [of "sa_ip a" l]
    by (simp add: parse_target_def target_address_bytes_def target_port_u32_def)
qed

lemma valid_config_targets:
  "validate_with_maxima c m = Inr () \<Longrightarrow>
   validate_target (rc_ipv4_target c) True = Inr () \<and> validate_target (rc_ipv6_target c) False = Inr ()"
  by (auto simp: validate_with_maxima_def and_then_Inr_iff split: if_splits)

lemma valid_config_schema:
  "validate_with_maxima c m = Inr () \<Longrightarrow> rc_schema_version c = RUNTIME_CONFIG_ABI_VERSION"
  by (auto simp: validate_with_maxima_def split: if_splits)

lemma config_from_to_proto:
  assumes "validate_with_maxima c m = Inr ()" "representable c"
  shows "runtime_config_from_proto (cfr_config (config_to_proto c)) = Inr (c\<lparr>rc_revision := 0\<rparr>)"
proof -
  have "parse_target 4 (target_address_bytes (rc_ipv4_target c)) (target_port_u32 (rc_ipv4_target c))
      l = Inr (rc_ipv4_target c)"
    "parse_target 6 (target_address_bytes (rc_ipv6_target c)) (target_port_u32 (rc_ipv6_target c))
      l = Inr (rc_ipv6_target c)" for l
    using parse_target_bytes [of "rc_ipv4_target c" True] parse_target_bytes [of "rc_ipv6_target c" False]
      valid_config_targets [OF assms(1)] assms(2)
    by (simp_all add: representable_def)
  moreover have "u16_try_from_u32 (ucast p) = Some p" for p
    by (simp add: u16_try_from_u32_def)
  ultimately show ?thesis
    using assms(2) valid_config_schema [OF assms(1)]
    by (cases c)
       (simp add: runtime_config_from_proto_def config_to_proto_def service_parse_ip_bytes
         representable_def from_as_millis unat_of_nat RUNTIME_CONFIG_ABI_VERSION_def
         u16_try_from_u32_def)
qed

lemmas default_config_defs = runtime_config_default_def valid_config_def valid_listener_def
  from_socket_addr_def from_secs_def representable_def plain_target_def whole_millis_def as_millis_def
  ELF_FLOW_STATE_MAX_ENTRIES_def ELF_FLOW_INDEX_MAX_ENTRIES_def saturating_mul_usize_def usize_max_def

lemma default_rc_flow_capacity: "rc_active_flow_capacity runtime_config_default = 4096"
  by (simp add: runtime_config_default_def)

section \<open>Updating the configuration\<close>

lemma set_config_ok_cases:
  assumes "set_config B config s = (Inr reply, s')"
  shows "\<exists>c. runtime_config_from_proto config = Inr c
    \<and> rc_listener c = rc_listener (snapshot (sv_config s))
    \<and> validate_with_maxima c (be_map_maxima B (sv_backend s)) = Inr ()
    \<and> validate_with_maxima c (cs_maxima (sv_config s)) = Inr ()
    \<and> sv_config s' = snd (store_update c (sv_config s))
    \<and> sv_logs s' = log_set_capacity (rc_log_capacity c) (sv_logs s)
    \<and> sv_backend s' = snd (be_set_runtime_config B c (sv_backend s))
    \<and> sv_ready s' = sv_ready s
    \<and> reply = config_to_proto (snapshot (sv_config s'))"
proof (cases "runtime_config_from_proto config")
  case (Inl e)
  then show ?thesis using assms by (simp add: set_config_def)
next
  case (Inr c)
  then show ?thesis
    using assms
    by (intro exI [of _ c]; cases "validate_with_maxima c (cs_maxima (sv_config s))")
       (auto simp: set_config_def on_backend_def store_update_def Let_def snapshot_def
         simp del: validate_with_maxima_iff split: sum.splits if_splits prod.splits)
qed

lemma set_config_error_cases:
  assumes "set_config B config s = (Inl st, s')"
  shows "sv_config s' = sv_config s \<and> sv_logs s' = sv_logs s \<and> sv_ready s' = sv_ready s"
  using assms
  by (auto simp: set_config_def on_backend_def store_update_def Let_def
      split: sum.splits if_splits prod.splits)

lemma snapshot_store_update:
  assumes "valid_config (cs_maxima st) c"
  shows "snapshot (snd (store_update c st)) = c\<lparr>rc_revision := cs_next_revision st\<rparr>"
proof -
  have "validate_with_maxima c (cs_maxima st) = Inr ()" using assms by simp
  then show ?thesis
    by (simp add: store_update_def snapshot_def Let_def del: validate_with_maxima_iff)
qed

section \<open>Deleting a flow\<close>

lemma memory_delete_cases:
  assumes "memory_delete_flow i g ob d m = (Inr c, m')"
  shows "cr_observation_mismatch c = (\<exists>f. memory_flow m (i, g) = Some f
        \<and> (ms_abort_delete_guard m \<or> ob \<noteq> 0 \<and> fs_last_used_ns f \<noteq> ob))"
    and "cr_state_deleted c = (memory_flow m (i, g) \<noteq> None \<and> \<not> cr_observation_mismatch c)"
    and "cr_observation_mismatch c \<Longrightarrow> \<not> cr_partial c"
  using assms
  by (auto simp: memory_delete_flow_def memory_release_journal_def memory_flow_def cleanup_default_def
      Let_def split: option.splits if_splits)

lemma memory_delete_stale:
  assumes "bt_inv (ms_flow_states m)" "memory_delete_flow i g ob d m = (Inr c, m')"
    and "cr_stale_generation c"
  shows "memory_flow m (i, g) = None \<and> (\<exists>g'. g' \<noteq> g \<and> memory_flow m (i, g') \<noteq> None)"
proof -
  have "memory_flow m (i, g) = None
    \<and> list_ex (\<lambda>(i', g'). i' = i \<and> g' \<noteq> g) (bt_keys (ms_flow_states m))"
    using assms(2,3)
    by (auto simp: memory_delete_flow_def memory_release_journal_def memory_flow_def
        cleanup_default_def Let_def split: option.splits if_splits)
  then show ?thesis
    using assms(1) by (fastforce simp: list_ex_iff bt_keys_def memory_flow_def bt_get_mem)
qed

section \<open>Properties\<close>

text \<open>C17: an Attach call of the production service that returns an error leaves readiness and
  configuration alone and the owned links as they were, unless the returned message says that
  the rollback failed. This covers a failing backend, capacities too small for the current
  configuration and a failing write of the runtime map, for every behaviour of the kernel.\<close>

theorem service_attach_transaction:
  assumes "service_attach (linux_backend ex (aya_adapter K)) req s = (Inl st, s')"
    and "aya_inv (lx_adapter (sv_backend s))"
  shows "sv_ready s' = sv_ready s \<and> sv_config s' = sv_config s
    \<and> (set (lx_attachments (sv_backend s')) = set (lx_attachments (sv_backend s))
       \<or> rollback_failed st)"
  using aya.linux_links.service_attach_error [OF assms(2,1)] by (simp add: linux_backend_def)

theorem service_attach_transaction_witness:
  "\<exists>st s'. service_attach (linux_backend (\<lambda>_. False) (aya_adapter quiet_aya))
       \<lparr>irq_elf_path = ''ssp.o'', irq_interfaces = [''eth0'']\<rparr>
       (sample_service (with_adapter (quiet_tc []))) = (Inl st, s')
     \<and> \<not> sv_ready s'
     \<and> (lx_attachments (sv_backend s') = [] \<or> rollback_failed st)"
proof -
  let ?s = "sample_service (with_adapter (quiet_tc []))"
  let ?r = "service_attach (linux_backend (\<lambda>_. False) (aya_adapter quiet_aya))
    \<lparr>irq_elf_path = ''ssp.o'', irq_interfaces = [''eth0'']\<rparr> ?s"
  have "\<not> is_ok (fst ?r)"
    by (simp add: service_attach_def on_backend_def linux_backend_def linux_attach_def)
  then obtain st s' where r: "?r = (Inl st, s')"
    by (metis is_ok_simps(2) prod.collapse sum.exhaust)
  have "aya_inv (lx_adapter (sv_backend ?s))" "lx_attachments (sv_backend ?s) = []" "\<not> sv_ready ?s"
    by (simp_all add: sample_service_def service_new_def with_adapter_def quiet_tc_def aya_inv_def)
  then show ?thesis
    using service_attach_transaction [OF r] r by auto
qed

text \<open>C25: a SetConfig call that is refused, at whatever stage, leaves the published snapshot,
  the log and readiness unchanged. One that is accepted publishes the configuration of the
  message with the next revision, which is valid for the capacities of the loaded object and
  of the store, keeps the listener, resizes the log and answers with what it published.\<close>

theorem set_config_outcome:
  "case set_config B config s of
     (Inl st, s') \<Rightarrow>
       sv_config s' = sv_config s \<and> sv_logs s' = sv_logs s \<and> sv_ready s' = sv_ready s
   | (Inr reply, s') \<Rightarrow>
       \<exists>c. runtime_config_from_proto config = Inr c
         \<and> snapshot (sv_config s') = c\<lparr>rc_revision := cs_next_revision (sv_config s)\<rparr>
         \<and> rc_listener c = rc_listener (snapshot (sv_config s))
         \<and> valid_config (be_map_maxima B (sv_backend s)) c \<and> valid_config (cs_maxima (sv_config s)) c
         \<and> ls_capacity (sv_logs s') = rc_log_capacity c
         \<and> length (ls_records (sv_logs s')) \<le> rc_log_capacity c
         \<and> reply = config_to_proto (snapshot (sv_config s'))"
proof -
  obtain r s' where r: "set_config B config s = (r, s')" by fastforce
  show ?thesis
  proof (cases r)
    case (Inl st)
    then show ?thesis using set_config_error_cases r by simp
  next
    case (Inr reply)
    then obtain c where c: "runtime_config_from_proto config = Inr c"
      "rc_listener c = rc_listener (snapshot (sv_config s))"
      "valid_config (be_map_maxima B (sv_backend s)) c" "valid_config (cs_maxima (sv_config s)) c"
      "sv_config s' = snd (store_update c (sv_config s))"
      "sv_logs s' = log_set_capacity (rc_log_capacity c) (sv_logs s)"
      "reply = config_to_proto (snapshot (sv_config s'))"
      using set_config_ok_cases [of B config s reply s'] r by auto
    then have "0 < rc_log_capacity c" by (simp add: valid_config_def)
    then show ?thesis
      using c r Inr snapshot_store_update [OF c(4)] by (auto simp: log_set_capacity_def evict_eq)
  qed
qed



text \<open>A configuration that is in force and uses whole milliseconds, 32-bit capacities and
  plain targets survives the protocol: what GetConfig sends is read back by SetConfig as the
  same configuration, apart from the revision, which the store assigns.\<close>

theorem config_proto_round_trip:
  assumes "validate_with_maxima c m = Inr ()" "representable c"
  shows "runtime_config_from_proto (cfr_config (config_to_proto c)) = Inr (c\<lparr>rc_revision := 0\<rparr>)"
  using assms by (rule config_from_to_proto)

theorem config_proto_round_trip_witness:
  "runtime_config_from_proto (cfr_config (config_to_proto runtime_config_default)) =
     Inr (runtime_config_default\<lparr>rc_revision := 0\<rparr>)"
proof (rule config_proto_round_trip)
  show "validate_with_maxima runtime_config_default map_maxima_default = Inr ()"
    by (simp add: default_config_defs map_maxima_default_def)
qed (simp add: default_config_defs)

text \<open>A finding. The production backend does not pass the packet counters on, so GetStatus
  reports zero misses, insertion failures and bypasses whatever the kernel has counted.\<close>

theorem linux_status_counters_zero:
  "\<exists>reply. fst (get_status (linux_backend ex A) s) = Inr reply
     \<and> sr_target_misses reply = 0 \<and> sr_flow_insert_failures reply = 0
     \<and> sr_control_bypasses reply = 0"
  by (simp add: get_status_def on_backend_def linux_backend_def unsupported_def counters_default_def)

text \<open>C39: a finding. SetConfig writes the runtime map before the store has accepted the
  configuration. With an object whose maps are larger than the compiled defaults a capacity
  between the two is written to the map and then refused, so that the program runs with a
  configuration the service never publishes.\<close>

theorem set_config_diverges:
  "let big = \<lparr>mm_flow_index = 100000, mm_flow_state = 100000\<rparr>;
       wanted = runtime_config_default\<lparr>rc_active_flow_capacity := 6000\<rparr>;
       s = sample_service (memory_default\<lparr>ms_maxima := big\<rparr>);
       (r, s') = set_config memory_backend (cfr_config (config_to_proto wanted)) s
   in \<not> is_ok r
      \<and> map_option rc_active_flow_capacity (ms_runtime_config (sv_backend s')) = Some 6000
      \<and> rc_active_flow_capacity (snapshot (sv_config s')) = 4096"
proof -
  let ?big = "\<lparr>mm_flow_index = 100000, mm_flow_state = 100000\<rparr> :: map_maxima"
  let ?wanted = "runtime_config_default\<lparr>rc_active_flow_capacity := 6000\<rparr>"
  have big: "validate_with_maxima (?wanted\<lparr>rc_revision := 0\<rparr>) ?big = Inr ()"
    "validate_with_maxima ?wanted ?big = Inr ()"
    by (simp_all add: default_config_defs)
  have "runtime_config_from_proto (cfr_config (config_to_proto ?wanted)) =
      Inr (?wanted\<lparr>rc_revision := 0\<rparr>)"
    by (rule config_from_to_proto [OF big(2)]) (simp add: default_config_defs)
  moreover have "validate_with_maxima (?wanted\<lparr>rc_revision := 0\<rparr>) map_maxima_default =
      Inl FlowIndexCapacityExceeded"
    by (simp add: validate_with_maxima_def default_config_defs map_maxima_default_def)
  ultimately show ?thesis
    using big
    by (simp add: set_config_def on_backend_def sample_service_def service_new_def memory_backend_def
        memory_set_runtime_config_def memory_default_def snapshot_def store_update_def Let_def
        default_rc_flow_capacity del: validate_with_maxima_iff)
qed

end
