(* ===== verification/Host_Types.thy ===== *)
theory Host_Types
  imports Proto
begin

text \<open>
  The data of the host proxy (\<open>crates/host-proxy/src/lib.rs\<close>): socket tuples, errors, flow
  records, the proxy's configuration with its validation, and the checks on a mapping before
  a connection is made. \<open>tls_rustls\<close> is the Cargo feature that selects the certificate
  client; without it the pre-shared-key fields are required.
\<close>

section \<open>Data\<close>

definition TCP_PROTOCOL :: u8 where "TCP_PROTOCOL = 6"
definition UDP_PROTOCOL :: u8 where "UDP_PROTOCOL = 17"
definition CONTROL_RPC_TIMEOUT :: duration where "CONTROL_RPC_TIMEOUT = from_secs 5"

record host_tuple =
  ht_source :: socket_addr
  ht_destination :: socket_addr
  ht_protocol :: u8

record original_destination =
  od_address :: socket_addr
  od_protocol :: u8

datatype proxy_error =
    InvalidConfiguration string
  | MappingNotFound
  | InvalidMapping string
  | Control string
  | Io string
  | UnsupportedPlatform

fun proxy_error_message :: "proxy_error \<Rightarrow> string" where
  "proxy_error_message (InvalidConfiguration m) = ''invalid configuration: '' @ m"
| "proxy_error_message MappingNotFound = ''mapping not found''"
| "proxy_error_message (InvalidMapping m) = ''mapping response is invalid: '' @ m"
| "proxy_error_message (Control m) = ''control service error: '' @ m"
| "proxy_error_message (Io m) = ''I/O error: '' @ m"
| "proxy_error_message UnsupportedPlatform = ''proxy is unsupported on this platform''"

definition checked_flow_protocol :: "u32 \<Rightarrow> proxy_error + u8" where
  "checked_flow_protocol protocol =
     ok_or (InvalidMapping ''flow protocol is out of range'') (u8_try_from_u32 protocol)"

record flow_record =
  fr_flow_id :: u64
  fr_generation :: u32
  fr_synthetic :: host_tuple
  fr_original :: host_tuple
  fr_last_used_ns :: u64
  fr_protocol_flags :: u32
  fr_tcp_state_flags :: u32
  fr_observed_now_ns :: u64
  fr_fin_seen_mask :: u32
  fr_fin_ack_seen_mask :: u32

datatype flow_delete_outcome =
    Complete
  | AlreadyAbsent
  | StaleGeneration
  | ObservationMismatch
  | Partial

record flow_delete_report =
  dr_flow_id :: u64
  dr_generation :: u32
  dr_outcome :: flow_delete_outcome
  dr_indexes_deleted :: u32
  dr_state_deleted :: bool
  dr_retryable :: bool

record proxy_config =
  px_listen :: socket_addr
  px_listen_backlog :: u32
  px_control_endpoint :: string
  px_psk_identity :: string
  px_psk_secret :: bytes
  px_udp_idle_timeout :: duration
  px_cleanup_interval :: duration
  px_idle_ttl :: duration
  px_tcp_terminal_grace :: duration
  px_flow_scan_batch :: u32

section \<open>Validation\<close>

definition duration_to_nanos :: "duration \<Rightarrow> string \<Rightarrow> proxy_error + u64" where
  "duration_to_nanos d name =
     ok_or (InvalidConfiguration (name @ '' is too large to represent in nanoseconds''))
       (u64_try_from d)"

fun check_durations :: "(string \<times> duration) list \<Rightarrow> proxy_error + unit" where
  "check_durations [] = Inr ()"
| "check_durations ((name, d) # ds) = and_then (duration_to_nanos d name) (\<lambda>_. check_durations ds)"

definition proxy_validate :: "bool \<Rightarrow> proxy_config \<Rightarrow> proxy_error + unit" where
  "proxy_validate tls_rustls c =
     (if is_unspecified (sa_ip (px_listen c))
      then Inl (InvalidConfiguration
        ''listen address must be specific so UDP tuples identify the local destination'')
      else if px_control_endpoint c = []
      then Inl (InvalidConfiguration ''control endpoint is required'')
      else if \<not> tls_rustls \<and> (px_psk_identity c = [] \<or> px_psk_secret c = [])
      then Inl (InvalidConfiguration ''PSK identity and secret are required'')
      else if px_udp_idle_timeout c = 0
      then Inl (InvalidConfiguration ''UDP idle timeout must be nonzero'')
      else if px_listen_backlog c = 0 \<or> px_listen_backlog c > 0x7FFFFFFF
      then Inl (InvalidConfiguration
        (''native listen backlog must be between 1 and i32::MAX; '' @
         ''it does not size internal conditional-accept queues''))
      else
        and_then (check_durations
          [(''UDP idle timeout'', px_udp_idle_timeout c), (''cleanup interval'', px_cleanup_interval c),
           (''idle TTL'', px_idle_ttl c), (''TCP terminal grace'', px_tcp_terminal_grace c)]) (\<lambda>_.
        if px_cleanup_interval c = 0 \<or> px_idle_ttl c = 0 \<or> px_tcp_terminal_grace c = 0
           \<or> px_flow_scan_batch c = 0 \<or> px_flow_scan_batch c > 10000
        then Inl (InvalidConfiguration ''maintenance settings must be nonzero'')
        else Inr ()))"

definition validate_tls_psk :: "proxy_config \<Rightarrow> proxy_error + unit" where
  "validate_tls_psk c =
     (if px_psk_identity c = [] \<or> px_psk_secret c = []
      then Inl (InvalidConfiguration ''PSK identity and secret are required'')
      else Inr ())"

definition validate_tcp_mapping :: "host_tuple \<Rightarrow> original_destination \<Rightarrow> proxy_error + unit" where
  "validate_tcp_mapping t original =
     (if od_protocol original \<noteq> TCP_PROTOCOL
      then Inl (InvalidMapping ''TCP lookup returned a non-TCP mapping'')
      else if is_unspecified (sa_ip (od_address original)) \<or> sa_port (od_address original) = 0
              \<or> is_ipv4 (sa_ip (od_address original)) \<noteq> is_ipv4 (sa_ip (ht_destination t))
      then Inl (InvalidMapping ''TCP mapping destination has an invalid address, port, or family'')
      else Inr ())"

definition unspecified_for :: "socket_addr \<Rightarrow> socket_addr" where
  "unspecified_for a = (case sa_ip a of V4 _ \<Rightarrow> SocketAddrV4 0 0 | V6 _ \<Rightarrow> SocketAddrV6 0 0 0 0)"

section \<open>Interfaces\<close>

text \<open>The client traits as records of functions over the state behind them. A call ends with a
  result or an error; how long it took is not part of the result.\<close>

record 's control_client =
  cc_get_mapping :: "host_tuple \<Rightarrow> 's \<Rightarrow> (proxy_error + original_destination) \<times> 's"
  cc_enumerate_flows :: "bytes \<Rightarrow> u32 \<Rightarrow> 's \<Rightarrow> (proxy_error + flow_record list \<times> bytes) \<times> 's"
  cc_delete_flow :: "u64 \<Rightarrow> u32 \<Rightarrow> u64 \<Rightarrow> 's \<Rightarrow> (proxy_error + flow_delete_report) \<times> 's"

text \<open>\<open>control_operation\<close> races a call against the shutdown signal and a deadline. Which one
  wins is decided outside the program: \<open>env\<close> yields it, with whatever the other tasks did to
  the state in the meantime. An abandoned call may or may not have reached the service; the
  flag of the first two outcomes says whether it did.\<close>

datatype race = ShutdownFirst bool | DeadlineFirst bool | OperationFirst

definition control_operation ::
    "('s \<Rightarrow> race \<times> 's) \<Rightarrow> ('s \<Rightarrow> (proxy_error + 'a) \<times> 's) \<Rightarrow> 's
       \<Rightarrow> (proxy_error + 'a option) \<times> 's" where
  "control_operation env operation s =
     (case env s of
        (ShutdownFirst sent, s) \<Rightarrow> (Inr None, if sent then snd (operation s) else s)
      | (DeadlineFirst sent, s) \<Rightarrow>
          (Inl (Control ''control RPC timed out''), if sent then snd (operation s) else s)
      | (OperationFirst, s) \<Rightarrow>
          (case operation s of (Inl e, s) \<Rightarrow> (Inl e, s) | (Inr x, s) \<Rightarrow> (Inr (Some x), s)))"

section \<open>What validation accepts\<close>

lemma duration_to_nanos_ok: "(\<exists>w. duration_to_nanos d n = Inr w) \<longleftrightarrow> d < 2 ^ 64"
  by (simp add: duration_to_nanos_def u64_try_from_def ok_or_def)

lemma duration_to_nanos_value: "duration_to_nanos d n = Inr w \<Longrightarrow> unat w = d"
  by (auto simp: duration_to_nanos_def u64_try_from_def ok_or_def unat_of_nat split: if_splits option.splits)

lemma check_durations_ok: "check_durations ds = Inr u \<longleftrightarrow> (\<forall>d \<in> set ds. snd d < 2 ^ 64)"
  by (induction ds rule: check_durations.induct)
     (auto simp: and_then_Inr_iff duration_to_nanos_ok simp del: One_nat_def)

definition usable_config :: "bool \<Rightarrow> proxy_config \<Rightarrow> bool" where
  "usable_config tls_rustls c \<longleftrightarrow>
     \<not> is_unspecified (sa_ip (px_listen c)) \<and> px_control_endpoint c \<noteq> []
     \<and> (tls_rustls \<or> px_psk_identity c \<noteq> [] \<and> px_psk_secret c \<noteq> [])
     \<and> px_listen_backlog c \<noteq> 0 \<and> px_listen_backlog c \<le> 0x7FFFFFFF
     \<and> (\<forall>d \<in> {px_udp_idle_timeout c, px_cleanup_interval c, px_idle_ttl c, px_tcp_terminal_grace c}.
          0 < d \<and> d < 2 ^ 64)
     \<and> 0 < px_flow_scan_batch c \<and> px_flow_scan_batch c \<le> 10000"

lemma proxy_validate_usable: "proxy_validate f c = Inr u \<longleftrightarrow> usable_config f c"
  by (auto simp: proxy_validate_def usable_config_def and_then_Inr_iff check_durations_ok word_gt_0
      not_less simp del: check_durations.simps)

end
