(* ===== verification/Host_Client.thy ===== *)
theory Host_Client
  imports Host_Types
begin

text \<open>
  The host's gRPC client (\<open>crates/host-proxy/src/rustls_client.rs\<close>, and its pre-shared-key
  twin in \<open>lib.rs\<close>, which differs in how the channel is opened). The generated stub is a record
  of functions over the state behind the channel: a call yields a reply or a status, or
  \<open>None\<close> when the local deadline of five seconds passed first, in which case the state may
  still have changed. \<open>ch_lock\<close> says whether the client mutex was obtained in time.
\<close>

section \<open>The channel\<close>

record 's channel =
  ch_lock :: "'s \<Rightarrow> bool \<times> 's"
  ch_attach :: "interface_request \<Rightarrow> 's \<Rightarrow> (status + operation_reply) option \<times> 's"
  ch_detach :: "detach_request \<Rightarrow> 's \<Rightarrow> (status + operation_reply) option \<times> 's"
  ch_get_config :: "'s \<Rightarrow> (status + config_reply) option \<times> 's"
  ch_set_config :: "proto_config option \<Rightarrow> 's \<Rightarrow> (status + config_reply) option \<times> 's"
  ch_get_mapping :: "proto_tuple option \<Rightarrow> 's \<Rightarrow> (status + proto_mapping) option \<times> 's"
  ch_enumerate_flows :: "enumerate_flows_request \<Rightarrow> 's \<Rightarrow> (status + enumerate_flows_reply) option \<times> 's"
  ch_delete_flow :: "delete_flow_request \<Rightarrow> 's \<Rightarrow> (status + delete_flow_reply) option \<times> 's"
  ch_show_status :: "status \<Rightarrow> string"

definition bounded_rpc ::
    "'s channel \<Rightarrow> ('s \<Rightarrow> (status + 'a) option \<times> 's) \<Rightarrow> 's \<Rightarrow> (proxy_error + 'a) \<times> 's" where
  "bounded_rpc C operation s =
     (case operation s of
        (None, s) \<Rightarrow> (Inl (Control ''control RPC timed out''), s)
      | (Some (Inl st), s) \<Rightarrow> (Inl (Control (ch_show_status C st)), s)
      | (Some (Inr x), s) \<Rightarrow> (Inr x, s))"

definition client_locked ::
    "'s channel \<Rightarrow> ('s \<Rightarrow> (proxy_error + 'a) \<times> 's) \<Rightarrow> 's \<Rightarrow> (proxy_error + 'a) \<times> 's" where
  "client_locked C f s =
     (case ch_lock C s of
        (False, s) \<Rightarrow> (Inl (Control ''control client lock timed out''), s)
      | (True, s) \<Rightarrow> f s)"

section \<open>Conversions\<close>

fun client_ip_bytes :: "ip_addr \<Rightarrow> bytes" where
  "client_ip_bytes (V4 a) = octets (V4 a)"
| "client_ip_bytes (V6 a) = octets (V6 a)"

definition ip_from_bytes :: "u32 \<Rightarrow> bytes \<Rightarrow> proxy_error + ip_addr" where
  "ip_from_bytes fam bs =
     (if fam = 4 \<and> length bs = 4 then Inr (V4 (from_be_bytes bs))
      else if fam = 6 \<and> length bs = 16 then Inr (V6 (from_be_bytes bs))
      else Inl (InvalidMapping ''invalid address family''))"

definition client_tuple_from_proto :: "proto_tuple \<Rightarrow> proxy_error + host_tuple" where
  "client_tuple_from_proto t =
     and_then (ip_from_bytes (pt_family t) (pt_source_address t)) (\<lambda>source.
     and_then (ip_from_bytes (pt_family t) (pt_destination_address t)) (\<lambda>destination.
       if pt_protocol t > 0xFF \<or> pt_source_port t > 0xFFFF \<or> pt_destination_port t > 0xFFFF
       then Inl (InvalidMapping ''tuple field out of range'')
       else Inr \<lparr>ht_source = socket_addr_new source (ucast (pt_source_port t)),
                 ht_destination = socket_addr_new destination (ucast (pt_destination_port t)),
                 ht_protocol = ucast (pt_protocol t)\<rparr>))"

definition lookup_request :: "host_tuple \<Rightarrow> proto_tuple" where
  "lookup_request t =
     \<lparr>pt_family = (if is_ipv4 (sa_ip (ht_source t)) then 4 else 6),
      pt_source_address = client_ip_bytes (sa_ip (ht_source t)),
      pt_destination_address = client_ip_bytes (sa_ip (ht_destination t)),
      pt_protocol = ucast (ht_protocol t),
      pt_source_port = ucast (sa_port (ht_source t)),
      pt_destination_port = ucast (sa_port (ht_destination t))\<rparr>"

definition flow_from_proto :: "proto_flow \<Rightarrow> proxy_error + flow_record" where
  "flow_from_proto f =
     and_then (ok_or (InvalidMapping ''flow synthetic tuple missing'') (pf_synthetic f)) (\<lambda>p.
     and_then (client_tuple_from_proto p) (\<lambda>synthetic.
     and_then (ok_or (InvalidMapping ''flow original tuple missing'') (pf_original f)) (\<lambda>p.
     and_then (client_tuple_from_proto p) (\<lambda>original.
     and_then (checked_flow_protocol (pf_protocol f)) (\<lambda>protocol.
       if ht_protocol synthetic \<noteq> protocol \<or> ht_protocol original \<noteq> protocol
       then Inl (InvalidMapping ''flow protocol does not match tuples'')
       else Inr \<lparr>fr_flow_id = pf_flow_id f, fr_generation = pf_generation f,
                 fr_synthetic = synthetic, fr_original = original,
                 fr_last_used_ns = pf_last_used_ns f, fr_protocol_flags = pf_protocol_flags f,
                 fr_tcp_state_flags = pf_tcp_state_flags f,
                 fr_observed_now_ns = pf_observed_now_ns f,
                 fr_fin_seen_mask = pf_fin_seen_mask f,
                 fr_fin_ack_seen_mask = pf_fin_ack_seen_mask f\<rparr>)))))"

fun outcome_from_proto :: "delete_outcome \<Rightarrow> flow_delete_outcome" where
  "outcome_from_proto OutcomeComplete = Complete"
| "outcome_from_proto OutcomeAlreadyAbsent = AlreadyAbsent"
| "outcome_from_proto OutcomeStaleGeneration = StaleGeneration"
| "outcome_from_proto OutcomePartial = Partial"
| "outcome_from_proto OutcomeObservationMismatch = ObservationMismatch"

definition report_from_proto :: "delete_flow_reply \<Rightarrow> proxy_error + flow_delete_report" where
  "report_from_proto r =
     and_then (ok_or (Control ''unknown flow deletion outcome'') (outcome_try_from (dfr_outcome r)))
       (\<lambda>outcome. Inr \<lparr>dr_flow_id = dfr_flow_id r, dr_generation = dfr_generation r,
                        dr_outcome = outcome_from_proto outcome,
                        dr_indexes_deleted = dfr_indexes_deleted r,
                        dr_state_deleted = dfr_state_deleted r, dr_retryable = dfr_retryable r\<rparr>)"

definition destination_from_mapping ::
    "host_tuple \<Rightarrow> proto_mapping \<Rightarrow> proxy_error + original_destination" where
  "destination_from_mapping t m =
     and_then (ok_or (InvalidMapping ''missing synthetic tuple'') (pm_synthetic m)) (\<lambda>p.
     and_then (client_tuple_from_proto p) (\<lambda>synthetic.
       if synthetic \<noteq> t
       then Inl (InvalidMapping ''mapping synthetic tuple does not match lookup'')
       else
         and_then (ok_or (InvalidMapping ''missing original tuple'') (pm_original m)) (\<lambda>p.
         and_then (client_tuple_from_proto p) (\<lambda>address.
           if ht_protocol address \<noteq> ht_protocol t
           then Inl (InvalidMapping ''mapping protocol does not match lookup'')
           else if is_unspecified (sa_ip (ht_destination address))
                   \<or> sa_port (ht_destination address) = 0
                   \<or> is_ipv4 (sa_ip (ht_destination address)) \<noteq> is_ipv4 (sa_ip (ht_destination t))
           then Inl (InvalidMapping ''mapping destination has an invalid address or port'')
           else Inr \<lparr>od_address = ht_destination address, od_protocol = ht_protocol address\<rparr>))))"

section \<open>Operations\<close>

definition set_target :: "socket_addr \<Rightarrow> proto_config \<Rightarrow> proto_config" where
  "set_target proxy config =
     (case sa_ip proxy of
        V4 a \<Rightarrow> config\<lparr>pc_ipv4_target_address := octets (V4 a),
                       pc_ipv4_target_port := ucast (sa_port proxy)\<rparr>
      | V6 a \<Rightarrow> config\<lparr>pc_ipv6_target_address := octets (V6 a),
                       pc_ipv6_target_port := ucast (sa_port proxy)\<rparr>)"

definition configure_target :: "'s channel \<Rightarrow> socket_addr \<Rightarrow> 's \<Rightarrow> (proxy_error + unit) \<times> 's" where
  "configure_target C proxy =
     bind_act (bounded_rpc C (ch_get_config C)) (\<lambda>reply.
       case cfr_config reply of
         None \<Rightarrow> fail (Control ''control service returned no config'')
       | Some config \<Rightarrow>
           bind_act (bounded_rpc C (ch_set_config C (Some (set_target proxy config)))) (\<lambda>_. ret ()))"

definition detach_interface :: "'s channel \<Rightarrow> string \<Rightarrow> 's \<Rightarrow> (proxy_error + operation_reply) \<times> 's" where
  "detach_interface C interface =
     bounded_rpc C (ch_detach C \<lparr>drq_interfaces = [interface], drq_all = False\<rparr>)"

definition activate ::
    "'s channel \<Rightarrow> string \<Rightarrow> string \<Rightarrow> socket_addr \<Rightarrow> 's \<Rightarrow> (proxy_error + unit) \<times> 's" where
  "activate C elf_path interface proxy =
     (if elf_path = [] \<or> interface = []
      then fail (InvalidConfiguration ''BPF ELF path and interface are required'')
      else client_locked C (
        bind_act (bounded_rpc C (ch_attach C
            \<lparr>irq_elf_path = elf_path, irq_interfaces = [interface]\<rparr>)) (\<lambda>attached.
          if \<not> op_success attached then fail (Control (op_message attached))
          else attempt (configure_target C proxy) (\<lambda>configured.
            case configured of
              Inr _ \<Rightarrow> ret ()
            | Inl error \<Rightarrow>
                attempt (detach_interface C interface) (\<lambda>rollback.
                  case rollback of
                    Inr _ \<Rightarrow> fail error
                  | Inl e \<Rightarrow>
                      fail (Control (proxy_error_message error @ ''; attach rollback failed: ''
                                     @ proxy_error_message e)))))))"

definition client_detach :: "'s channel \<Rightarrow> string \<Rightarrow> 's \<Rightarrow> (proxy_error + unit) \<times> 's" where
  "client_detach C interface =
     client_locked C (bind_act (detach_interface C interface) (\<lambda>_. ret ()))"

definition client_enumerate_flows ::
    "'s channel \<Rightarrow> bytes \<Rightarrow> u32 \<Rightarrow> 's \<Rightarrow> (proxy_error + flow_record list \<times> bytes) \<times> 's" where
  "client_enumerate_flows C page_token limit =
     client_locked C (
       bind_act (bounded_rpc C (ch_enumerate_flows C
           \<lparr>efq_limit = limit, efq_page_token = page_token\<rparr>)) (\<lambda>reply s.
         (and_then (collect_results (map flow_from_proto (efr_flows reply))) (\<lambda>flows.
            Inr (flows, efr_next_page_token reply)), s)))"

definition client_delete_flow ::
    "'s channel \<Rightarrow> u64 \<Rightarrow> u32 \<Rightarrow> u64 \<Rightarrow> 's \<Rightarrow> (proxy_error + flow_delete_report) \<times> 's" where
  "client_delete_flow C flow_id generation observed =
     client_locked C (
       bind_act (bounded_rpc C (ch_delete_flow C
           \<lparr>dfq_flow_id = flow_id, dfq_generation = generation,
            dfq_observed_last_used_ns = observed\<rparr>)) (\<lambda>reply s. (report_from_proto reply, s)))"

definition lookup_error :: "'s channel \<Rightarrow> status \<Rightarrow> proxy_error" where
  "lookup_error C st =
     (case st of Status code _ \<Rightarrow>
        if code = NotFound then MappingNotFound else Control (ch_show_status C st))"

definition client_get_mapping ::
    "'s channel \<Rightarrow> host_tuple \<Rightarrow> 's \<Rightarrow> (proxy_error + original_destination) \<times> 's" where
  "client_get_mapping C t =
     client_locked C (\<lambda>s.
       case ch_get_mapping C (Some (lookup_request t)) s of
         (None, s) \<Rightarrow> (Inl (Control ''control RPC timed out''), s)
       | (Some (Inl st), s) \<Rightarrow> (Inl (lookup_error C st), s)
       | (Some (Inr m), s) \<Rightarrow> (destination_from_mapping t m, s))"

definition rustls_client :: "'s channel \<Rightarrow> 's control_client" where
  "rustls_client C =
     \<lparr>cc_get_mapping = client_get_mapping C, cc_enumerate_flows = client_enumerate_flows C,
      cc_delete_flow = client_delete_flow C\<rparr>"

text \<open>The pre-shared-key client has the same operations over its own channel.\<close>

definition psk_activate ::
    "'s channel \<Rightarrow> string \<Rightarrow> string \<Rightarrow> socket_addr \<Rightarrow> 's \<Rightarrow> (proxy_error + unit) \<times> 's" where
  "psk_activate C elf_path interface proxy = activate C elf_path interface proxy"

definition psk_detach :: "'s channel \<Rightarrow> string \<Rightarrow> 's \<Rightarrow> (proxy_error + unit) \<times> 's" where
  "psk_detach C interface = client_detach C interface"

definition psk_enumerate_flows ::
    "'s channel \<Rightarrow> bytes \<Rightarrow> u32 \<Rightarrow> 's \<Rightarrow> (proxy_error + flow_record list \<times> bytes) \<times> 's" where
  "psk_enumerate_flows C page_token limit = client_enumerate_flows C page_token limit"

definition psk_delete_flow ::
    "'s channel \<Rightarrow> u64 \<Rightarrow> u32 \<Rightarrow> u64 \<Rightarrow> 's \<Rightarrow> (proxy_error + flow_delete_report) \<times> 's" where
  "psk_delete_flow C flow_id generation observed = client_delete_flow C flow_id generation observed"

definition psk_get_mapping ::
    "'s channel \<Rightarrow> host_tuple \<Rightarrow> 's \<Rightarrow> (proxy_error + original_destination) \<times> 's" where
  "psk_get_mapping C t = client_get_mapping C t"

definition psk_client :: "'s channel \<Rightarrow> 's control_client" where
  "psk_client C =
     \<lparr>cc_get_mapping = psk_get_mapping C, cc_enumerate_flows = psk_enumerate_flows C,
      cc_delete_flow = psk_delete_flow C\<rparr>"

text \<open>On other platforms the client is a placeholder.\<close>

definition unsupported_client :: "'s control_client" where
  "unsupported_client =
     \<lparr>cc_get_mapping = (\<lambda>_. fail UnsupportedPlatform), cc_enumerate_flows = (\<lambda>_ _. fail UnsupportedPlatform),
      cc_delete_flow = (\<lambda>_ _ _. fail UnsupportedPlatform)\<rparr>"

section \<open>Looking up a mapping\<close>

lemma tuple_from_proto_plain:
  assumes "client_tuple_from_proto p = Inr t"
  shows "ht_source t = socket_addr_new (sa_ip (ht_source t)) (sa_port (ht_source t))"
    "ht_destination t = socket_addr_new (sa_ip (ht_destination t)) (sa_port (ht_destination t))"
    "is_ipv4 (sa_ip (ht_source t)) = is_ipv4 (sa_ip (ht_destination t))"
  using assms
  by (auto simp: client_tuple_from_proto_def and_then_Inr_iff ip_from_bytes_def split: if_splits)

lemma destination_checked:
  assumes "destination_from_mapping t m = Inr od"
  shows "od_protocol od = ht_protocol t" "\<not> is_unspecified (sa_ip (od_address od))"
    "sa_port (od_address od) \<noteq> 0" "is_ipv4 (sa_ip (od_address od)) = is_ipv4 (sa_ip (ht_destination t))"
    "\<exists>p. pm_synthetic m = Some p \<and> client_tuple_from_proto p = Inr t"
  using assms
  by (auto simp: destination_from_mapping_def and_then_Inr_iff split: if_splits)

lemma get_mapping_reply:
  assumes "client_get_mapping C t s = (Inr od, s')"
  shows "\<exists>m. destination_from_mapping t m = Inr od"
  using assms
  by (auto simp: client_get_mapping_def client_locked_def split: prod.splits bool.splits option.splits sum.splits)


text \<open>A channel that answers every lookup from the tuple 10.0.0.2:4000 to 10.0.0.1:80.\<close>

definition sample_tuple_pair :: "host_tuple \<times> host_tuple" where
  "sample_tuple_pair =
     (\<lparr>ht_source = SocketAddrV4 0x0A000002 4000, ht_destination = SocketAddrV4 0x0A000001 80, ht_protocol = 6\<rparr>,
      \<lparr>ht_source = SocketAddrV4 0x0A000002 4000, ht_destination = SocketAddrV4 0x08080808 80, ht_protocol = 6\<rparr>)"

definition sample_channel :: "unit channel" where
  "sample_channel =
     \<lparr>ch_lock = (\<lambda>s. (True, s)), ch_attach = (\<lambda>_. Pair None), ch_detach = (\<lambda>_. Pair None), ch_get_config = Pair None,
      ch_set_config = (\<lambda>_. Pair None),
      ch_get_mapping = (\<lambda>_ s. (Some (Inr
        \<lparr>pm_synthetic = Some (lookup_request (fst sample_tuple_pair)),
         pm_original = Some (lookup_request (snd sample_tuple_pair)),
         pm_last_seen_ns = 0, pm_protocol_flags = 0, pm_tcp_state_flags = 0\<rparr>), s)),
      ch_enumerate_flows = (\<lambda>_. Pair None), ch_delete_flow = (\<lambda>_. Pair None), ch_show_status = (\<lambda>_. [])\<rparr>"

lemma sample_lookup:
  "client_get_mapping sample_channel (fst sample_tuple_pair) () =
     (Inr \<lparr>od_address = SocketAddrV4 0x08080808 80, od_protocol = 6\<rparr>, ())"
  by (simp add: client_get_mapping_def client_locked_def sample_channel_def sample_tuple_pair_def
      destination_from_mapping_def lookup_request_def client_tuple_from_proto_def ip_from_bytes_def)


text \<open>C38: a finding. The tuple in a reply never carries an IPv6 scope or flow label, and the
  client requires it to be equal to the accepted tuple, which does for a link-local peer. Such
  a lookup fails whatever the service answers.\<close>

theorem scoped_lookup_fails:
  assumes "ht_source t = SocketAddrV6 a p flowinfo scope" "flowinfo \<noteq> 0 \<or> scope \<noteq> 0"
  shows "\<not> is_ok (fst (client_get_mapping C t s))"
proof
  assume "is_ok (fst (client_get_mapping C t s))"
  then obtain od where "client_get_mapping C t s = (Inr od, snd (client_get_mapping C t s))"
    by (metis is_ok_iff prod.collapse)
  from get_mapping_reply [OF this] obtain m where "destination_from_mapping t m = Inr od" ..
  then show False
    using destination_checked(5) tuple_from_proto_plain(1) assms by fastforce
qed

theorem scoped_lookup_fails_witness:
  "\<not> is_ok (fst (client_get_mapping sample_channel
      \<lparr>ht_source = SocketAddrV6 0xFE800000000000000000000000000001 4000 0 2,
       ht_destination = SocketAddrV6 0xFE800000000000000000000000000002 80 0 2, ht_protocol = 6\<rparr> ()))"
  by (rule scoped_lookup_fails [where a = "0xFE800000000000000000000000000001" and p = 4000
        and flowinfo = 0 and scope = 2]) simp_all

end
