(* ===== verification/Maintenance.thy ===== *)
theory Maintenance
  imports Host_Types "HOL-Library.Multiset"
begin

text \<open>
  The host's flow maintenance (\<open>run_maintenance\<close> in \<open>crates/host-proxy/src/lib.rs\<close>): scan all
  pages of flows, remember the expired ones, delete them against the observation they were
  judged by, drop the UDP associations of deleted flows, and back off after a failure.

  The control client, the UDP associations, the clock and the other tasks act on one opaque
  state through the record \<open>maint_env\<close>. The hash map of pending deletions is a list of keyed
  records; the order in which its values are visited is \<open>me_order\<close>. A scan may in principle
  be given new page tokens for ever, and the outer loop runs until shutdown: both take fuel,
  and \<open>None\<close> means that the fuel ran out.
\<close>

section \<open>Environment and state\<close>

record 's maint_env =
  me_client :: "'s control_client"
  me_race :: "'s \<Rightarrow> race \<times> 's"
  me_sleep :: "nat \<Rightarrow> 's \<Rightarrow> bool \<times> 's"
  me_now :: "'s \<Rightarrow> nat \<times> 's"
  me_observe_flow :: "host_tuple \<Rightarrow> u64 \<Rightarrow> u32 \<Rightarrow> 's \<Rightarrow> 's"
  me_invalidate :: "host_tuple \<Rightarrow> u64 \<Rightarrow> u32 \<Rightarrow> 's \<Rightarrow> 's"
  me_order :: "flow_record list \<Rightarrow> flow_record list"

record maint_config =
  mc_cleanup_interval :: duration
  mc_udp_idle_ns :: u64
  mc_idle_ttl_ns :: u64
  mc_grace_ns :: u64
  mc_flow_scan_batch :: u32

text \<open>The settings are converted once, before the loop; \<open>expect\<close> panics (\<open>None\<close>) on a duration
  that does not fit.\<close>

definition maintenance_settings :: "proxy_config \<Rightarrow> maint_config option" where
  "maintenance_settings p =
     (case (duration_to_nanos (px_udp_idle_timeout p) ''UDP idle timeout'',
            duration_to_nanos (px_idle_ttl p) ''idle TTL'',
            duration_to_nanos (px_tcp_terminal_grace p) ''TCP terminal grace'') of
        (Inr udp, Inr idle, Inr grace) \<Rightarrow>
          Some \<lparr>mc_cleanup_interval = px_cleanup_interval p, mc_udp_idle_ns = udp,
                mc_idle_ttl_ns = idle, mc_grace_ns = grace, mc_flow_scan_batch = px_flow_scan_batch p\<rparr>
      | _ \<Rightarrow> None)"

type_synonym pending = "((u64 \<times> u32) \<times> flow_record) list"

definition record_key :: "flow_record \<Rightarrow> u64 \<times> u32" where
  "record_key f = (fr_flow_id f, fr_generation f)"

definition pending_insert :: "flow_record \<Rightarrow> pending \<Rightarrow> pending" where
  "pending_insert f ps = (record_key f, f) # filter (\<lambda>e. fst e \<noteq> record_key f) ps"

definition pending_remove :: "flow_record \<Rightarrow> pending \<Rightarrow> pending" where
  "pending_remove f ps = filter (\<lambda>e. fst e \<noteq> record_key f) ps"

section \<open>One pass\<close>

definition flow_age :: "flow_record \<Rightarrow> u64" where
  "flow_age f = saturating_sub_u64 (fr_observed_now_ns f) (fr_last_used_ns f)"

definition flow_terminal :: "flow_record \<Rightarrow> bool" where
  "flow_terminal f \<longleftrightarrow>
     ht_protocol (fr_original f) = TCP_PROTOCOL \<and> fr_fin_seen_mask f = 3 \<and> fr_fin_ack_seen_mask f = 3"

definition flow_expired :: "maint_config \<Rightarrow> flow_record \<Rightarrow> bool" where
  "flow_expired c f \<longleftrightarrow>
     (let idle_threshold =
        (if ht_protocol (fr_original f) = UDP_PROTOCOL then mc_udp_idle_ns c else mc_idle_ttl_ns c)
      in fr_tcp_state_flags f AND push_bit 4 1 \<noteq> 0
         \<or> \<not> flow_terminal f \<and> flow_age f \<ge> idle_threshold
         \<or> flow_terminal f \<and> flow_age f \<ge> mc_grace_ns c)"

fun note_flows ::
    "'s maint_env \<Rightarrow> maint_config \<Rightarrow> flow_record list \<Rightarrow> pending \<Rightarrow> 's \<Rightarrow> pending \<times> 's" where
  "note_flows E c [] ps s = (ps, s)"
| "note_flows E c (f # fs) ps s =
     (let s = (if ht_protocol (fr_original f) = UDP_PROTOCOL
               then me_observe_flow E (fr_synthetic f) (fr_flow_id f) (fr_generation f) s else s);
          ps = (if flow_expired c f then pending_insert f ps else ps)
      in note_flows E c fs ps s)"

datatype scan_end = Scan_shutdown | Scan_failed | Scan_complete

fun scan_flows ::
    "nat \<Rightarrow> 's maint_env \<Rightarrow> maint_config \<Rightarrow> bytes \<Rightarrow> pending \<Rightarrow> 's
       \<Rightarrow> (scan_end \<times> pending \<times> 's) option" where
  "scan_flows 0 E c token ps s = None"
| "scan_flows (Suc n) E c token ps s =
     (case control_operation (me_race E)
             (cc_enumerate_flows (me_client E) token (mc_flow_scan_batch c)) s of
        (Inl e, s) \<Rightarrow> Some (Scan_failed, ps, s)
      | (Inr None, s) \<Rightarrow> Some (Scan_shutdown, ps, s)
      | (Inr (Some (flows, next)), s) \<Rightarrow>
          let (ps, s) = note_flows E c flows ps s
          in if next = [] then Some (Scan_complete, ps, s) else scan_flows n E c next ps s)"

definition settled :: "flow_delete_outcome \<Rightarrow> bool" where
  "settled outcome \<longleftrightarrow> outcome \<in> {Complete, AlreadyAbsent, StaleGeneration, ObservationMismatch}"

definition apply_report ::
    "'s maint_env \<Rightarrow> flow_record \<Rightarrow> flow_delete_report \<Rightarrow> pending \<Rightarrow> 's \<Rightarrow> pending \<times> 's" where
  "apply_report E f report ps s =
     (if settled (dr_outcome report)
      then (pending_remove f ps,
            if ht_protocol (fr_original f) = UDP_PROTOCOL
               \<and> dr_outcome report \<in> {Complete, AlreadyAbsent}
            then me_invalidate E (fr_synthetic f) (fr_flow_id f) (fr_generation f) s else s)
      else (ps, s))"

text \<open>The deletions of a pass. The flag in the result says whether the pass has failed; a
  missing flag means that shutdown ended it.\<close>

fun delete_flows ::
    "'s maint_env \<Rightarrow> flow_record list \<Rightarrow> bool \<Rightarrow> pending \<Rightarrow> 's \<Rightarrow> bool option \<times> pending \<times> 's" where
  "delete_flows E [] failed ps s = (Some failed, ps, s)"
| "delete_flows E (f # fs) failed ps s =
     (case control_operation (me_race E)
             (cc_delete_flow (me_client E) (fr_flow_id f) (fr_generation f) (fr_last_used_ns f)) s of
        (Inl e, s) \<Rightarrow> delete_flows E fs True ps s
      | (Inr None, s) \<Rightarrow> (None, ps, s)
      | (Inr (Some report), s) \<Rightarrow>
          let (ps, s) = apply_report E f report ps s
          in delete_flows E fs (failed \<or> dr_retryable report) ps s)"

definition maintenance_pass ::
    "nat \<Rightarrow> 's maint_env \<Rightarrow> maint_config \<Rightarrow> pending \<Rightarrow> 's \<Rightarrow> (bool option \<times> pending \<times> 's) option" where
  "maintenance_pass n E c ps s =
     (case scan_flows n E c [] ps s of
        None \<Rightarrow> None
      | Some (Scan_shutdown, ps, s) \<Rightarrow> Some (None, ps, s)
      | Some (end, ps, s) \<Rightarrow>
          Some (delete_flows E (me_order E (map snd ps)) (end = Scan_failed) ps s))"

section \<open>The loop\<close>

record maint_state =
  mt_retry_delay :: duration
  mt_pending :: pending
  mt_next_run :: nat

definition initial_retry_delay :: "maint_config \<Rightarrow> duration" where
  "initial_retry_delay c = min (mc_cleanup_interval c) (from_millis 100)"

definition saturating_double :: "duration \<Rightarrow> duration" where
  "saturating_double d = min (2 * d) duration_max"

definition schedule_next :: "maint_config \<Rightarrow> bool \<Rightarrow> nat \<Rightarrow> maint_state \<Rightarrow> maint_state" where
  "schedule_next c failed now m =
     (if failed
      then m\<lparr>mt_next_run := now + mt_retry_delay m,
             mt_retry_delay := min (saturating_double (mt_retry_delay m)) (mc_cleanup_interval c)\<rparr>
      else m\<lparr>mt_retry_delay := initial_retry_delay c, mt_next_run := now + mc_cleanup_interval c\<rparr>)"

fun maintenance_loop ::
    "nat \<Rightarrow> nat \<Rightarrow> 's maint_env \<Rightarrow> maint_config \<Rightarrow> maint_state \<Rightarrow> 's \<Rightarrow> (maint_state \<times> 's) option" where
  "maintenance_loop 0 n E c m s = None"
| "maintenance_loop (Suc k) n E c m s =
     (case me_sleep E (mt_next_run m) s of
        (False, s) \<Rightarrow> Some (m, s)
      | (True, s) \<Rightarrow>
          (case maintenance_pass n E c (mt_pending m) s of
             None \<Rightarrow> None
           | Some (None, ps, s) \<Rightarrow> Some (m\<lparr>mt_pending := ps\<rparr>, s)
           | Some (Some failed, ps, s) \<Rightarrow>
               (case me_now E s of (now, s) \<Rightarrow>
                  maintenance_loop k n E c (schedule_next c failed now (m\<lparr>mt_pending := ps\<rparr>)) s)))"

definition maint_start :: "maint_config \<Rightarrow> nat \<Rightarrow> maint_state" where
  "maint_start c now =
     \<lparr>mt_retry_delay = initial_retry_delay c, mt_pending = [], mt_next_run = now\<rparr>"

definition run_maintenance ::
    "nat \<Rightarrow> nat \<Rightarrow> 's maint_env \<Rightarrow> maint_config \<Rightarrow> 's \<Rightarrow> (maint_state \<times> 's) option" where
  "run_maintenance k n E c s =
     (case me_now E s of (now, s) \<Rightarrow> maintenance_loop k n E c (maint_start c now) s)"

section \<open>Recording what the loop does\<close>

text \<open>An environment that records the pages it returned, the deletions it was asked for and the
  associations it was told to drop. It behaves like the environment it records.\<close>

datatype maint_record =
    Page "flow_record list"
  | Deletion u64 u32 u64 "proxy_error + flow_delete_report"
  | Dropped host_tuple u64 u32

definition recorded :: "('a \<times> 's) \<Rightarrow> ('a \<Rightarrow> maint_record list) \<Rightarrow> maint_record list
    \<Rightarrow> 'a \<times> 's \<times> maint_record list" where
  "recorded r f log = (case r of (x, s) \<Rightarrow> (x, s, log @ f x))"

fun page_record :: "proxy_error + flow_record list \<times> bytes \<Rightarrow> maint_record list" where
  "page_record (Inl e) = []"
| "page_record (Inr (flows, next)) = [Page flows]"

definition recording_client :: "'s control_client \<Rightarrow> ('s \<times> maint_record list) control_client" where
  "recording_client C =
     \<lparr>cc_get_mapping = (\<lambda>t (s, log). recorded (cc_get_mapping C t s) (\<lambda>_. []) log),
      cc_enumerate_flows = (\<lambda>token limit (s, log).
        recorded (cc_enumerate_flows C token limit s) page_record log),
      cc_delete_flow = (\<lambda>i g observed (s, log).
        recorded (cc_delete_flow C i g observed s) (\<lambda>r. [Deletion i g observed r]) log)\<rparr>"

definition recording :: "'s maint_env \<Rightarrow> ('s \<times> maint_record list) maint_env" where
  "recording E =
     \<lparr>me_client = recording_client (me_client E),
      me_race = (\<lambda>(s, log). recorded (me_race E s) (\<lambda>_. []) log),
      me_sleep = (\<lambda>until (s, log). recorded (me_sleep E until s) (\<lambda>_. []) log),
      me_now = (\<lambda>(s, log). recorded (me_now E s) (\<lambda>_. []) log),
      me_observe_flow = (\<lambda>t i g (s, log). (me_observe_flow E t i g s, log)),
      me_invalidate = (\<lambda>t i g (s, log). (me_invalidate E t i g s, log @ [Dropped t i g])),
      me_order = me_order E\<rparr>"

fun pages :: "maint_record list \<Rightarrow> flow_record set" where
  "pages [] = {}"
| "pages (Page fs # log) = set fs \<union> pages log"
| "pages (_ # log) = pages log"

text \<open>What the next entry of a record may be, given the entries so far.\<close>

fun justified :: "maint_config \<Rightarrow> maint_record list \<Rightarrow> maint_record \<Rightarrow> bool" where
  "justified c log (Page fs) = True"
| "justified c log (Deletion i g observed r) =
     (\<exists>f \<in> pages log. flow_expired c f \<and> record_key f = (i, g) \<and> fr_last_used_ns f = observed)"
| "justified c log (Dropped t i g) =
     (\<exists>log' observed r f. log = log' @ [Deletion i g observed (Inr r)]
        \<and> dr_outcome r \<in> {Complete, AlreadyAbsent} \<and> f \<in> pages log' \<and> record_key f = (i, g)
        \<and> fr_synthetic f = t \<and> ht_protocol (fr_original f) = UDP_PROTOCOL)"

definition all_justified :: "maint_config \<Rightarrow> maint_record list \<Rightarrow> bool" where
  "all_justified c log \<longleftrightarrow> (\<forall>i < length log. justified c (take i log) (log ! i))"

lemma pages_append [simp]: "pages (xs @ ys) = pages xs \<union> pages ys"
  by (induction xs rule: pages.induct) auto

lemma all_justified_Nil [simp]: "all_justified c []"
  by (simp add: all_justified_def)

lemma all_justified_snoc [simp]:
  "all_justified c (log @ [x]) \<longleftrightarrow> all_justified c log \<and> justified c log x"
  by (auto simp: all_justified_def nth_append less_Suc_eq all_conj_distrib)

definition pending_ok :: "maint_config \<Rightarrow> maint_record list \<Rightarrow> pending \<Rightarrow> bool" where
  "pending_ok c log ps \<longleftrightarrow>
     (\<forall>(k, f) \<in> set ps. k = record_key f \<and> flow_expired c f \<and> f \<in> pages log)"

definition visits :: "'s maint_env \<Rightarrow> bool" where
  "visits E \<longleftrightarrow> (\<forall>xs. mset (me_order E xs) = mset xs)"

lemma pending_ok_mono: "pending_ok c log ps \<Longrightarrow> pages log \<subseteq> pages log' \<Longrightarrow> pending_ok c log' ps"
  by (auto simp: pending_ok_def)

lemma pending_ok_insert:
  "pending_ok c log ps \<Longrightarrow> flow_expired c f \<Longrightarrow> f \<in> pages log \<Longrightarrow> pending_ok c log (pending_insert f ps)"
  by (auto simp: pending_ok_def pending_insert_def)

lemma pending_ok_remove: "pending_ok c log ps \<Longrightarrow> pending_ok c log (pending_remove f ps)"
  by (auto simp: pending_ok_def pending_remove_def)

lemma page_record_cases: "page_record x = [] \<or> (\<exists>fs. page_record x = [Page fs])"
  by (cases x rule: page_record.cases) auto

lemma recorded_enumerate:
  assumes "control_operation (me_race (recording E))
      (cc_enumerate_flows (me_client (recording E)) token limit) (s, log) = (r, s', log')"
  shows "log' = log \<and> (\<forall>x. r \<noteq> Inr (Some x))
    \<or> (\<exists>fs. log' = log @ [Page fs] \<and> (\<forall>x. r = Inr (Some x) \<longrightarrow> fst x = fs))"
  using assms page_record_cases
  by (auto simp: control_operation_def recording_def recording_client_def recorded_def
      split: prod.splits race.splits sum.splits if_splits)

lemma recorded_delete:
  assumes "control_operation (me_race (recording E))
      (cc_delete_flow (me_client (recording E)) i g observed) (s, log) = (r, s', log')"
  shows "log' = log \<and> (\<forall>x. r \<noteq> Inr (Some x))
    \<or> (\<exists>x. log' = log @ [Deletion i g observed x] \<and> (\<forall>report. r = Inr (Some report) \<longrightarrow> x = Inr report))"
  using assms
  by (auto simp: control_operation_def recording_def recording_client_def recorded_def
      split: prod.splits race.splits sum.splits if_splits)

lemma note_flows_recording:
  assumes "note_flows (recording E) c fs ps (s, log) = (ps', s', log')"
    and "pending_ok c log ps" "set fs \<subseteq> pages log"
  shows "log' = log \<and> pending_ok c log ps'"
  using assms
proof (induction fs arbitrary: ps s)
  case Nil
  then show ?case by simp
next
  case (Cons f fs)
  have "\<exists>s1. (if ht_protocol (fr_original f) = UDP_PROTOCOL
      then me_observe_flow (recording E) (fr_synthetic f) (fr_flow_id f) (fr_generation f) (s, log)
      else (s, log)) = (s1, log)"
    by (simp add: recording_def)
  then obtain s1 where s1: "(if ht_protocol (fr_original f) = UDP_PROTOCOL
      then me_observe_flow (recording E) (fr_synthetic f) (fr_flow_id f) (fr_generation f) (s, log)
      else (s, log)) = (s1, log)" ..
  have "pending_ok c log (if flow_expired c f then pending_insert f ps else ps)"
    using Cons.prems by (auto intro: pending_ok_insert)
  with Cons s1 show ?case by (auto simp: Let_def)
qed

lemma scan_flows_recording:
  assumes "scan_flows n (recording E) c token ps (s, log) = Some (e, ps', s', log')"
    and "all_justified c log" "pending_ok c log ps"
  shows "all_justified c log' \<and> pending_ok c log' ps'"
  using assms
proof (induction n arbitrary: token ps s log)
  case 0
  then show ?case by simp
next
  case (Suc n)
  obtain r s1 log1 where r: "control_operation (me_race (recording E))
      (cc_enumerate_flows (me_client (recording E)) token (mc_flow_scan_batch c)) (s, log) = (r, s1, log1)"
    by (metis prod_cases3)
  have j: "all_justified c log1" "pending_ok c log1 ps"
    using recorded_enumerate [OF r] Suc.prems by (auto elim: pending_ok_mono)
  show ?case
  proof (cases "\<exists>flows next. r = Inr (Some (flows, next))")
    case False
    then show ?thesis using Suc.prems(1) r j by (auto split: sum.splits option.splits)
  next
    case True
    then obtain flows "next" where x: "r = Inr (Some (flows, next))" by blast
    obtain ps2 s2 log2 where n: "note_flows (recording E) c flows ps (s1, log1) = (ps2, s2, log2)"
      by (metis prod_cases3)
    have "set flows \<subseteq> pages log1" using recorded_enumerate [OF r] x by auto
    then have "log2 = log1" "pending_ok c log1 ps2" using note_flows_recording [OF n j(2)] by auto
    then show ?thesis using Suc.prems(1) Suc.IH r x n j by (auto split: if_splits)
  qed
qed

lemma apply_report_recording:
  assumes "apply_report (recording E) f report ps (s, log) = (ps', s', log')"
    and "log = log0 @ [Deletion (fr_flow_id f) (fr_generation f) observed (Inr report)]"
    and "all_justified c log" "pending_ok c log ps" "f \<in> pages log0"
  shows "all_justified c log' \<and> pending_ok c log' ps' \<and> pages log' = pages log"
proof (cases "log' = log")
  case True
  then show ?thesis
    using assms by (auto simp: apply_report_def intro: pending_ok_remove split: if_splits)
next
  case False
  then have d: "dr_outcome report \<in> {Complete, AlreadyAbsent}" "ht_protocol (fr_original f) = UDP_PROTOCOL"
    "log' = log @ [Dropped (fr_synthetic f) (fr_flow_id f) (fr_generation f)]" "ps' = pending_remove f ps"
    using assms(1) by (auto simp: apply_report_def recording_def split: if_splits)
  have "justified c log (Dropped (fr_synthetic f) (fr_flow_id f) (fr_generation f))"
    using assms(2,5) d(1,2) by (auto simp: record_key_def)
  then show ?thesis using d assms(3,4) by (auto intro: pending_ok_remove pending_ok_mono)
qed

lemma delete_flows_recording:
  assumes "delete_flows (recording E) fs failed ps (s, log) = (r, ps', s', log')"
    and "all_justified c log" "pending_ok c log ps"
    and "\<forall>f \<in> set fs. flow_expired c f \<and> f \<in> pages log"
  shows "all_justified c log' \<and> pending_ok c log' ps'"
  using assms
proof (induction fs arbitrary: failed ps s log)
  case Nil
  then show ?case by simp
next
  case (Cons f fs)
  obtain r s1 log1 where r: "control_operation (me_race (recording E)) (cc_delete_flow (me_client (recording E))
      (fr_flow_id f) (fr_generation f) (fr_last_used_ns f)) (s, log) = (r, s1, log1)"
    by (metis prod_cases3)
  have f: "flow_expired c f" "f \<in> pages log" using Cons.prems(4) by auto
  have p: "pages log1 = pages log" using recorded_delete [OF r] by auto
  have "justified c log (Deletion (fr_flow_id f) (fr_generation f) (fr_last_used_ns f) x)" for x
    using f by (auto simp: record_key_def)
  then have j: "all_justified c log1" "pending_ok c log1 ps"
    using recorded_delete [OF r] Cons.prems(2,3) by (auto elim: pending_ok_mono)
  consider (err) e where "r = Inl e" | (stop) "r = Inr None" | (report) x where "r = Inr (Some x)"
    by (metis not_None_eq sum.exhaust)
  then show ?case
  proof cases
    case err
    then show ?thesis using Cons r j p by auto
  next
    case stop
    then show ?thesis using Cons.prems(1) r j by auto
  next
    case report
    obtain ps2 s2 log2 where a: "apply_report (recording E) f x ps (s1, log1) = (ps2, s2, log2)"
      by (metis prod_cases3)
    have "log1 = log @ [Deletion (fr_flow_id f) (fr_generation f) (fr_last_used_ns f) (Inr x)]"
      using recorded_delete [OF r] report by auto
    from apply_report_recording [OF a this j f(2)]
    show ?thesis using Cons r report a p by (auto simp: Let_def)
  qed
qed

lemma maintenance_pass_recording:
  assumes "maintenance_pass n (recording E) c ps (s, log) = Some (r, ps', s', log')" "visits E"
    and "all_justified c log" "pending_ok c log ps"
  shows "all_justified c log' \<and> pending_ok c log' ps'"
proof -
  obtain e ps1 s1 log1 where s: "scan_flows n (recording E) c [] ps (s, log) = Some (e, ps1, s1, log1)"
    using assms(1) by (auto simp: maintenance_pass_def split: option.splits)
  have j: "all_justified c log1" "pending_ok c log1 ps1"
    using scan_flows_recording [OF s assms(3,4)] by auto
  have "set (me_order (recording E) (map snd ps1)) = set (map snd ps1)"
    by (rule mset_eq_setD) (use assms(2) in \<open>simp add: visits_def recording_def\<close>)
  then have o: "\<forall>f \<in> set (me_order (recording E) (map snd ps1)). flow_expired c f \<and> f \<in> pages log1"
    using j(2) by (auto simp: pending_ok_def)
  show ?thesis
  proof (cases "e = Scan_shutdown")
    case True
    then show ?thesis using assms(1) s j by (simp add: maintenance_pass_def)
  next
    case False
    then have "delete_flows (recording E) (me_order (recording E) (map snd ps1)) (e = Scan_failed) ps1 (s1, log1) =
        (r, ps', s', log')"
      using assms(1) s by (cases e) (simp_all add: maintenance_pass_def)
    then show ?thesis using j o by (rule delete_flows_recording)
  qed
qed

lemma maintenance_loop_recording:
  assumes "maintenance_loop k n (recording E) c m (s, log) = Some (m', s', log')" "visits E"
    and "all_justified c log" "pending_ok c log (mt_pending m)"
  shows "all_justified c log'"
  using assms
proof (induction k arbitrary: m s log)
  case 0
  then show ?case by simp
next
  case (Suc k)
  obtain b s1 where b: "me_sleep (recording E) (mt_next_run m) (s, log) = (b, s1, log)"
    by (cases "me_sleep E (mt_next_run m) s") (simp add: recording_def recorded_def)
  show ?case
  proof (cases b)
    case False
    then show ?thesis using Suc.prems b by simp
  next
    case True
    then obtain r ps2 s2 log2
      where p: "maintenance_pass n (recording E) c (mt_pending m) (s1, log) = Some (r, ps2, s2, log2)"
      using Suc.prems(1) b by (auto split: option.splits)
    have j: "all_justified c log2" "pending_ok c log2 ps2"
      using maintenance_pass_recording [OF p Suc.prems(2-4)] by auto
    obtain now s3 where "me_now (recording E) (s2, log2) = (now, s3, log2)"
      by (cases "me_now E s2") (simp add: recording_def recorded_def)
    moreover have "mt_pending (schedule_next c failed now (m\<lparr>mt_pending := ps2\<rparr>)) = ps2" for failed
      by (simp add: schedule_next_def)
    ultimately show ?thesis
      using Suc.prems(1,2) True b p j Suc.IH by (auto split: option.splits)
  qed
qed

text \<open>Recording changes nothing: forgetting the record gives the run of the environment itself.\<close>

lemma control_operation_erases:
  assumes "\<And>s log r s' log'. op' (s, log) = (r, s', log') \<Longrightarrow> op s = (r, s')"
    and "control_operation (me_race (recording E)) op' (s, log) = (r, s', log')"
  shows "control_operation (me_race E) op s = (r, s')"
proof -
  obtain x s1 where x: "me_race E s = (x, s1)" by fastforce
  obtain y s2 log2 where y: "op' (s1, log) = (y, s2, log2)" by (metis prod_cases3)
  have "op s1 = (y, s2)" using assms(1) [OF y] .
  then show ?thesis
    using assms(2) x y by (auto simp: control_operation_def recording_def recorded_def
        split: race.splits sum.splits if_splits)
qed

lemma enumerate_erases:
  "cc_enumerate_flows (me_client (recording E)) t l (s, log) = (r, s', log') \<Longrightarrow>
   cc_enumerate_flows (me_client E) t l s = (r, s')"
  by (auto simp: recording_def recording_client_def recorded_def split: prod.splits)

lemma delete_erases:
  "cc_delete_flow (me_client (recording E)) i g ob (s, log) = (r, s', log') \<Longrightarrow>
   cc_delete_flow (me_client E) i g ob s = (r, s')"
  by (auto simp: recording_def recording_client_def recorded_def split: prod.splits)

lemma note_flows_erases:
  "note_flows (recording E) c fs ps (s, log) = (ps', s', log') \<Longrightarrow> note_flows E c fs ps s = (ps', s')"
  by (induction fs arbitrary: ps s) (auto simp: recording_def Let_def split: if_splits)

lemma scan_flows_erases:
  assumes "scan_flows n (recording E) c token ps (s, log) = Some (e, ps', s', log')"
  shows "scan_flows n E c token ps s = Some (e, ps', s')"
  using assms
proof (induction n arbitrary: token ps s log)
  case (Suc n)
  obtain r s1 log1 where r: "control_operation (me_race (recording E))
      (cc_enumerate_flows (me_client (recording E)) token (mc_flow_scan_batch c)) (s, log) = (r, s1, log1)"
    by (metis prod_cases3)
  have "control_operation (me_race E) (cc_enumerate_flows (me_client E) token (mc_flow_scan_batch c)) s = (r, s1)"
    using enumerate_erases r by (rule control_operation_erases)
  then show ?case
    using Suc r note_flows_erases
    by (auto split: sum.splits option.splits if_splits prod.splits) (blast | fastforce)+
qed simp

lemma apply_report_erases:
  "apply_report (recording E) f x ps (s, log) = (ps', s', log') \<Longrightarrow> apply_report E f x ps s = (ps', s')"
  by (auto simp: apply_report_def recording_def split: if_splits)

lemma delete_flows_erases:
  assumes "delete_flows (recording E) fs failed ps (s, log) = (r, ps', s', log')"
  shows "delete_flows E fs failed ps s = (r, ps', s')"
  using assms
proof (induction fs arbitrary: failed ps s log)
  case (Cons f fs)
  obtain r s1 log1 where r: "control_operation (me_race (recording E)) (cc_delete_flow (me_client (recording E))
      (fr_flow_id f) (fr_generation f) (fr_last_used_ns f)) (s, log) = (r, s1, log1)"
    by (metis prod_cases3)
  have r': "control_operation (me_race E)
      (cc_delete_flow (me_client E) (fr_flow_id f) (fr_generation f) (fr_last_used_ns f)) s = (r, s1)"
    using delete_erases r by (rule control_operation_erases)
  show ?case
  proof (cases "\<exists>x. r = Inr (Some x)")
    case True
    then obtain x where x: "r = Inr (Some x)" ..
    obtain ps2 s2 log2 where a: "apply_report (recording E) f x ps (s1, log1) = (ps2, s2, log2)"
      by (metis prod_cases3)
    then show ?thesis using Cons r r' x apply_report_erases [OF a] by (auto simp: Let_def)
  next
    case False
    then show ?thesis using Cons r r' by (auto split: sum.splits option.splits)
  qed
qed simp

lemma maintenance_pass_erases:
  assumes "maintenance_pass n (recording E) c ps (s, log) = Some (r, ps', s', log')"
  shows "maintenance_pass n E c ps s = Some (r, ps', s')"
proof -
  obtain e ps1 s1 log1 where s: "scan_flows n (recording E) c [] ps (s, log) = Some (e, ps1, s1, log1)"
    using assms by (auto simp: maintenance_pass_def split: option.splits)
  have "me_order (recording E) = me_order E" by (simp add: recording_def)
  then show ?thesis
    using assms s scan_flows_erases [OF s] delete_flows_erases [of E]
    by (cases e) (auto simp: maintenance_pass_def)
qed

lemma maintenance_loop_erases:
  assumes "maintenance_loop k n (recording E) c m (s, log) = Some (m', s', log')"
  shows "maintenance_loop k n E c m s = Some (m', s')"
  using assms
proof (induction k arbitrary: m s log)
  case (Suc k)
  obtain b s1 where b: "me_sleep E (mt_next_run m) s = (b, s1)" by fastforce
  then have b': "me_sleep (recording E) (mt_next_run m) (s, log) = (b, s1, log)"
    by (simp add: recording_def recorded_def)
  show ?case
  proof (cases b)
    case True
    then obtain r ps2 s2 log2
      where p: "maintenance_pass n (recording E) c (mt_pending m) (s1, log) = Some (r, ps2, s2, log2)"
      using Suc.prems(1) b' by (auto split: option.splits)
    obtain now s3 where "me_now E s2 = (now, s3)" by fastforce
    moreover from this have "me_now (recording E) (s2, log2) = (now, s3, log2)"
      by (simp add: recording_def recorded_def)
    ultimately show ?thesis
      using Suc True b b' p maintenance_pass_erases [OF p] by (auto split: option.splits)
  qed (use Suc.prems b b' in simp)
qed simp

section \<open>Properties\<close>

text \<open>An environment with one expired TCP flow, for whichever a deletion completes at once, that
  is shut down after one pass. The state counts the sleeps.\<close>

definition sample_record :: flow_record where
  "sample_record =
     \<lparr>fr_flow_id = 7, fr_generation = 1,
      fr_synthetic = \<lparr>ht_source = SocketAddrV4 2 4000, ht_destination = SocketAddrV4 1 80, ht_protocol = 6\<rparr>,
      fr_original = \<lparr>ht_source = SocketAddrV4 2 4000, ht_destination = SocketAddrV4 3 80, ht_protocol = 6\<rparr>,
      fr_last_used_ns = 10, fr_protocol_flags = 0, fr_tcp_state_flags = 0, fr_observed_now_ns = 100,
      fr_fin_seen_mask = 0, fr_fin_ack_seen_mask = 0\<rparr>"

definition sample_config :: maint_config where
  "sample_config = \<lparr>mc_cleanup_interval = 1000000000, mc_udp_idle_ns = 50, mc_idle_ttl_ns = 50, mc_grace_ns = 50,
     mc_flow_scan_batch = 10\<rparr>"

definition sample_env :: "nat maint_env" where
  "sample_env =
     \<lparr>me_client = \<lparr>cc_get_mapping = (\<lambda>_ s. (Inl MappingNotFound, s)),
        cc_enumerate_flows = (\<lambda>_ _ s. (Inr ([sample_record], []), s)),
        cc_delete_flow = (\<lambda>i g _ s. (Inr \<lparr>dr_flow_id = i, dr_generation = g, dr_outcome = Complete,
           dr_indexes_deleted = 3, dr_state_deleted = True, dr_retryable = False\<rparr>, s))\<rparr>,
      me_race = (\<lambda>s. (OperationFirst, s)), me_sleep = (\<lambda>_ s. (s = 0, s + 1)),
      me_now = (\<lambda>s. (s, s)), me_observe_flow = (\<lambda>_ _ _ s. s), me_invalidate = (\<lambda>_ _ _ s. s),
      me_order = (\<lambda>xs. xs)\<rparr>"

text \<open>The schedule after a sequence of passes, each given by whether it failed and when it ended,
  and how many passes at the end of the sequence failed in a row.\<close>

fun schedule_all :: "maint_config \<Rightarrow> (bool \<times> nat) list \<Rightarrow> maint_state \<Rightarrow> maint_state" where
  "schedule_all c [] m = m"
| "schedule_all c ((failed, now) # xs) m = schedule_all c xs (schedule_next c failed now m)"

definition failures_in_a_row :: "(bool \<times> nat) list \<Rightarrow> nat" where
  "failures_in_a_row xs = length (takeWhile fst (rev xs))"

definition backoff :: "maint_config \<Rightarrow> nat \<Rightarrow> duration" where
  "backoff c k = min (initial_retry_delay c * 2 ^ k) (mc_cleanup_interval c)"

lemma schedule_all_snoc:
  "schedule_all c (xs @ [(failed, now)]) m = schedule_next c failed now (schedule_all c xs m)"
  by (induction xs arbitrary: m) auto

lemma backoff_Suc:
  "mc_cleanup_interval c \<le> duration_max \<Longrightarrow>
   min (saturating_double (backoff c k)) (mc_cleanup_interval c) = backoff c (Suc k)"
  by (auto simp: backoff_def saturating_double_def min_def)

lemma retry_delay_schedule:
  assumes "mc_cleanup_interval c \<le> duration_max"
  shows "mt_retry_delay (schedule_all c xs (maint_start c t)) = backoff c (failures_in_a_row xs)"
proof (induction xs rule: rev_induct)
  case Nil
  show ?case by (simp add: maint_start_def backoff_def failures_in_a_row_def initial_retry_delay_def)
next
  case (snoc x xs)
  obtain failed now where x: "x = (failed, now)" by fastforce
  show ?case
    using snoc backoff_Suc [OF assms, of "failures_in_a_row xs"]
    by (cases failed) (simp_all add: x schedule_all_snoc schedule_next_def failures_in_a_row_def
        backoff_def initial_retry_delay_def)
qed


lemma sample_record_simps:
  "flow_expired sample_config sample_record" "fr_flow_id sample_record = 7" "fr_generation sample_record = 1"
  "fr_last_used_ns sample_record = 10" "ht_protocol (fr_original sample_record) \<noteq> UDP_PROTOCOL"
  by (simp_all add: sample_record_def sample_config_def flow_expired_def flow_terminal_def flow_age_def
      saturating_sub_u64_def TCP_PROTOCOL_def UDP_PROTOCOL_def)


text \<open>The delays between passes. After some failures in a row the retry delay is the initial
  one (a tenth of a second, or the cleanup interval if that is shorter) doubled for each and
  capped at the cleanup interval; the next pass starts that long after a failed pass ended,
  and one cleanup interval after a pass that succeeded.\<close>

theorem maintenance_backoff:
  assumes "mc_cleanup_interval c \<le> duration_max"
  shows "mt_next_run (schedule_all c (xs @ [(failed, now)]) (maint_start c t)) =
    now + (if failed then min (min (mc_cleanup_interval c) 100000000 * 2 ^ failures_in_a_row xs)
                              (mc_cleanup_interval c)
           else mc_cleanup_interval c)"
  using retry_delay_schedule [OF assms, of xs t]
  by (simp add: schedule_all_snoc schedule_next_def backoff_def initial_retry_delay_def from_millis_def)

theorem maintenance_backoff_witness:
  "mt_next_run (schedule_all sample_config ([(False, 5), (True, 6), (True, 7)] @ [(True, 8)])
     (maint_start sample_config 0)) = 400000008"
  by (subst maintenance_backoff) (simp_all add: sample_config_def duration_max_def failures_in_a_row_def)

text \<open>C36: a validated configuration never makes the maintenance task panic, and gives it exactly
  the configured thresholds, all positive, and a page size the control service accepts.\<close>

theorem validated_settings:
  assumes "proxy_validate tls_rustls p = Inr ()"
  shows "\<exists>c. maintenance_settings p = Some c
    \<and> unat (mc_udp_idle_ns c) = px_udp_idle_timeout p \<and> unat (mc_idle_ttl_ns c) = px_idle_ttl p
    \<and> unat (mc_grace_ns c) = px_tcp_terminal_grace p
    \<and> 0 < mc_udp_idle_ns c \<and> 0 < mc_idle_ttl_ns c \<and> 0 < mc_grace_ns c \<and> 0 < mc_cleanup_interval c
    \<and> 0 < mc_flow_scan_batch c \<and> mc_flow_scan_batch c \<le> 10000"
proof -
  have u: "usable_config tls_rustls p" using assms by (simp add: proxy_validate_usable)
  then obtain a b d where r:
    "duration_to_nanos (px_udp_idle_timeout p) ''UDP idle timeout'' = Inr a"
    "duration_to_nanos (px_idle_ttl p) ''idle TTL'' = Inr b"
    "duration_to_nanos (px_tcp_terminal_grace p) ''TCP terminal grace'' = Inr d"
    using duration_to_nanos_ok by (fastforce simp: usable_config_def)
  note v = duration_to_nanos_value [OF r(1)] duration_to_nanos_value [OF r(2)] duration_to_nanos_value [OF r(3)]
  have "0 < a" "0 < b" "0 < d" using u v by (auto simp: usable_config_def word_gt_0 unat_eq_0 [symmetric])
  with u v r show ?thesis by (simp add: maintenance_settings_def usable_config_def)
qed

theorem validated_settings_witness:
  "\<exists>c. maintenance_settings
      \<lparr>px_listen = SocketAddrV4 1 80, px_listen_backlog = 128, px_control_endpoint = ''https://c'',
       px_psk_identity = ''id'', px_psk_secret = [1], px_udp_idle_timeout = 60000000000,
       px_cleanup_interval = 1000000000, px_idle_ttl = 300000000000, px_tcp_terminal_grace = 5000000000,
       px_flow_scan_batch = 256\<rparr> = Some c \<and> unat (mc_idle_ttl_ns c) = 300000000000"
proof -
  let ?p = "\<lparr>px_listen = SocketAddrV4 1 80, px_listen_backlog = 128, px_control_endpoint = ''https://c'',
       px_psk_identity = ''id'', px_psk_secret = [1], px_udp_idle_timeout = 60000000000,
       px_cleanup_interval = 1000000000, px_idle_ttl = 300000000000, px_tcp_terminal_grace = 5000000000,
       px_flow_scan_batch = 256\<rparr>"
  have "proxy_validate False ?p = Inr ()"
    by (simp add: proxy_validate_def duration_to_nanos_def u64_try_from_def)
  from validated_settings [OF this] show ?thesis by auto
qed

end
