(* ===== verification/End_To_End.thy ===== *)
theory End_To_End
  imports Service_Correctness Host_Client Maintenance
begin

text \<open>
  Host proxy and control service together: the host's client talks to the service's handlers,
  so that the properties of the two sides combine into statements about the system. The state
  behind the channel is the service with the clock readings its handlers are going to take;
  when the readings are used up a call runs into its deadline.
\<close>

section \<open>The channel\<close>

type_synonym 'b served = "'b service \<times> (u64 \<times> u64) list"

definition served :: "('b, 'r) handler \<Rightarrow> 'b served \<Rightarrow> (status + 'r) option \<times> 'b served" where
  "served h s = (case s of (sv, clock) \<Rightarrow> (case h sv of (r, sv) \<Rightarrow> (Some r, sv, clock)))"

definition served_at ::
    "(u64 \<times> u64 \<Rightarrow> ('b, 'r) handler) \<Rightarrow> 'b served \<Rightarrow> (status + 'r) option \<times> 'b served" where
  "served_at h s =
     (case s of
        (sv, []) \<Rightarrow> (None, sv, [])
      | (sv, t # clock) \<Rightarrow> (case h t sv of (r, sv) \<Rightarrow> (Some r, sv, clock)))"

definition service_channel :: "(status \<Rightarrow> string) \<Rightarrow> 'b backend \<Rightarrow> 'b served channel" where
  "service_channel show_status B =
     \<lparr>ch_lock = (\<lambda>s. (True, s)),
      ch_attach = (\<lambda>req. served (service_attach B req)),
      ch_detach = (\<lambda>req. served (service_detach B req)),
      ch_get_config = served get_config,
      ch_set_config = (\<lambda>config. served (set_config B config)),
      ch_get_mapping = (\<lambda>synthetic. served (get_mapping B synthetic)),
      ch_enumerate_flows = (\<lambda>req. served_at (\<lambda>(now, observed). enumerate_flows B now observed req)),
      ch_delete_flow = (\<lambda>req. served_at (\<lambda>(now, _). service_delete_flow B now req)),
      ch_show_status = show_status\<rparr>"

definition host_tuple_of :: "tuple \<Rightarrow> host_tuple" where
  "host_tuple_of t =
     \<lparr>ht_source = socket_addr_new (t_source t) (t_source_port t),
      ht_destination = socket_addr_new (t_destination t) (t_destination_port t),
      ht_protocol = t_protocol t\<rparr>"

definition record_of :: "flow_state \<Rightarrow> u64 \<Rightarrow> flow_record" where
  "record_of f now =
     \<lparr>fr_flow_id = fs_flow_id f, fr_generation = fs_generation f,
      fr_synthetic = host_tuple_of (fs_target f), fr_original = host_tuple_of (fs_original f),
      fr_last_used_ns = fs_last_used_ns f, fr_protocol_flags = fs_protocol_flags f,
      fr_tcp_state_flags = fs_tcp_state_flags f, fr_observed_now_ns = now,
      fr_fin_seen_mask = ucast (fs_fin_seen_mask f), fr_fin_ack_seen_mask = ucast (fs_fin_ack_seen_mask f)\<rparr>"

section \<open>The two sides of the protocol agree\<close>

lemma ip_from_octets [simp]:
  "ip_from_bytes (if is_ipv4 a then 4 else 6) (octets a) = Inr a"
  by (cases a) (simp_all add: ip_from_bytes_def)

lemma tuple_to_proto_valid:
  assumes "valid_tuple t"
  shows "tuple_to_proto t =
    \<lparr>pt_family = (if is_ipv4 (t_source t) then 4 else 6), pt_source_address = octets (t_source t),
     pt_destination_address = octets (t_destination t), pt_protocol = ucast (t_protocol t),
     pt_source_port = ucast (t_source_port t), pt_destination_port = ucast (t_destination_port t)\<rparr>"
  using assms by (cases "t_source t"; cases "t_destination t")
    (auto simp: tuple_to_proto_def valid_tuple_def Let_def)

lemma client_reads_tuple:
  assumes "valid_tuple t"
  shows "client_tuple_from_proto (tuple_to_proto t) = Inr (host_tuple_of t)"
proof -
  have "is_ipv4 (t_destination t) = is_ipv4 (t_source t)" using assms by (simp add: valid_tuple_def)
  then have "ip_from_bytes (if is_ipv4 (t_source t) then 4 else 6) (octets (t_destination t)) = Inr (t_destination t)"
    using ip_from_octets [of "t_destination t"] by simp
  then show ?thesis
    by (simp add: client_tuple_from_proto_def tuple_to_proto_valid [OF assms] host_tuple_of_def not_less)
qed

lemma client_ip_bytes_octets [simp]: "client_ip_bytes a = octets a"
  by (cases a) simp_all

lemma lookup_request_tuple:
  assumes "valid_tuple t"
  shows "lookup_request (host_tuple_of t) = tuple_to_proto t"
  by (simp add: lookup_request_def host_tuple_of_def tuple_to_proto_valid [OF assms])

lemma ucast_protocol: "u8_try_from_u32 (ucast (p :: u8)) = Some p"
  by (simp add: u8_try_from_u32_def)

lemma client_reads_flow:
  assumes "valid_flow_state f"
  shows "flow_from_proto (flow_to_proto f now) = Inr (record_of f now)"
proof -
  have "valid_tuple (fs_target f)" "valid_tuple (fs_original f)"
    "t_protocol (fs_target f) = t_protocol (fs_original f)"
    using assms by (auto simp: valid_flow_state_def)
  then show ?thesis
    by (simp add: flow_from_proto_def flow_to_proto_def client_reads_tuple checked_flow_protocol_def
        ucast_protocol host_tuple_of_def record_of_def)
qed

section \<open>Activation\<close>

definition family_target :: "socket_addr \<Rightarrow> runtime_config \<Rightarrow> socket_addr option" where
  "family_target proxy c = (if is_ipv4 (sa_ip proxy) then rc_ipv4_target c else rc_ipv6_target c)"

lemma parse_proxy_target:
  assumes "parse_target (if is_ipv4 ip then 4 else 6) (octets ip) (ucast (port :: u16)) l = Inr t"
  shows "t = Some (socket_addr_new ip port)"
proof -
  have "octets ip \<noteq> []" by (cases ip) (simp_all flip: length_0_conv)
  moreover have "service_parse_address (if is_ipv4 ip then 4 else 6) (octets ip) l = Inr ip"
    by (cases ip) (simp_all add: service_parse_address_def)
  ultimately show ?thesis using assms by (auto simp: parse_target_def split: if_splits)
qed

lemma set_target_read:
  assumes "runtime_config_from_proto (Some (set_target proxy config)) = Inr c"
  shows "family_target proxy c = Some (socket_addr_new (sa_ip proxy) (sa_port proxy))"
  using assms parse_proxy_target [of "sa_ip proxy" "sa_port proxy"]
  by (cases "sa_ip proxy")
     (auto simp: runtime_config_from_proto_def set_target_def family_target_def and_then_Inr_iff split: if_splits)

lemma memory_service_attach:
  assumes "service_attach memory_backend req sv = (r, sv')"
  shows "sv_config sv' = sv_config sv"
    and "r = Inl e \<Longrightarrow> set (ms_attachments (sv_backend sv')) = set (ms_attachments (sv_backend sv))"
    and "r = Inr reply \<Longrightarrow> op_success reply \<and> sv_ready sv'
      \<and> set (ms_attachments (sv_backend sv')) =
          set (ms_attachments (sv_backend sv)) \<union> set (required_links (irq_interfaces req))"
proof -
  obtain a m1 where a: "memory_attach (irq_elf_path req) (irq_interfaces req) (sv_backend sv) = (a, m1)"
    by fastforce
  have rollback: "set (ms_attachments (snd (memory_rollback_attach (ar_created rep) m1))) =
      set (ms_attachments (sv_backend sv))" "set (ms_attachments m1) =
      set (ms_attachments (sv_backend sv)) \<union> set (required_links (irq_interfaces req))" if "a = Inr rep" for rep
  proof -
    have at: "be_attach memory_backend (irq_elf_path req) (irq_interfaces req) (sv_backend sv) = (Inr rep, m1)"
      using a that by (simp add: memory_backend_def)
    show "set (ms_attachments (snd (memory_rollback_attach (ar_created rep) m1))) = set (ms_attachments (sv_backend sv))"
      using memory_links.attach_rollback [OF _ at, of "()"]
      by (simp add: memory_backend_def memory_rollback_attach_def)
    have "ar_attachments rep = required_links (irq_interfaces req)"
      using a that by (auto simp: memory_attach_def Let_def split: option.splits)
    then show "set (ms_attachments m1) =
        set (ms_attachments (sv_backend sv)) \<union> set (required_links (irq_interfaces req))"
      using memory_links.attach_ok [OF _ at] by (simp add: memory_backend_def)
  qed
  have keep: "ms_attachments m1 = ms_attachments (sv_backend sv)" if "a = Inl e" for e
    using a that by (auto simp: memory_attach_def Let_def split: option.splits)
  have f: "be_attach memory_backend = memory_attach" "be_rollback_attach memory_backend = memory_rollback_attach"
    "be_set_runtime_config memory_backend = memory_set_runtime_config" by (simp_all add: memory_backend_def)
  note simps = service_attach_def on_backend_def f memory_set_runtime_config_def set_ready_def
  show "sv_config sv' = sv_config sv"
    using assms a by (auto simp: simps Let_def split: if_splits sum.splits prod.splits)
  show "r = Inl e \<Longrightarrow> set (ms_attachments (sv_backend sv')) = set (ms_attachments (sv_backend sv))"
    using assms a keep rollback(1) by (auto simp: simps Let_def split: if_splits sum.splits prod.splits)
  show "r = Inr reply \<Longrightarrow> op_success reply \<and> sv_ready sv'
      \<and> set (ms_attachments (sv_backend sv')) =
          set (ms_attachments (sv_backend sv)) \<union> set (required_links (irq_interfaces req))"
    using assms a rollback(2) by (auto simp: simps Let_def split: if_splits sum.splits prod.splits)
qed

lemma memory_set_config_links:
  "set_config memory_backend config sv = (r, sv') \<Longrightarrow>
   ms_attachments (sv_backend sv') = ms_attachments (sv_backend sv)"
  by (auto simp: set_config_def on_backend_def memory_backend_def memory_set_runtime_config_def
      split: sum.splits if_splits prod.splits)

lemma memory_service_detach:
  "\<exists>sv' reply. service_detach memory_backend \<lparr>drq_interfaces = [i], drq_all = False\<rparr> sv = (Inr reply, sv')
     \<and> sv_config sv' = sv_config sv
     \<and> set (ms_attachments (sv_backend sv')) = {a \<in> set (ms_attachments (sv_backend sv)). at_interface a \<noteq> i}"
  by (auto simp: service_detach_def on_backend_def memory_backend_def memory_detach_def set_ready_def Let_def
      filter_empty_conv)

lemma served_rpc:
  "bounded_rpc C (served h) (sv, clock) =
     (case h sv of (Inl st, sv) \<Rightarrow> (Inl (Control (ch_show_status C st)), sv, clock)
                 | (Inr x, sv) \<Rightarrow> (Inr x, sv, clock))"
  by (simp add: bounded_rpc_def served_def split: prod.splits sum.splits)

lemma configure_target_served:
  assumes "configure_target (service_channel sh memory_backend) proxy (sv, clock) = (r, sv', clock')"
  shows "ms_attachments (sv_backend sv') = ms_attachments (sv_backend sv)"
    and "r = Inl e \<Longrightarrow> sv_config sv' = sv_config sv"
    and "r = Inr u \<Longrightarrow> sv_ready sv' = sv_ready sv \<and> (\<exists>c. ms_runtime_config (sv_backend sv') = Some c
      \<and> snapshot (sv_config sv') = c\<lparr>rc_revision := cs_next_revision (sv_config sv)\<rparr>
      \<and> family_target proxy c = Some (socket_addr_new (sa_ip proxy) (sa_port proxy)))"
proof -
  let ?C = "service_channel sh memory_backend"
  obtain config where config: "cfr_config (config_to_proto (snapshot (sv_config sv))) = Some config"
    by (simp add: config_to_proto_def)
  obtain x sv1 where x: "set_config memory_backend (Some (set_target proxy config)) sv = (x, sv1)" by fastforce
  have r: "(r, sv', clock') = (case x of Inl st \<Rightarrow> (Inl (Control (sh st)), sv1, clock)
      | Inr _ \<Rightarrow> (Inr (), sv1, clock))"
    using assms config x
    by (simp add: configure_target_def service_channel_def bind_act_def served_rpc get_config_def split: sum.splits)
  then have sv': "sv' = sv1" by (auto split: sum.splits)
  show "ms_attachments (sv_backend sv') = ms_attachments (sv_backend sv)"
    using memory_set_config_links [OF x] sv' by simp
  show "r = Inl e \<Longrightarrow> sv_config sv' = sv_config sv"
    using x r by (auto split: sum.splits dest: set_config_error_cases)
  show "r = Inr u \<Longrightarrow> sv_ready sv' = sv_ready sv \<and> (\<exists>c. ms_runtime_config (sv_backend sv') = Some c
      \<and> snapshot (sv_config sv') = c\<lparr>rc_revision := cs_next_revision (sv_config sv)\<rparr>
      \<and> family_target proxy c = Some (socket_addr_new (sa_ip proxy) (sa_port proxy)))"
  proof -
    assume "r = Inr u"
    then obtain reply where "x = Inr reply" using r by (auto split: sum.splits)
    then obtain c where c: "runtime_config_from_proto (Some (set_target proxy config)) = Inr c"
      "valid_config (cs_maxima (sv_config sv)) c" "sv_config sv1 = snd (store_update c (sv_config sv))"
      "sv_backend sv1 = snd (be_set_runtime_config memory_backend c (sv_backend sv))" "sv_ready sv1 = sv_ready sv"
      using set_config_ok_cases x by fastforce
    then show ?thesis
      using set_target_read [OF c(1)] snapshot_store_update [OF c(2)] sv'
      by (simp add: memory_backend_def memory_set_runtime_config_def)
  qed
qed

section \<open>A maintenance pass over the service\<close>

text \<open>The host's maintenance with the control service behind the client and the UDP associations
  beside it; \<open>obs\<close> and \<open>inval\<close> are what observing and invalidating do to them.\<close>

definition on_service :: "('s \<Rightarrow> 'r \<times> 's) \<Rightarrow> 's \<times> 'u \<Rightarrow> 'r \<times> 's \<times> 'u" where
  "on_service f x = (case x of (s, u) \<Rightarrow> (case f s of (r, s) \<Rightarrow> (r, s, u)))"

definition lift_client :: "'s control_client \<Rightarrow> ('s \<times> 'u) control_client" where
  "lift_client C =
     \<lparr>cc_get_mapping = (\<lambda>t. on_service (cc_get_mapping C t)),
      cc_enumerate_flows = (\<lambda>token limit. on_service (cc_enumerate_flows C token limit)),
      cc_delete_flow = (\<lambda>i g ob. on_service (cc_delete_flow C i g ob))\<rparr>"

definition host_env ::
    "(status \<Rightarrow> string) \<Rightarrow> (host_tuple \<Rightarrow> u64 \<Rightarrow> u32 \<Rightarrow> 'u \<Rightarrow> 'u) \<Rightarrow> (host_tuple \<Rightarrow> u64 \<Rightarrow> u32 \<Rightarrow> 'u \<Rightarrow> 'u)
       \<Rightarrow> (flow_record list \<Rightarrow> flow_record list) \<Rightarrow> (memory_state served \<times> 'u) maint_env" where
  "host_env show_status obs inval order =
     \<lparr>me_client = lift_client (rustls_client (service_channel show_status memory_backend)),
      me_race = (\<lambda>s. (OperationFirst, s)), me_sleep = (\<lambda>_ s. (True, s)), me_now = (\<lambda>s. (0, s)),
      me_observe_flow = (\<lambda>t i g (s, u). (s, obs t i g u)),
      me_invalidate = (\<lambda>t i g (s, u). (s, inval t i g u)), me_order = order\<rparr>"

fun noted :: "maint_config \<Rightarrow> flow_record list \<Rightarrow> pending \<Rightarrow> pending" where
  "noted c [] ps = ps"
| "noted c (f # fs) ps = noted c fs (if flow_expired c f then pending_insert f ps else ps)"

lemma noted_append: "noted c (xs @ ys) ps = noted c ys (noted c xs ps)"
  by (induction xs arbitrary: ps) auto

lemma note_flows_host:
  "\<exists>u'. note_flows (host_env sh obs inval order) c fs ps (s, u) = (noted c fs ps, s, u')"
proof (induction fs arbitrary: ps u)
  case (Cons f fs)
  then show ?case by (simp add: host_env_def Let_def)
qed simp

lemma pending_insert_fresh:
  assumes "record_key f \<notin> fst ` set ps"
  shows "pending_insert f ps = (record_key f, f) # ps"
proof -
  have "\<forall>e \<in> set ps. fst e \<noteq> record_key f" using assms by (metis image_eqI)
  then show ?thesis by (simp add: pending_insert_def filter_id_conv)
qed

lemma noted_distinct:
  assumes "distinct (map record_key fs)" "record_key ` set fs \<inter> fst ` set ps = {}"
    and "list_all (\<lambda>e. fst e = record_key (snd e)) ps"
  shows "map snd (noted c fs ps) = rev (filter (flow_expired c) fs) @ map snd ps
    \<and> list_all (\<lambda>e. fst e = record_key (snd e)) (noted c fs ps)"
  using assms
proof (induction fs arbitrary: ps)
  case (Cons f fs)
  have d: "distinct (map record_key fs)" "record_key f \<notin> record_key ` set fs" using Cons.prems(1) by auto
  have f: "record_key f \<notin> fst ` set ps" "record_key ` set fs \<inter> fst ` set ps = {}" using Cons.prems(2) by auto
  show ?case
  proof (cases "flow_expired c f")
    case True
    have "record_key ` set fs \<inter> fst ` set ((record_key f, f) # ps) = {}" using d(2) f(2) by simp
    moreover have "list_all (\<lambda>e. fst e = record_key (snd e)) ((record_key f, f) # ps)" using Cons.prems(3) by simp
    ultimately show ?thesis using Cons.IH [OF d(1)] True by (simp add: pending_insert_fresh [OF f(1)])
  next
    case False
    then show ?thesis using Cons.IH [OF d(1) f(2) Cons.prems(3)] by simp
  qed
qed simp

lemma control_operation_host [simp]:
  "control_operation (me_race (host_env sh obs inval order)) f s =
     (case f s of (Inl e, s) \<Rightarrow> (Inl e, s) | (Inr x, s) \<Rightarrow> (Inr (Some x), s))"
  by (simp add: control_operation_def host_env_def)

lemma enumerate_host:
  assumes "enumerate_flows memory_backend now t \<lparr>efq_limit = limit, efq_page_token = token\<rparr> sv = (Inr page, sv)"
    and "map flow_from_proto (efr_flows page) = map Inr fs"
  shows "cc_enumerate_flows (me_client (host_env sh obs inval order)) token limit ((sv, (now, t) # clock), u) =
    (Inr (fs, efr_next_page_token page), (sv, clock), u)"
proof -
  have "collect_results (map flow_from_proto (efr_flows page)) = Inr fs"
    using assms(2) by (simp add: collect_results_Inr_iff)
  then show ?thesis
    using assms(1)
    by (simp add: host_env_def lift_client_def on_service_def rustls_client_def client_enumerate_flows_def
        client_locked_def service_channel_def bind_act_def bounded_rpc_def served_at_def)
qed

lemma enumerate_keeps:
  "enumerate_flows memory_backend now t req sv = (r, sv') \<Longrightarrow> sv' = sv"
  by (auto simp: enumerate_flows_def on_backend_def memory_backend_def memory_list_flow_states_def Let_def
      split: if_splits sum.splits prod.splits)

lemma scan_collects:
  assumes "collect_flows memory_backend (mc_flow_scan_batch c) clock token sv = (Some (Inr ps), sv)"
    and "\<And>p. p \<in> set ps \<Longrightarrow> flow_from_proto p = Inr (rec p)" "length clock < n"
  shows "\<exists>rest u'. length extra \<le> length rest
    \<and> scan_flows n (host_env sh obs inval order) c token pend ((sv, clock @ extra), u) =
        Some (Scan_complete, noted c (map rec ps) pend, (sv, rest), u')"
  using assms
proof (induction clock arbitrary: n token pend u ps)
  case (Cons r clock)
  let ?E = "host_env sh obs inval order"
  obtain now t where r: "r = (now, t)" by fastforce
  obtain n' where n: "n = Suc n'" using Cons.prems(3) by (cases n) auto
  obtain x sv1 where x: "enumerate_flows memory_backend now t
      \<lparr>efq_limit = mc_flow_scan_batch c, efq_page_token = token\<rparr> sv = (x, sv1)" by fastforce
  have sv1: "sv1 = sv" by (rule enumerate_keeps [OF x])
  obtain page where page: "x = Inr page" using Cons.prems(1) r x by (cases x) auto
  obtain qs where qs: "ps = efr_flows page @ qs"
    "efr_next_page_token page = [] \<Longrightarrow> qs = []"
    "efr_next_page_token page \<noteq> [] \<Longrightarrow>
      collect_flows memory_backend (mc_flow_scan_batch c) clock (efr_next_page_token page) sv = (Some (Inr qs), sv)"
    using Cons.prems(1) r x page sv1
    by (cases "efr_next_page_token page = []") (auto split: prod.splits option.splits sum.splits)
  have "map flow_from_proto (efr_flows page) = map Inr (map rec (efr_flows page))"
    using Cons.prems(2) qs(1) by simp
  note e = enumerate_host [OF x [unfolded page sv1] this, of sh obs inval order "clock @ extra" u]
  obtain u1 where u1: "note_flows ?E c (map rec (efr_flows page)) pend ((sv, clock @ extra), u) =
      (noted c (map rec (efr_flows page)) pend, (sv, clock @ extra), u1)"
    using note_flows_host [of sh obs inval order c "map rec (efr_flows page)" pend "(sv, clock @ extra)" u] by blast
  show ?case
  proof (cases "efr_next_page_token page = []")
    case True
    then show ?thesis using e u1 qs by (simp add: r n)
  next
    case False
    from Cons.IH [OF qs(3) [OF False], of n' "noted c (map rec (efr_flows page)) pend" u1]
    show ?thesis
      using Cons.prems(2,3) False e u1 qs(1) by (simp add: r n noted_append)
  qed
qed simp

text \<open>A store in which deletions complete at once.\<close>

definition deletes_freely :: "memory_state \<Rightarrow> bool" where
  "deletes_freely m \<longleftrightarrow> memory_inv m \<and> \<not> ms_abort_delete_guard m \<and> \<not> ms_fail_release_publication m"

lemma delete_host:
  assumes "deletes_freely (sv_backend sv)" "memory_flow (sv_backend sv) (i, g) = Some f" "fs_last_used_ns f = ob"
  shows "\<exists>report sv'. cc_delete_flow (me_client (host_env sh obs inval order)) i g ob ((sv, x # clock), u) =
      (Inr report, (sv', clock), u)
    \<and> dr_outcome report = Complete \<and> \<not> dr_retryable report \<and> deletes_freely (sv_backend sv')
    \<and> memory_flow (sv_backend sv') = (memory_flow (sv_backend sv))((i, g) := None)"
proof -
  let ?m = "sv_backend sv" and ?d = "saturating_add_u64 (fst x) FLOW_DELETE_GUARD_TTL_NS"
  obtain r m' where d: "memory_delete_flow i g ob ?d ?m = (Inr r, m')" using memory_delete_flow_total by blast
  have r: "cr_state_deleted r" "\<not> cr_observation_mismatch r"
    using memory_delete_cases [OF d] assms by (auto simp: deletes_freely_def)
  have p: "\<not> cr_partial r" "\<not> cr_stale_generation r" "\<not> ms_abort_delete_guard m'" "\<not> ms_fail_release_publication m'"
    using d assms by (auto simp: deletes_freely_def memory_delete_flow_def memory_flow_def Let_def
        split: option.splits if_splits)
  have b: "be_delete_flow memory_backend i g ob ?d ?m = (Inr r, m')" using d by (simp add: memory_backend_def)
  have m': "memory_flow m' = (memory_flow ?m)((i, g) := None)" "memory_inv m'"
    using memory_flows.delete_ok [OF _ b] memory_flows.delete_inv [of ?m i g ob ?d] b r assms(1)
    by (simp_all add: deletes_freely_def)
  have o: "delete_outcome_of r = OutcomeComplete" using r p by (simp add: delete_outcome_of_def)
  show ?thesis
    using b m' o p
    by (cases x) (auto simp: host_env_def lift_client_def on_service_def rustls_client_def client_delete_flow_def
        client_locked_def service_channel_def bind_act_def bounded_rpc_def served_at_def service_delete_flow_def
        on_backend_def report_from_proto_def deletes_freely_def outcome_try_from_def)
qed

lemma delete_flows_host:
  assumes "deletes_freely (sv_backend sv)" "distinct (map record_key fs)" "length fs \<le> length clock"
    and "\<And>f. f \<in> set fs \<Longrightarrow> \<exists>x. memory_flow (sv_backend sv) (record_key f) = Some x \<and> fs_last_used_ns x = fr_last_used_ns f"
  shows "\<exists>sv' clock' u'. delete_flows (host_env sh obs inval order) fs False ps ((sv, clock), u) =
      (Some False, filter (\<lambda>e. fst e \<notin> record_key ` set fs) ps, (sv', clock'), u')
    \<and> memory_flow (sv_backend sv') =
        (\<lambda>k. if k \<in> record_key ` set fs then None else memory_flow (sv_backend sv) k)"
  using assms
proof (induction fs arbitrary: sv clock ps u)
  case (Cons f fs)
  let ?E = "host_env sh obs inval order"
  obtain x clock1 where clock: "clock = x # clock1" using Cons.prems(3) by (cases clock) auto
  obtain y where "memory_flow (sv_backend sv) (fr_flow_id f, fr_generation f) = Some y" "fs_last_used_ns y = fr_last_used_ns f"
    using Cons.prems(4) [of f] by (auto simp: record_key_def)
  from delete_host [OF Cons.prems(1) this, of sh obs inval order x clock1 u]
  obtain report sv1 where d: "cc_delete_flow (me_client ?E) (fr_flow_id f) (fr_generation f) (fr_last_used_ns f)
      ((sv, x # clock1), u) = (Inr report, (sv1, clock1), u)"
    "dr_outcome report = Complete" "\<not> dr_retryable report" "deletes_freely (sv_backend sv1)"
    "memory_flow (sv_backend sv1) = (memory_flow (sv_backend sv))(record_key f := None)"
    by (auto simp: record_key_def)
  have "\<exists>u1. apply_report ?E f report ps ((sv1, clock1), u) = (pending_remove f ps, (sv1, clock1), u1)"
    using d(2) by (simp add: apply_report_def settled_def host_env_def)
  then obtain u1 where a: "apply_report ?E f report ps ((sv1, clock1), u) = (pending_remove f ps, (sv1, clock1), u1)" ..
  have "\<exists>x. memory_flow (sv_backend sv1) (record_key g) = Some x \<and> fs_last_used_ns x = fr_last_used_ns g"
    if "g \<in> set fs" for g
    using Cons.prems(2,4) that d(5) by (metis distinct.simps(2) fun_upd_other image_eqI list.set_intros(2) list.set_map list.simps(9))
  from Cons.IH [OF d(4) _ _ this, of clock1 "pending_remove f ps" u1]
  obtain sv' clock' u' where i: "delete_flows ?E fs False (pending_remove f ps) ((sv1, clock1), u1) =
      (Some False, filter (\<lambda>e. fst e \<notin> record_key ` set fs) (pending_remove f ps), (sv', clock'), u')"
    "memory_flow (sv_backend sv') = (\<lambda>k. if k \<in> record_key ` set fs then None else memory_flow (sv_backend sv1) k)"
    using Cons.prems(2,3) clock by auto
  have "filter (\<lambda>e. fst e \<notin> record_key ` set fs) (pending_remove f ps) =
      filter (\<lambda>e. fst e \<notin> record_key ` set (f # fs)) ps"
    by (auto simp: pending_remove_def intro: filter_cong)
  moreover have "memory_flow (sv_backend sv') =
      (\<lambda>k. if k \<in> record_key ` set (f # fs) then None else memory_flow (sv_backend sv) k)"
    by (rule ext) (simp add: i(2) d(5))
  ultimately show ?case
    using i(1) d(1,3) a by (simp add: clock Let_def)
qed simp

lemma reported_records:
  assumes "list_all2 (reported T) ps fs" "\<forall>f \<in> set fs. valid_flow_state f"
  shows "\<exists>rs. map flow_from_proto ps = map Inr rs
    \<and> list_all2 (\<lambda>r f. \<exists>x \<in> T. r = record_of f x) rs fs"
  using assms
proof (induction rule: list_all2_induct)
  case (Cons p ps f fs)
  then obtain rs where rs: "map flow_from_proto ps = map Inr rs"
    "list_all2 (\<lambda>r f. \<exists>x \<in> T. r = record_of f x) rs fs" by auto
  obtain x where x: "x \<in> T" "p = flow_to_proto f x" using Cons(1) by (auto simp: reported_def)
  have "flow_from_proto p = Inr (record_of f x)" using Cons.prems x(2) client_reads_flow by simp
  then show ?case using rs x(1) by (intro exI [of _ "record_of f x # rs"]) auto
qed simp

lemma list_all2_partner:
  assumes "list_all2 P xs ys"
  shows "x \<in> set xs \<Longrightarrow> \<exists>y \<in> set ys. P x y" "y \<in> set ys \<Longrightarrow> \<exists>x \<in> set xs. P x y"
  using assms by (induction rule: list_all2_induct) auto

lemma record_keys:
  "list_all2 (\<lambda>r f. \<exists>x \<in> T. r = record_of f x) rs fs \<Longrightarrow> map record_key rs = map flow_key fs"
  by (induction rule: list_all2_induct) (auto simp: record_of_def record_key_def flow_key_def)

lemma noted_from_empty:
  assumes "distinct (map record_key rs)" "\<forall>xs. mset (order xs) = mset xs"
  shows "set (order (map snd (noted c rs []))) = {r \<in> set rs. flow_expired c r}"
    and "distinct (map record_key (order (map snd (noted c rs []))))"
    and "length (order (map snd (noted c rs []))) \<le> length rs"
    and "filter (\<lambda>e. fst e \<notin> record_key ` set (order (map snd (noted c rs [])))) (noted c rs []) = []"
proof -
  have n: "map snd (noted c rs []) = rev (filter (flow_expired c) rs)"
    "\<forall>e \<in> set (noted c rs []). fst e = record_key (snd e)"
    using noted_distinct [OF assms(1), of "[]" c] by (auto simp: list_all_iff)
  have o: "mset (order (map snd (noted c rs []))) = mset (filter (flow_expired c) rs)"
    using assms(2) n(1) by simp
  show s: "set (order (map snd (noted c rs []))) = {r \<in> set rs. flow_expired c r}"
    using mset_eq_setD [OF o] by simp
  have "mset (map record_key (order (map snd (noted c rs [])))) = mset (map record_key (filter (flow_expired c) rs))"
    using o by simp
  then show "distinct (map record_key (order (map snd (noted c rs []))))"
    using mset_eq_imp_distinct_iff distinct_map_filter [OF assms(1)] by blast
  show "length (order (map snd (noted c rs []))) \<le> length rs"
    using mset_eq_length [OF o] by simp
  have "snd ` set (noted c rs []) = {r \<in> set rs. flow_expired c r}"
    using n(1) by (metis list.set_map s set_filter set_rev)
  then show "filter (\<lambda>e. fst e \<notin> record_key ` set (order (map snd (noted c rs [])))) (noted c rs []) = []"
    using n(2) s by (auto simp: filter_empty_conv)
qed

lemma scan_host:
  assumes m: "memory_inv (sv_backend sv)" "ms_flow_mode (sv_backend sv)"
    and valid: "\<forall>k f. memory_flow (sv_backend sv) k = Some f \<longrightarrow> valid_flow_state f"
    and batch: "page_limit (mc_flow_scan_batch c) \<le> 10000"
    and clock: "list_all (within_minute t) clock" "length (ms_flow_states (sv_backend sv)) \<le> length clock"
    and n: "Suc (length clock) < n"
  shows "\<exists>fs rs rest u'. length extra \<le> length rest
    \<and> scan_flows n (host_env sh obs inval order) c [] [] ((sv, (now, t) # clock @ extra), u) =
        Some (Scan_complete, noted c rs [], (sv, rest), u')
    \<and> list_all2 (\<lambda>r f. \<exists>x \<in> insert t (snd ` set clock). r = record_of f x) rs fs
    \<and> distinct (map flow_key fs) \<and> (\<forall>f. f \<in> set fs \<longleftrightarrow> memory_flow (sv_backend sv) (flow_key f) = Some f)
    \<and> length fs = length (ms_flow_states (sv_backend sv))"
proof -
  let ?fs = "bt_values (ms_flow_states (sv_backend sv))" and ?T = "insert t (snd ` set clock)"
  have l: "be_list_flow_states memory_backend (sv_backend sv) = (Inr ?fs, sv_backend sv)"
    using m(2) by (simp add: memory_backend_def memory_list_flow_states_def)
  have len: "length ?fs = length (ms_flow_states (sv_backend sv))" by (simp add: bt_values_def)
  obtain ps where ps: "collect_flows memory_backend (mc_flow_scan_batch c) ((now, t) # clock) [] sv = (Some (Inr ps), sv)"
    "list_all2 (reported ?T) ps (sort_key flow_key ?fs)"
    using memory_flows.collect_flows_complete [OF m(1) l batch clock(1), of now] clock(2) len by auto
  have fs: "distinct (map flow_key ?fs)" "\<And>f. f \<in> set ?fs \<longleftrightarrow> memory_flow (sv_backend sv) (flow_key f) = Some f"
    using memory_flows.list_ok [OF m(1) l] by auto
  then have "\<forall>f \<in> set (sort_key flow_key ?fs). valid_flow_state f" using valid by (metis set_sort)
  from reported_records [OF ps(2) this] obtain rs where rs: "map flow_from_proto ps = map Inr rs"
    "list_all2 (\<lambda>r f. \<exists>x \<in> ?T. r = record_of f x) rs (sort_key flow_key ?fs)" by blast
  have conv: "flow_from_proto p = Inr (projr (flow_from_proto p))" if "p \<in> set ps" for p
    using rs(1) that by (metis (no_types, lifting) image_iff list.set_map sum.sel(2))
  have "map (\<lambda>p. projr (flow_from_proto p)) ps = map projr (map flow_from_proto ps)" by simp
  also have "\<dots> = rs" unfolding rs(1) by (simp add: comp_def)
  finally have rec: "map (\<lambda>p. projr (flow_from_proto p)) ps = rs" .
  from scan_collects [OF ps(1) conv, where n = n and extra = extra and sh = sh
      and obs = obs and inval = inval and order = order and pend = "[]" and u = u]
  obtain rest u' where "length extra \<le> length rest"
    "scan_flows n (host_env sh obs inval order) c [] [] ((sv, (now, t) # clock @ extra), u) =
        Some (Scan_complete, noted c rs [], (sv, rest), u')"
    using n rec by auto
  moreover have "distinct (map flow_key (sort_key flow_key ?fs))"
    "\<forall>f. f \<in> set (sort_key flow_key ?fs) \<longleftrightarrow> memory_flow (sv_backend sv) (flow_key f) = Some f"
    using fs by (simp_all add: distinct_map)
  moreover have "length (sort_key flow_key ?fs) = length (ms_flow_states (sv_backend sv))" using len by simp
  ultimately show ?thesis using rs(2) by blast
qed

section \<open>Properties\<close>

text \<open>C20: a connection of a client is sent to where the client meant to go. For a flow in the
  store of the control service, the lookup that the host proxy makes for the tuple it accepted
  returns the destination of the original tuple.\<close>

theorem lookup_end_to_end:
  assumes "valid_flow_state f" "sv_backend sv = insert_flow_state f m"
    and "bt_get (encode_key (fs_target f)) (ms_entries m) = None"
  shows "client_get_mapping (service_channel sh memory_backend) (host_tuple_of (fs_target f)) (sv, clock) =
    (Inr \<lparr>od_address = socket_addr_new (t_destination (fs_original f)) (t_destination_port (fs_original f)),
          od_protocol = t_protocol (fs_original f)\<rparr>, sv, clock)"
proof -
  have v: "valid_tuple (fs_target f)" "valid_tuple (fs_original f)"
    "t_protocol (fs_original f) = t_protocol (fs_target f)"
    "is_ipv4 (t_destination (fs_original f)) = is_ipv4 (t_destination (fs_target f))"
    using assms(1) by (auto simp: valid_flow_state_def)
  have "destination_from_mapping (host_tuple_of (fs_target f)) (mapping_to_proto (flow_state_mapping f)) =
      Inr \<lparr>od_address = socket_addr_new (t_destination (fs_original f)) (t_destination_port (fs_original f)),
           od_protocol = t_protocol (fs_original f)\<rparr>"
    using v client_reads_tuple [OF v(1)] client_reads_tuple [OF v(2)]
    by (simp add: destination_from_mapping_def mapping_to_proto_def flow_state_mapping_def host_tuple_of_def
        valid_tuple_def)
  then show ?thesis
    using get_mapping_inserted [OF assms] lookup_request_tuple [OF v(1)]
    by (simp add: client_get_mapping_def client_locked_def service_channel_def served_def)
qed

theorem lookup_end_to_end_witness:
  "client_get_mapping (service_channel (\<lambda>_. []) memory_backend) (host_tuple_of (fs_target sample_flow))
     (sample_service (insert_flow_state sample_flow memory_default), []) =
   (Inr \<lparr>od_address = socket_addr_new (t_destination (fs_original sample_flow)) (t_destination_port (fs_original sample_flow)),
         od_protocol = t_protocol (fs_original sample_flow)\<rparr>,
    sample_service (insert_flow_state sample_flow memory_default), [])"
  by (rule lookup_end_to_end [where m = memory_default])
     (simp_all add: sample_service_def service_new_def sample_flow_def sample_tuple_def valid_flow_state_def
       valid_tuple_def protocol_consts)

text \<open>C3: a maintenance pass cleans the control service's store and nothing else. Over a store of
  valid flows, with any page size, any order of the pending deletions and clock readings
  within the minute a page token lives, the pass ends without failure and with nothing
  pending; every flow that is expired at each of the readings is gone, every flow that is
  expired at none of them is still there unchanged, and no flow has appeared.\<close>

theorem maintenance_end_to_end:
  assumes m: "deletes_freely (sv_backend sv)" "ms_flow_mode (sv_backend sv)"
    and valid: "\<forall>k f. memory_flow (sv_backend sv) k = Some f \<longrightarrow> valid_flow_state f"
    and batch: "page_limit (mc_flow_scan_batch c) \<le> 10000"
    and clock: "list_all (within_minute t) clock" "2 * length (ms_flow_states (sv_backend sv)) \<le> length clock"
    and n: "Suc (length (ms_flow_states (sv_backend sv))) < n"
    and order: "\<forall>xs. mset (order xs) = mset xs" and T: "T = insert t (snd ` set clock)"
  shows "\<exists>sv' clock' u'.
    maintenance_pass n (host_env sh obs inval order) c [] ((sv, (now, t) # clock), u) =
      Some (Some False, [], (sv', clock'), u')
    \<and> (\<forall>f. memory_flow (sv_backend sv) (flow_key f) = Some f \<longrightarrow>
          ((\<forall>x \<in> T. flow_expired c (record_of f x)) \<longrightarrow> memory_flow (sv_backend sv') (flow_key f) = None)
          \<and> ((\<forall>x \<in> T. \<not> flow_expired c (record_of f x)) \<longrightarrow>
               memory_flow (sv_backend sv') (flow_key f) = Some f))
    \<and> (\<forall>k. memory_flow (sv_backend sv) k = None \<longrightarrow> memory_flow (sv_backend sv') k = None)"
proof -
  let ?l = "length (ms_flow_states (sv_backend sv))" and ?E = "host_env sh obs inval order"
  let ?pages = "take ?l clock" and ?extra = "drop ?l clock"
  have len: "?l \<le> length ?pages" "Suc (length ?pages) < n" "?l \<le> length ?extra" using clock(2) n by auto
  have w: "list_all (within_minute t) ?pages" using clock(1) by (auto simp: list_all_iff dest: in_set_takeD)
  have "memory_inv (sv_backend sv)" using m(1) by (simp add: deletes_freely_def)
  from scan_host [OF this m(2) valid batch w len(1,2), of ?extra sh obs inval order now u, unfolded append_take_drop_id]
  obtain fs rs rest u1 where s: "length ?extra \<le> length rest"
    "scan_flows n ?E c [] [] ((sv, (now, t) # clock), u) = Some (Scan_complete, noted c rs [], (sv, rest), u1)"
    "list_all2 (\<lambda>r f. \<exists>x \<in> insert t (snd ` set ?pages). r = record_of f x) rs fs"
    "distinct (map flow_key fs)" "\<And>f. f \<in> set fs \<longleftrightarrow> memory_flow (sv_backend sv) (flow_key f) = Some f" "length fs = ?l"
    by blast
  let ?ds = "order (map snd (noted c rs []))"
  have keys: "map record_key rs = map flow_key fs" by (rule record_keys [OF s(3)])
  note ds = noted_from_empty [OF s(4) [folded keys] order, of c]
  have sub: "insert t (snd ` set ?pages) \<subseteq> T" using set_take_subset [of ?l clock] T by auto
  have rec: "\<exists>f \<in> set fs. \<exists>x \<in> T. r = record_of f x" if "r \<in> set rs" for r
    using list_all2_partner(1) [OF s(3) that] sub by blast
  have covered: "\<exists>r \<in> set rs. \<exists>x \<in> T. r = record_of f x" if "f \<in> set fs" for f
    using list_all2_partner(2) [OF s(3) that] sub by blast
  have stored: "\<exists>x. memory_flow (sv_backend sv) (record_key r) = Some x \<and> fs_last_used_ns x = fr_last_used_ns r"
    if "r \<in> set ?ds" for r
    using that ds(1) rec [of r] s(5) by (auto simp: record_of_def record_key_def flow_key_def)
  have "length ?ds \<le> length rest" using ds(3) s(1,6) len(3) arg_cong [OF keys, of length] by simp
  from delete_flows_host [OF m(1) ds(2) this stored, of sh obs inval order "noted c rs []" u1]
  obtain sv' clock' u' where d: "delete_flows ?E ?ds False (noted c rs []) ((sv, rest), u1) = (Some False, [], (sv', clock'), u')"
    "memory_flow (sv_backend sv') = (\<lambda>k. if k \<in> record_key ` set ?ds then None else memory_flow (sv_backend sv) k)"
    unfolding ds(4) by blast
  have "me_order ?E = order" by (simp add: host_env_def)
  then have "maintenance_pass n ?E c [] ((sv, (now, t) # clock), u) = Some (Some False, [], (sv', clock'), u')"
    using s(2) d(1) by (simp add: maintenance_pass_def)
  moreover have "flow_key f \<in> record_key ` set ?ds" if "f \<in> set fs" "\<forall>x \<in> T. flow_expired c (record_of f x)" for f
    using covered [OF that(1)] that(2) ds(1) by (force simp: record_of_def record_key_def flow_key_def)
  moreover have "flow_key f \<notin> record_key ` set ?ds" if "f \<in> set fs" "\<forall>x \<in> T. \<not> flow_expired c (record_of f x)" for f
  proof
    assume "flow_key f \<in> record_key ` set ?ds"
    then obtain r where r: "r \<in> set rs" "flow_expired c r" "record_key r = flow_key f" using ds(1) by auto
    obtain f' x where f': "f' \<in> set fs" "x \<in> T" "r = record_of f' x" using rec [OF r(1)] by blast
    then have "flow_key f' = flow_key f" using r(3) by (simp add: record_of_def record_key_def flow_key_def)
    then have "f' = f" using s(5) f'(1) that(1) by (metis option.inject)
    then show False using that(2) r(2) f' by blast
  qed
  ultimately show ?thesis using d(2) s(5) by (intro exI) auto
qed

theorem maintenance_end_to_end_witness:
  "\<exists>sv' clock' u'.
     maintenance_pass 3 (host_env (\<lambda>_. []) (\<lambda>_ _ _ u. u) (\<lambda>_ _ _ u. u) (\<lambda>xs. xs)) sample_config []
       ((sample_service (insert_flow_state sample_flow memory_default), [(1000, 1000), (1000, 1000), (1000, 1000)]), 0 :: nat) =
       Some (Some False, [], (sv', clock'), u')
     \<and> memory_flow (sv_backend sv') (7, 1) = None"
proof -
  let ?m = "insert_flow_state sample_flow memory_default"
  have m: "sv_backend (sample_service ?m) = ?m" by (simp add: sample_service_def service_new_def)
  have flow: "memory_flow ?m = [(7, 1) \<mapsto> sample_flow]"
    by (simp add: memory_flow_insert flow_key_def sample_flow_def fun_eq_iff memory_flow_def memory_default_def)
  have v: "valid_flow_state sample_flow"
    by (simp add: sample_flow_def sample_tuple_def valid_flow_state_def valid_tuple_def protocol_consts)
  have free: "deletes_freely ?m"
    using memory_inv_insert_flow [OF memory_inv_default, of sample_flow]
    by (simp add: deletes_freely_def insert_flow_state_def memory_default_def Let_def)
  have l: "ms_flow_mode ?m" "length (ms_flow_states ?m) = 1"
    by (simp_all add: insert_flow_state_def memory_default_def Let_def)
  have x: "flow_expired sample_config (record_of sample_flow 1000)"
    by (simp add: flow_expired_def flow_terminal_def flow_age_def record_of_def sample_flow_def sample_config_def
        saturating_sub_u64_def UDP_PROTOCOL_def host_tuple_of_def sample_tuple_def PROTOCOL_TCP_def)
  have k: "flow_key sample_flow = (7, 1)" by (simp add: flow_key_def sample_flow_def)
  have all: "\<forall>k f. memory_flow ?m k = Some f \<longrightarrow> valid_flow_state f" using v by (auto simp: flow split: if_splits)
  note pass = maintenance_end_to_end [where sv = "sample_service ?m" and c = sample_config and t = 1000
      and now = 1000 and clock = "[(1000, 1000), (1000, 1000)]" and n = 3 and order = "\<lambda>xs. xs" and T = "{1000}"
      and sh = "\<lambda>_. []" and obs = "\<lambda>_ _ _ u. u" and inval = "\<lambda>_ _ _ u. u" and u = "0 :: nat", unfolded m,
      OF free l(1) all]
  obtain sv' clock' u' where p:
    "maintenance_pass 3 (host_env (\<lambda>_. []) (\<lambda>_ _ _ u. u) (\<lambda>_ _ _ u. u) (\<lambda>xs. xs)) sample_config []
       ((sample_service ?m, [(1000, 1000), (1000, 1000), (1000, 1000)]), 0 :: nat) =
       Some (Some False, [], (sv', clock'), u')"
    "\<And>f. memory_flow ?m (flow_key f) = Some f \<Longrightarrow> \<forall>x \<in> {1000}. flow_expired sample_config (record_of f x) \<Longrightarrow>
       memory_flow (sv_backend sv') (flow_key f) = None"
    using pass l(2) by (auto simp: sample_config_def page_limit_def within_minute_def saturating_sub_u64_def)
  have "memory_flow (sv_backend sv') (7, 1) = None" using p(2) [of sample_flow] k x by (simp add: flow)
  with p(1) show ?thesis by blast
qed


end
