(* ===== verification/Deletion_Protocol.thy ===== *)
theory Deletion_Protocol
  imports Aya_Adapter
begin

text \<open>
  The deletion of one flow generation by \<open>AyaLinuxTcAdapter::delete_flow\<close>, seen from the BPF
  maps. \<open>logged K\<close> is the library \<open>K\<close> with a record of the map calls made through it, and a
  small program logic over that record carries the proof that, whatever the kernel and the
  packets do in between, the calls follow the guard protocol described in the comments of
  \<open>bpf.rs\<close>.
\<close>

section \<open>Recording the map calls\<close>

datatype map_event =
    Got string bytes "bytes option"
  | GetFailed string bytes
  | Inserted string bytes bytes u64 bool
  | Removed string bytes bool
  | Scanned string
  | Pushed string bytes bool

definition silent :: "('k \<Rightarrow> 'r \<times> 'k) \<Rightarrow> 'k \<times> 'e list \<Rightarrow> 'r \<times> 'k \<times> 'e list" where
  "silent f s = (case f (fst s) of (r, k) \<Rightarrow> (r, k, snd s))"

text \<open>One more event at the end of a history.\<close>

definition andthen :: "'e list \<Rightarrow> 'e \<Rightarrow> 'e list" where
  "andthen evs e = evs @ [e]"

definition noted :: "('k \<Rightarrow> 'r \<times> 'k) \<Rightarrow> ('r \<Rightarrow> 'e) \<Rightarrow> 'k \<times> 'e list \<Rightarrow> 'r \<times> 'k \<times> 'e list" where
  "noted f ev s = (case f (fst s) of (r, k) \<Rightarrow> (r, k, andthen (snd s) (ev r)))"

fun got_event :: "string \<Rightarrow> bytes \<Rightarrow> map_error + bytes \<Rightarrow> map_event" where
  "got_event name key (Inr v) = Got name key (Some v)"
| "got_event name key (Inl KeyNotFound) = Got name key None"
| "got_event name key (Inl ElementNotFound) = Got name key None"
| "got_event name key (Inl (OtherMapError _)) = GetFailed name key"

definition logged :: "('h, 'l, 'k) aya \<Rightarrow> ('h, 'l, 'k \<times> map_event list) aya" where
  "logged K =
     \<lparr>ay_load_file = (\<lambda>p. silent (ay_load_file K p)),
      ay_has_program = ay_has_program K, ay_classifier = ay_classifier K,
      ay_program_load = (\<lambda>h n. silent (ay_program_load K h n)),
      ay_has_map = ay_has_map K, ay_map_typed = ay_map_typed K, ay_map_info = ay_map_info K,
      ay_qdisc_add_clsact = (\<lambda>i. silent (ay_qdisc_add_clsact K i)),
      ay_attach = (\<lambda>h n i d. silent (ay_attach K h n i d)),
      ay_take_link = (\<lambda>h n l. silent (ay_take_link K h n l)),
      ay_link_detach = (\<lambda>l. silent (ay_link_detach K l)),
      ay_map_get = (\<lambda>h n key. noted (ay_map_get K h n key) (got_event n key)),
      ay_map_insert = (\<lambda>h n key v fl.
        noted (ay_map_insert K h n key v fl) (\<lambda>r. Inserted n key v fl (is_ok r))),
      ay_map_remove = (\<lambda>h n key. noted (ay_map_remove K h n key) (\<lambda>r. Removed n key (is_ok r))),
      ay_map_iter = (\<lambda>h n. noted (ay_map_iter K h n) (\<lambda>_. Scanned n)),
      ay_queue_push = (\<lambda>h n v. noted (ay_queue_push K h n v) (\<lambda>r. Pushed n v (is_ok r))),
      ay_array_get = (\<lambda>h n i. silent (ay_array_get K h n i)),
      ay_array_set = (\<lambda>h n i v. silent (ay_array_set K h n i v)),
      ay_clock_gettime = silent (ay_clock_gettime K), ay_show_map_error = ay_show_map_error K\<rparr>"

section \<open>The protocol\<close>

text \<open>Events in the order of a list of descriptions, with anything in between.\<close>

fun in_order :: "('e \<Rightarrow> bool) list \<Rightarrow> 'e list \<Rightarrow> bool" where
  "in_order [] es = True"
| "in_order (P # Ps) [] = False"
| "in_order (P # Ps) (e # es) = (if P e then in_order Ps es else in_order (P # Ps) es)"

fun guard_set :: "bytes \<Rightarrow> map_event \<Rightarrow> bool" where
  "guard_set key (Inserted name k v flags ok) \<longleftrightarrow>
     name = FLOW_DELETE_GUARD_MAP_NAME_V1 \<and> k = key \<and> flags = BPF_NOEXIST \<and> ok"
| "guard_set key _ = False"

fun guard_cleared :: "bytes \<Rightarrow> map_event \<Rightarrow> bool" where
  "guard_cleared key (Removed name k ok) \<longleftrightarrow> name = FLOW_DELETE_GUARD_MAP_NAME_V1 \<and> k = key"
| "guard_cleared key _ = False"

fun committed :: "bytes \<Rightarrow> map_event \<Rightarrow> bool" where
  "committed key (Inserted name k v flags ok) \<longleftrightarrow>
     name = FLOW_DELETE_OUTCOME_MAP_NAME_V1 \<and> k = key
     \<and> v = to_ne_bytes FLOW_DELETE_COMMITTED \<and> flags = BPF_NOEXIST \<and> ok"
| "committed key _ = False"

fun no_packets :: "bytes \<Rightarrow> map_event \<Rightarrow> bool" where
  "no_packets key (Got name k v) \<longleftrightarrow>
     name = FLOW_PACKET_INFLIGHT_MAP_NAME_V1 \<and> k = key
     \<and> (case v of None \<Rightarrow> True | Some v \<Rightarrow> (from_ne_bytes v :: u64) = 0)"
| "no_packets key _ = False"

fun read_record :: "bytes \<Rightarrow> (bytes \<Rightarrow> bool) \<Rightarrow> map_event \<Rightarrow> bool" where
  "read_record key P (Got name k v) \<longleftrightarrow>
     name = FLOW_STATE_MAP_NAME_V1 \<and> k = key \<and> (case v of None \<Rightarrow> False | Some v \<Rightarrow> P v)"
| "read_record key P _ = False"

definition unused_since :: "u64 \<Rightarrow> bytes \<Rightarrow> bool" where
  "unused_since observed v \<longleftrightarrow>
     (case decode_flow_state v of
        Inl _ \<Rightarrow> False
      | Inr f \<Rightarrow> observed = 0 \<or> fs_last_used_ns f = observed)"

fun journaled :: "bytes \<Rightarrow> map_event \<Rightarrow> bool" where
  "journaled key (Inserted name k v flags ok) \<longleftrightarrow>
     name = ACTIVE_FLOW_RELEASE_PENDING_MAP_NAME_V1 \<and> k = key
     \<and> v = to_ne_bytes FLOW_RELEASE_PENDING \<and> ok"
| "journaled key _ = False"

definition state_removed :: "bytes \<Rightarrow> map_event list \<Rightarrow> bool" where
  "state_removed key evs \<longleftrightarrow> Removed FLOW_STATE_MAP_NAME_V1 key True \<in> set evs"

definition owned :: "bytes \<Rightarrow> map_event list \<Rightarrow> bool" where
  "owned key evs \<longleftrightarrow> state_removed key evs \<or> Got FLOW_STATE_MAP_NAME_V1 key None \<in> set evs"

definition read_as :: "flow_index_value \<Rightarrow> bytes \<Rightarrow> map_event list \<Rightarrow> bool" where
  "read_as expected key evs \<longleftrightarrow>
     (\<exists>pre v. evs = andthen pre (Got FLOW_INDEX_MAP_NAME_V1 key (Some v)) \<and> decode_index v = Inr expected)"

text \<open>When an event may follow a history. The flow-state record is removed only under a guard,
  after the deletion is committed, after the packet counter has been seen at zero, after the
  record has been seen unused since the caller observed it, and after the release is
  journaled. An index is removed only by the owner of the record and only right after it was
  read with the identity being deleted; a capacity release is queued only by the owner.\<close>

fun permitted :: "u64 \<Rightarrow> u32 \<Rightarrow> u64 \<Rightarrow> map_event list \<Rightarrow> map_event \<Rightarrow> bool" where
  "permitted flow_id gen observed evs (Removed name key ok) =
     (let sk = encode_flow_state_key flow_id gen
      in (name = FLOW_STATE_MAP_NAME_V1 \<longrightarrow> key = sk \<and>
            in_order [guard_set sk, committed sk, no_packets sk, read_record sk (unused_since observed),
                      journaled sk] evs)
         \<and> (name = FLOW_INDEX_MAP_NAME_V1 \<longrightarrow> owned sk evs \<and>
              read_as \<lparr>fi_flow_id = flow_id, fi_generation = gen\<rparr> key evs))"
| "permitted flow_id gen observed evs (Pushed name v ok) =
     (let sk = encode_flow_state_key flow_id gen in v = sk \<and> owned sk evs)"
| "permitted flow_id gen observed evs (Got _ _ _) = True"
| "permitted flow_id gen observed evs (GetFailed _ _) = True"
| "permitted flow_id gen observed evs (Inserted _ _ _ _ _) = True"
| "permitted flow_id gen observed evs (Scanned _) = True"

definition lawful :: "u64 \<Rightarrow> u32 \<Rightarrow> u64 \<Rightarrow> map_event list \<Rightarrow> bool" where
  "lawful flow_id gen observed evs \<longleftrightarrow>
     (\<forall>i < length evs. permitted flow_id gen observed (take i evs) (evs ! i))"

lemma lawful_Nil [simp]: "lawful i g ob []"
  by (simp add: lawful_def)

lemma lawful_snoc [simp]:
  "lawful i g ob (andthen evs e) \<longleftrightarrow> lawful i g ob evs \<and> permitted i g ob evs e"
  by (auto simp: lawful_def andthen_def nth_append less_Suc_eq)

lemma in_order_andthen [simp]:
  "in_order Ps (andthen es e) \<longleftrightarrow>
     in_order Ps es \<or> Ps \<noteq> [] \<and> last Ps e \<and> in_order (butlast Ps) es"
proof (induction Ps es rule: in_order.induct)
  case (2 P Ps)
  then show ?case by (cases Ps) (auto simp: andthen_def)
next
  case (3 P Ps e' es)
  then show ?case by (cases Ps) (auto simp: andthen_def)
qed (simp add: andthen_def)

lemma set_andthen [simp]: "set (andthen evs e) = insert e (set evs)"
  by (auto simp: andthen_def)

lemma in_order_tail: "in_order (P # Ps) es \<Longrightarrow> in_order Ps es"
proof (induction es arbitrary: P Ps)
  case (Cons e es)
  have "in_order Ps es" using Cons by (auto split: if_splits)
  then show ?case using Cons.IH by (cases Ps) (auto split: if_splits)
qed simp

lemma in_order_Cons: "in_order Ps es \<Longrightarrow> in_order Ps (e # es)"
  using in_order_tail by (cases Ps) auto

lemma in_order_mono:
  assumes "in_order Ps es" "list_all2 (\<lambda>P Q. \<forall>e. P e \<longrightarrow> Q e) Ps Qs"
  shows "in_order Qs es"
  using assms
proof (induction Ps es arbitrary: Qs rule: in_order.induct)
  case (3 P Ps e es)
  then obtain Q Qs' where Qs: "Qs = Q # Qs'" "\<forall>e. P e \<longrightarrow> Q e" "list_all2 (\<lambda>P Q. \<forall>e. P e \<longrightarrow> Q e) Ps Qs'"
    by (auto simp: list_all2_Cons1)
  show ?case
  proof (cases "P e")
    case True
    then show ?thesis using 3 Qs by simp
  next
    case False
    then have "in_order (Q # Qs') es" using 3 Qs by simp
    then show ?thesis using Qs(1) by (simp only: in_order_Cons)
  qed
qed auto

section \<open>A logic of recorded calls\<close>

text \<open>\<open>runs f Q evs\<close>: from history \<open>evs\<close>, whatever the kernel state is, \<open>f\<close> ends with a result
  and history that satisfy \<open>Q\<close>. The rules compute it backwards through the action
  combinators; every map call appends the event of its result.\<close>

definition runs ::
    "('k \<times> 'e list \<Rightarrow> 'r \<times> 'k \<times> 'e list) \<Rightarrow> ('r \<Rightarrow> 'e list \<Rightarrow> bool) \<Rightarrow> 'e list \<Rightarrow> bool" where
  "runs f Q evs \<longleftrightarrow> (\<forall>k. case f (k, evs) of (r, _, evs') \<Rightarrow> Q r evs')"

named_theorems runs_rules

lemma runs_conseq:
  "runs f Q evs \<Longrightarrow> (\<And>r evs'. Q r evs' \<Longrightarrow> Q' r evs') \<Longrightarrow> runs f Q' evs"
  by (fastforce simp: runs_def split: prod.splits)

lemma runs_bind [runs_rules]:
  "runs m (\<lambda>r evs. case r of Inl e \<Rightarrow> R (Inl e) evs | Inr x \<Rightarrow> runs (f x) R evs) evs \<Longrightarrow>
   runs (bind_act m f) R evs"
  by (fastforce simp: runs_def bind_act_def split: prod.splits sum.splits)

lemma runs_attempt [runs_rules]:
  "runs m (\<lambda>r. runs (f r) R) evs \<Longrightarrow> runs (attempt m f) R evs"
  by (fastforce simp: runs_def attempt_def split: prod.splits)

lemma runs_ret [runs_rules]: "R (Inr x) evs \<Longrightarrow> runs (ret x) R evs"
  by (simp add: runs_def ret_def)

lemma runs_fail [runs_rules]: "R (Inl e) evs \<Longrightarrow> runs (fail e) R evs"
  by (simp add: runs_def fail_def)

definition usable :: "('h, 'l, 'k) aya \<Rightarrow> 'h \<Rightarrow> string \<Rightarrow> bool" where
  "usable K h name \<longleftrightarrow> ay_has_map K h name \<and> is_ok (ay_map_typed K h name)"

lemma runs_with_map [runs_rules]:
  "(usable K h name \<Longrightarrow> runs f Q evs) \<Longrightarrow> (\<And>e. \<not> usable K h name \<Longrightarrow> Q (Inl e) evs) \<Longrightarrow>
   runs (with_map name missing (logged K) h f) Q evs"
  by (auto simp: runs_def with_map_def usable_def logged_def split: prod.splits sum.splits)

lemma runs_get [runs_rules]:
  "(\<And>v. Q (Inr v) (andthen evs (Got name key v))) \<Longrightarrow> (\<And>e. Q (Inl e) (andthen evs (GetFailed name key))) \<Longrightarrow>
   runs (map_get_opt (logged K) h name key) Q evs"
  by (auto simp: runs_def map_get_opt_def logged_def noted_def
      split: prod.splits sum.splits map_error.splits)

lemma runs_insert [runs_rules]:
  "(\<And>u. Q (Inr u) (andthen evs (Inserted name key v fl True))) \<Longrightarrow>
   (\<And>e. Q (Inl e) (andthen evs (Inserted name key v fl False))) \<Longrightarrow>
   runs (map_insert (logged K) h name key v fl) Q evs"
  by (auto simp: runs_def map_insert_def logged_def noted_def map_err_def split: prod.splits sum.splits)

lemma runs_remove [runs_rules]:
  "(\<And>u. Q (Inr u) (andthen evs (Removed name key True))) \<Longrightarrow>
   (\<And>e. Q (Inl e) (andthen evs (Removed name key False))) \<Longrightarrow>
   runs (map_remove (logged K) h name key) Q evs"
  by (auto simp: runs_def map_remove_def logged_def noted_def map_err_def split: prod.splits sum.splits)

lemma runs_remove_lenient [runs_rules]:
  "(\<And>r b. Q r (andthen evs (Removed name key b))) \<Longrightarrow>
   runs (map_remove_lenient (logged K) h name key) Q evs"
  by (auto simp: runs_def map_remove_lenient_def logged_def noted_def
      split: prod.splits sum.splits map_error.splits)

lemma runs_scan [runs_rules]:
  "(\<And>r. Q r (andthen evs (Scanned name))) \<Longrightarrow> runs (scan_map (logged K) h name f) Q evs"
  by (auto simp: runs_def scan_map_def logged_def noted_def split: prod.splits)

lemma runs_push [runs_rules]:
  "(\<And>r b. Q r (andthen evs (Pushed name v b))) \<Longrightarrow>
   runs (\<lambda>k. case ay_queue_push (logged K) h name v k of (r, k) \<Rightarrow> (map_err (map_error (logged K)) r, k))
     Q evs"
  by (auto simp: runs_def logged_def noted_def split: prod.splits)

lemma runs_now [runs_rules]: "(\<And>t. Q t evs) \<Longrightarrow> runs (adapter_now_ns (logged K)) Q evs"
  by (auto simp: runs_def adapter_now_ns_def logged_def silent_def split: prod.splits option.splits)

lemma runs_if [runs_rules]:
  "(b \<Longrightarrow> runs f Q evs) \<Longrightarrow> (\<not> b \<Longrightarrow> runs g Q evs) \<Longrightarrow> runs (if b then f else g) Q evs"
  by simp

lemma runs_option [runs_rules]:
  "(x = None \<Longrightarrow> runs f Q evs) \<Longrightarrow> (\<And>y. x = Some y \<Longrightarrow> runs (g y) Q evs) \<Longrightarrow>
   runs (case x of None \<Rightarrow> f | Some y \<Rightarrow> g y) Q evs"
  by (simp split: option.split)

lemma runs_sum [runs_rules]:
  "(\<And>e. x = Inl e \<Longrightarrow> runs (f e) Q evs) \<Longrightarrow> (\<And>y. x = Inr y \<Longrightarrow> runs (g y) Q evs) \<Longrightarrow>
   runs (case x of Inl e \<Rightarrow> f e | Inr y \<Rightarrow> g y) Q evs"
  by (simp split: sum.split)

lemmas map_name_defs = FLOW_INDEX_MAP_NAME_V1_def FLOW_STATE_MAP_NAME_V1_def
  ACTIVE_FLOW_RELEASES_MAP_NAME_V1_def ACTIVE_FLOW_RELEASE_PENDING_MAP_NAME_V1_def
  FLOW_DELETE_GUARD_MAP_NAME_V1_def FLOW_DELETE_OUTCOME_MAP_NAME_V1_def
  FLOW_PACKET_INFLIGHT_MAP_NAME_V1_def

lemma map_names_distinct [simp]:
  "FLOW_STATE_MAP_NAME_V1 \<noteq> FLOW_INDEX_MAP_NAME_V1"
  "FLOW_DELETE_GUARD_MAP_NAME_V1 \<noteq> FLOW_INDEX_MAP_NAME_V1"
  "FLOW_DELETE_GUARD_MAP_NAME_V1 \<noteq> FLOW_STATE_MAP_NAME_V1"
  "FLOW_DELETE_OUTCOME_MAP_NAME_V1 \<noteq> FLOW_INDEX_MAP_NAME_V1"
  "FLOW_DELETE_OUTCOME_MAP_NAME_V1 \<noteq> FLOW_STATE_MAP_NAME_V1"
  "FLOW_DELETE_OUTCOME_MAP_NAME_V1 \<noteq> FLOW_DELETE_GUARD_MAP_NAME_V1"
  "FLOW_PACKET_INFLIGHT_MAP_NAME_V1 \<noteq> FLOW_INDEX_MAP_NAME_V1"
  "FLOW_PACKET_INFLIGHT_MAP_NAME_V1 \<noteq> FLOW_STATE_MAP_NAME_V1"
  "ACTIVE_FLOW_RELEASE_PENDING_MAP_NAME_V1 \<noteq> FLOW_INDEX_MAP_NAME_V1"
  "ACTIVE_FLOW_RELEASE_PENDING_MAP_NAME_V1 \<noteq> FLOW_STATE_MAP_NAME_V1"
  "ACTIVE_FLOW_RELEASE_PENDING_MAP_NAME_V1 \<noteq> FLOW_DELETE_GUARD_MAP_NAME_V1"
  "ACTIVE_FLOW_RELEASE_PENDING_MAP_NAME_V1 \<noteq> FLOW_DELETE_OUTCOME_MAP_NAME_V1"
  "ACTIVE_FLOW_RELEASE_PENDING_MAP_NAME_V1 \<noteq> FLOW_PACKET_INFLIGHT_MAP_NAME_V1"
  "FLOW_PACKET_INFLIGHT_MAP_NAME_V1 \<noteq> FLOW_DELETE_GUARD_MAP_NAME_V1"
  "FLOW_PACKET_INFLIGHT_MAP_NAME_V1 \<noteq> FLOW_DELETE_OUTCOME_MAP_NAME_V1"
  by (simp_all add: map_name_defs)

declare map_names_distinct [symmetric, simp]

lemmas with_map_defs = with_flow_index_map_def with_state_map_def with_active_flow_releases_def
  with_active_flow_release_pending_map_def with_delete_guard_map_def with_delete_outcome_map_def
  with_packet_inflight_map_def

section \<open>Stages of a deletion\<close>

text \<open>A history that has kept the protocol, in which the record has not been removed, and
  which contains the given events in order.\<close>

definition during ::
    "u64 \<Rightarrow> u32 \<Rightarrow> u64 \<Rightarrow> (map_event \<Rightarrow> bool) list \<Rightarrow> map_event list \<Rightarrow> bool" where
  "during i g ob Ps evs \<longleftrightarrow>
     lawful i g ob evs \<and> \<not> state_removed (encode_flow_state_key i g) evs \<and> in_order Ps evs"

definition unguarded :: "u64 \<Rightarrow> u32 \<Rightarrow> map_event list \<Rightarrow> bool" where
  "unguarded i g evs \<longleftrightarrow> (\<forall>e \<in> set evs. \<not> guard_set (encode_flow_state_key i g) e)"

lemma during_andthen [simp]:
  "during i g ob Ps (andthen evs e) \<longleftrightarrow>
     (during i g ob Ps evs \<or> Ps \<noteq> [] \<and> last Ps e \<and> during i g ob (butlast Ps) evs)
     \<and> permitted i g ob evs e
     \<and> e \<noteq> Removed FLOW_STATE_MAP_NAME_V1 (encode_flow_state_key i g) True"
  by (auto simp: during_def state_removed_def)

lemma in_order_front: "in_order (Ps @ Qs) es \<Longrightarrow> in_order Ps es"
  by (induction Ps es rule: in_order.induct) (auto split: if_splits)

lemma during_front: "during i g ob (P # Q # Ps) evs \<Longrightarrow> during i g ob [P] evs"
  using in_order_front [of "[P]" "Q # Ps"] by (simp add: during_def)

lemma unguarded_snoc [simp]:
  "unguarded i g (andthen evs e) \<longleftrightarrow> unguarded i g evs \<and> \<not> guard_set (encode_flow_state_key i g) e"
  by (auto simp: unguarded_def)

lemma install_guard_runs:
  assumes "during i g ob [] evs" "unguarded i g evs"
  shows "runs (install_guard (logged K) h (encode_flow_state_key i g) d True)
    (\<lambda>r evs. (r = Inr True \<longrightarrow> during i g ob [guard_set (encode_flow_state_key i g)] evs
               \<and> usable K h FLOW_DELETE_GUARD_MAP_NAME_V1)
           \<and> (r \<noteq> Inr True \<longrightarrow> during i g ob [] evs \<and> unguarded i g evs)) evs"
  using assms
  by (auto simp: install_guard_def with_map_defs Let_def intro!: runs_rules)

lemma install_no_guard_runs:
  assumes "during i g ob [] evs" "unguarded i g evs" "owned (encode_flow_state_key i g) evs"
  shows "runs (install_guard (logged K) h (encode_flow_state_key i g) d False)
    (\<lambda>r evs. during i g ob [] evs \<and> unguarded i g evs \<and> owned (encode_flow_state_key i g) evs) evs"
  using assms
  by (auto simp: install_guard_def with_map_defs owned_def state_removed_def intro!: runs_rules)

lemma wait_quiescent_runs:
  assumes "during i g ob Ps evs"
  shows "runs (wait_quiescent n (logged K) h (encode_flow_state_key i g))
    (\<lambda>r evs. during i g ob Ps evs
       \<and> (r = Inr True \<longrightarrow> during i g ob (Ps @ [no_packets (encode_flow_state_key i g)]) evs)) evs"
  using assms
proof (induction n arbitrary: evs)
  case 0
  then show ?case by (auto simp: runs_def ret_def)
next
  case (Suc n)
  then show ?case
    by (auto simp: read_in_flight_def with_map_defs split: option.split intro!: runs_rules)
qed

lemma runs_read_state:
  assumes "\<And>v. Q (Inr v) (andthen evs (Got FLOW_STATE_MAP_NAME_V1 sk v))"
    and "\<And>e. Q (Inl e) (andthen evs (GetFailed FLOW_STATE_MAP_NAME_V1 sk))" "\<And>e. Q (Inl e) evs"
  shows "runs (read_state (logged K) h sk) Q evs"
  using assms by (auto simp: read_state_def with_map_defs intro!: runs_rules)

lemma no_state_deleted [simp]:
  "\<not> cr_state_deleted mismatch_report" "\<not> cr_state_deleted cleanup_default"
  by (simp_all add: mismatch_report_def cleanup_default_def)

text \<open>The histories at the end of the commit phase: still guarded, and fully confirmed when a
  record is handed on.\<close>

definition commit_end ::
    "u64 \<Rightarrow> u32 \<Rightarrow> u64 \<Rightarrow> backend_error + (flow_cleanup_report + bytes) \<Rightarrow> map_event list \<Rightarrow> bool" where
  "commit_end i g ob r evs \<longleftrightarrow>
     (let sk = encode_flow_state_key i g in
      during i g ob [guard_set sk] evs
      \<and> (\<forall>rep. r = Inr (Inl rep) \<longrightarrow> \<not> cr_state_deleted rep)
      \<and> (\<forall>v. r = Inr (Inr v) \<longrightarrow>
           during i g ob [guard_set sk, committed sk, no_packets sk, read_record sk (\<lambda>v'. v' = v)] evs))"

lemma confirm_quiescent_runs:
  assumes "during i g ob [guard_set (encode_flow_state_key i g), committed (encode_flow_state_key i g)] evs"
  shows "runs (confirm_quiescent (logged K) h (encode_flow_state_key i g)) (commit_end i g ob) evs"
proof -
  let ?sk = "encode_flow_state_key i g"
  have front: "during i g ob [guard_set ?sk] es" if "during i g ob (guard_set ?sk # Q # Qs) es" for Q Qs es
    using that by (rule during_front)
  show ?thesis
    unfolding confirm_quiescent_def
    using assms
    by (intro runs_bind runs_conseq [OF wait_quiescent_runs [where Ps = "[guard_set ?sk, committed ?sk]"]])
       (auto simp: commit_end_def front Let_def intro!: runs_rules runs_read_state split: sum.split)
qed

lemma commit_deletion_runs:
  assumes "during i g ob [guard_set (encode_flow_state_key i g)] evs"
  shows "runs (commit_deletion (logged K) h (encode_flow_state_key i g)) (commit_end i g ob) evs"
proof -
  let ?sk = "encode_flow_state_key i g"
  show ?thesis
    unfolding commit_deletion_def
    using assms
    by (intro runs_bind runs_conseq [OF wait_quiescent_runs [where Ps = "[guard_set ?sk]"]])
       (auto simp: commit_end_def with_map_defs Let_def
         intro!: runs_rules runs_read_state runs_conseq [OF confirm_quiescent_runs [where ob = ob]]
         split: sum.split)
qed

section \<open>Removing the record and its indexes\<close>

lemma state_removed_andthen [simp]:
  "state_removed sk (andthen evs e) \<longleftrightarrow>
     state_removed sk evs \<or> e = Removed FLOW_STATE_MAP_NAME_V1 sk True"
  by (auto simp: state_removed_def)

lemma owned_andthen [simp]:
  "owned sk (andthen evs e) \<longleftrightarrow>
     owned sk evs \<or> e = Removed FLOW_STATE_MAP_NAME_V1 sk True \<or> e = Got FLOW_STATE_MAP_NAME_V1 sk None"
  by (auto simp: owned_def)

lemma read_as_andthen [simp]:
  "read_as expected key (andthen evs e) \<longleftrightarrow>
     (\<exists>v. e = Got FLOW_INDEX_MAP_NAME_V1 key (Some v) \<and> decode_index v = Inr expected)"
  by (auto simp: read_as_def andthen_def)

text \<open>What the removal phase keeps: the protocol, the fate of the record, and any property of
  histories that later events other than a new guard cannot destroy.\<close>

definition removal ::
    "u64 \<Rightarrow> u32 \<Rightarrow> u64 \<Rightarrow> (map_event list \<Rightarrow> bool) \<Rightarrow> bool \<Rightarrow> map_event list \<Rightarrow> bool" where
  "removal i g ob P b evs \<longleftrightarrow>
     lawful i g ob evs \<and> state_removed (encode_flow_state_key i g) evs = b \<and> P evs"

definition durable :: "u64 \<Rightarrow> u32 \<Rightarrow> (map_event list \<Rightarrow> bool) \<Rightarrow> bool" where
  "durable i g P \<longleftrightarrow>
     (\<forall>evs e. P evs \<longrightarrow> \<not> guard_set (encode_flow_state_key i g) e \<longrightarrow> P (andthen evs e))"

lemma removal_andthen:
  assumes "durable i g P" "removal i g ob P b evs" "permitted i g ob evs e"
    and "\<not> guard_set (encode_flow_state_key i g) e"
    and "e \<noteq> Removed FLOW_STATE_MAP_NAME_V1 (encode_flow_state_key i g) True"
  shows "removal i g ob P b (andthen evs e)"
  using assms by (auto simp: removal_def durable_def)

lemma during_removal: "during i g ob Ps evs \<Longrightarrow> P evs \<Longrightarrow> removal i g ob P False evs"
  by (simp add: removal_def during_def)

lemma delete_index_runs:
  assumes "durable i g P" "removal i g ob P b evs" "owned (encode_flow_state_key i g) evs"
  shows "runs (delete_index (logged K) h \<lparr>fi_flow_id = i, fi_generation = g\<rparr> key)
    (\<lambda>r evs. removal i g ob P b evs \<and> owned (encode_flow_state_key i g) evs) evs"
  using assms
  by (auto simp: delete_index_def with_map_defs intro!: runs_rules removal_andthen)

lemma delete_indexes_Cons:
  "delete_indexes K h ex (key # keys) (n, partial) =
     attempt (delete_index K h ex key) (\<lambda>r. delete_indexes K h ex keys
       (case r of Inl _ \<Rightarrow> (n, True) | Inr True \<Rightarrow> (n + 1, partial) | Inr False \<Rightarrow> (n, partial)))"
  by (auto simp: attempt_def fun_eq_iff split: prod.splits sum.splits bool.splits)

lemma delete_indexes_runs:
  assumes "durable i g P" "removal i g ob P b evs" "owned (encode_flow_state_key i g) evs"
  shows "runs (delete_indexes (logged K) h \<lparr>fi_flow_id = i, fi_generation = g\<rparr> keys acc)
    (\<lambda>r evs. removal i g ob P b evs \<and> owned (encode_flow_state_key i g) evs) evs"
  using assms(2,3)
proof (induction keys arbitrary: acc evs)
  case Nil
  then show ?case by (simp add: runs_def)
next
  case (Cons key keys)
  obtain n partial where acc: "acc = (n, partial)" by fastforce
  show ?case
    unfolding acc delete_indexes_Cons
    by (rule runs_attempt, rule runs_conseq [OF delete_index_runs [OF assms(1) Cons.prems]])
       (use Cons.IH in blast)
qed

lemma transfer_state_runs:
  fixes i g
  defines "sk \<equiv> encode_flow_state_key i g"
  assumes "durable i g P" "P evs"
    and "during i g ob [guard_set sk, committed sk, no_packets sk, read_record sk (unused_since ob)] evs"
  shows "runs (transfer_state (logged K) h sk (Some v))
    (\<lambda>r evs. case r of Inl _ \<Rightarrow> removal i g ob P False evs
       | Inr (deleted, partial) \<Rightarrow> removal i g ob P deleted evs \<and> (deleted \<longrightarrow> owned sk evs)) evs"
  using assms
  by (auto simp: transfer_state_def with_map_defs removal_def durable_def during_def owned_def
      intro!: runs_rules)

text \<open>How the removal phase ends: it reports a deleted state exactly when the record is gone.\<close>

definition removal_end ::
    "u64 \<Rightarrow> u32 \<Rightarrow> u64 \<Rightarrow> (map_event list \<Rightarrow> bool) \<Rightarrow> backend_error + flow_cleanup_report
       \<Rightarrow> map_event list \<Rightarrow> bool" where
  "removal_end i g ob P r evs \<longleftrightarrow>
     lawful i g ob evs \<and> P evs
     \<and> (\<forall>rep. r = Inr rep \<longrightarrow> cr_state_deleted rep = state_removed (encode_flow_state_key i g) evs)"

lemma removal_end_error: "removal i g ob P b evs \<Longrightarrow> removal_end i g ob P (Inl e) evs"
  by (simp add: removal_def removal_end_def)

lemma removal_end_report:
  "removal i g ob P b evs \<Longrightarrow> cr_state_deleted rep = b \<Longrightarrow> removal_end i g ob P (Inr rep) evs"
  by (simp add: removal_def removal_end_def)

lemma finish_removal_runs:
  assumes P: "durable i g P" and "removal i g ob P b evs" "own \<Longrightarrow> owned (encode_flow_state_key i g) evs"
  shows "runs (finish_removal (logged K) h i g own keys b partial stale) (removal_end i g ob P) evs"
proof -
  let ?sk = "encode_flow_state_key i g"
  have indexes: "runs (if own then delete_indexes (logged K) h \<lparr>fi_flow_id = i, fi_generation = g\<rparr> keys acc
      else (\<lambda>k. (acc, k))) (\<lambda>_ evs. removal i g ob P b evs \<and> (own \<longrightarrow> owned ?sk evs)) evs" for acc
    using assms by (auto simp: runs_def [of "\<lambda>k. (acc, k)"] intro!: runs_conseq [OF delete_indexes_runs])
  show ?thesis
    unfolding finish_removal_def Let_def
    by (rule runs_attempt, rule runs_conseq [OF indexes])
       (auto simp: with_map_defs intro!: runs_rules removal_end_error removal_end_report
         removal_andthen [OF P])
qed

lemma stale_generation_runs:
  assumes "Q evs" "\<And>evs. Q evs \<Longrightarrow> Q (andthen evs (Scanned FLOW_INDEX_MAP_NAME_V1))"
  shows "runs (stale_generation_of (logged K) h ex flow) (\<lambda>_. Q) evs"
  using assms by (auto simp: stale_generation_of_def with_map_defs intro!: runs_rules split: sum.split)

lemma during_mono:
  assumes "during i g ob Ps evs" "list_all2 (\<lambda>P Q. \<forall>e. P e \<longrightarrow> Q e) Ps Qs"
  shows "during i g ob Qs evs"
  using assms in_order_mono by (auto simp: during_def)

lemma read_record_mono: "(\<And>v. P v \<Longrightarrow> Q v) \<Longrightarrow> read_record sk P e \<Longrightarrow> read_record sk Q e"
  by (cases e) (auto split: option.splits)

lemma remove_flow_some_runs:
  fixes i g
  defines "sk \<equiv> encode_flow_state_key i g"
  assumes P: "durable i g P" "P evs"
    and d: "during i g ob [guard_set sk, committed sk, no_packets sk, read_record sk (\<lambda>v'. v' = v)] evs"
  shows "runs (remove_flow (logged K) h i g ob (Some v)) (removal_end i g ob P) evs"
proof -
  note r = during_removal [where P = P, OF d P(2)]
  have transfer: "runs (bind_act (transfer_state (logged K) h sk (Some v)) (\<lambda>(deleted, partial).
      finish_removal (logged K) h i g (deleted \<or> Some v = None) keys deleted partial stale))
      (removal_end i g ob P) evs" if "unused_since ob v" for keys stale
  proof -
    have "during i g ob [guard_set sk, committed sk, no_packets sk, read_record sk (unused_since ob)] evs"
      by (rule during_mono [OF d]) (use that read_record_mono [of "\<lambda>v'. v' = v" "unused_since ob"] in auto)
    from transfer_state_runs [OF P this [unfolded sk_def], of K h v]
    show ?thesis
      unfolding sk_def
      by (intro runs_bind, elim runs_conseq)
         (auto intro: removal_end_error intro!: finish_removal_runs [OF P(1)] split: sum.splits prod.splits)
  qed
  show ?thesis
    unfolding remove_flow_def Let_def sk_def [symmetric]
    using transfer r
    by (auto simp: stale_generation_of_def index_keys_of_def unused_since_def
        intro!: runs_rules removal_end_error removal_end_report split: sum.splits)
qed

lemma remove_flow_none_runs:
  assumes P: "durable i g P" "P evs"
    and d: "during i g ob [] evs" "owned (encode_flow_state_key i g) evs"
  shows "runs (remove_flow (logged K) h i g ob None) (removal_end i g ob P) evs"
proof -
  let ?I = "\<lambda>evs. removal i g ob P False evs \<and> owned (encode_flow_state_key i g) evs"
  have scan: "?I (andthen evs (Scanned n))" if "?I evs" for evs n
    using that by (auto intro: removal_andthen [OF P(1)])
  have keys: "runs (index_keys_of (logged K) h ex ob None) (\<lambda>r evs. ?I evs \<and> (\<forall>rep. r \<noteq> Inr (Inl rep))) evs"
    if "?I evs" for evs ex
    using that scan by (auto simp: index_keys_of_def with_map_defs intro!: runs_rules split: sum.split)
  have "?I evs" using during_removal [where P = P, OF d(1) P(2)] d(2) by simp
  then show ?thesis
    unfolding remove_flow_def Let_def
    by (intro runs_bind runs_conseq [OF stale_generation_runs [where Q = ?I]])
       (auto intro!: runs_bind runs_conseq [OF keys] finish_removal_runs [OF P(1)]
         removal_andthen [OF P(1)] simp: transfer_state_def runs_def [of "ret _"] ret_def intro: removal_end_error split: sum.splits)
qed

section \<open>The whole deletion\<close>

lemma durable_unguarded: "durable i g (unguarded i g)"
  by (simp add: durable_def)

lemma durable_in_order: "durable i g (in_order Ps)"
  by (simp add: durable_def)

lemma unguarded_in_order: "unguarded i g evs \<Longrightarrow> \<not> in_order (guard_set (encode_flow_state_key i g) # Ps) evs"
  by (induction evs) (auto simp: unguarded_def)

definition deletion_end ::
    "u64 \<Rightarrow> u32 \<Rightarrow> u64 \<Rightarrow> backend_error + flow_cleanup_report \<Rightarrow> map_event list \<Rightarrow> bool" where
  "deletion_end i g ob r evs \<longleftrightarrow>
     (let sk = encode_flow_state_key i g in
      lawful i g ob evs
      \<and> (in_order [guard_set sk] evs \<longrightarrow> in_order [guard_set sk, guard_cleared sk] evs)
      \<and> (\<forall>rep. r = Inr rep \<longrightarrow> cr_state_deleted rep = state_removed sk evs))"

lemma deletion_end_unguarded: "removal_end i g ob (unguarded i g) r evs \<Longrightarrow> deletion_end i g ob r evs"
  by (auto simp: removal_end_def deletion_end_def Let_def dest: unguarded_in_order)

lemma release_guard_runs:
  assumes "usable K h FLOW_DELETE_GUARD_MAP_NAME_V1"
    and "removal_end i g ob (in_order [guard_set (encode_flow_state_key i g)]) r evs"
  shows "runs (release_guard (logged K) h (encode_flow_state_key i g) True)
    (\<lambda>_. deletion_end i g ob r) evs"
proof -
  have last: "runs (\<lambda>k. (f out, k)) (\<lambda>_. deletion_end i g ob r) evs"
    if "deletion_end i g ob r evs" for f out evs
    using that by (simp add: runs_def)
  show ?thesis
    using assms
    by (auto simp: release_guard_def with_map_defs removal_end_def intro!: runs_rules last)
       (auto simp: deletion_end_def Let_def)
qed

lemma deletion_end_report:
  "deletion_end i g ob (Inr rep) evs \<Longrightarrow> cr_state_deleted rep' = cr_state_deleted rep \<Longrightarrow>
   deletion_end i g ob (Inr rep') evs"
  by (simp add: deletion_end_def Let_def)

lemma deletion_end_error: "deletion_end i g ob r evs \<Longrightarrow> deletion_end i g ob (Inl e) evs"
  by (simp add: deletion_end_def Let_def)

text \<open>The tail shared by both cases: release the guard, then combine the results.\<close>

lemma cleanup_runs:
  assumes "runs (release_guard (logged K) h sk active) (\<lambda>_. deletion_end i g ob cleanup) evs"
  shows "runs (attempt (release_guard (logged K) h sk active) (\<lambda>failures k.
      (case cleanup of
         Inr report \<Rightarrow> Inr (if failures \<noteq> [] then report\<lparr>cr_partial := True\<rparr> else report)
       | Inl e \<Rightarrow> Inl (if failures = [] then e
                        else Operation ''flow-delete:operation-cleanup''
                               (backend_error_message e @ ''; '' @ join ''; '' failures)), k)))
    (deletion_end i g ob) evs"
  by (rule runs_attempt, rule runs_conseq [OF assms])
     (auto simp: runs_def split: sum.split intro: deletion_end_report deletion_end_error)

lemma guarded_removal_runs:
  assumes d: "during i g ob [guard_set (encode_flow_state_key i g)] evs"
  shows "runs (bind_act (commit_deletion (logged K) h (encode_flow_state_key i g)) (\<lambda>outcome.
      case outcome of Inl report \<Rightarrow> ret report | Inr flow \<Rightarrow> remove_flow (logged K) h i g ob (Some flow)))
    (removal_end i g ob (in_order [guard_set (encode_flow_state_key i g)])) evs"
proof -
  let ?P = "in_order [guard_set (encode_flow_state_key i g)]"
  have r: "removal i g ob ?P False evs" "?P evs"
    if "during i g ob [guard_set (encode_flow_state_key i g)] evs" for evs
    using that by (auto simp: removal_def during_def)
  show ?thesis
    by (rule runs_bind, rule runs_conseq [OF commit_deletion_runs [OF d]])
       (auto simp: commit_end_def Let_def intro: removal_end_error [OF r(1)]
         intro!: runs_rules removal_end_report [OF r(1)] remove_flow_some_runs durable_in_order r(2)
         split: sum.split)
qed

lemma early_removal_end:
  assumes "during i g ob [] evs" "unguarded i g evs" "\<And>rep. r = Inr rep \<Longrightarrow> \<not> cr_state_deleted rep"
  shows "removal_end i g ob (unguarded i g) r evs"
  using assms by (auto simp: removal_end_def during_def)

lemmas early_end = deletion_end_unguarded [OF early_removal_end]

lemma delete_flow_runs:
  "runs (delete_flow_loaded (logged K) h i g ob d) (deletion_end i g ob) []"
proof -
  let ?sk = "encode_flow_state_key i g"
  have start: "during i g ob [] []" "unguarded i g []"
    by (simp_all add: during_def unguarded_def state_removed_def)
  have no_guard: "runs (release_guard (logged K) h ?sk False) (\<lambda>_. deletion_end i g ob r) evs"
    if "deletion_end i g ob r evs" for r evs
    using that by (simp add: release_guard_def runs_def)
  show ?thesis
    unfolding delete_flow_loaded_def Let_def
  proof (rule runs_bind, rule runs_read_state, unfold sum.case)
    fix v
    let ?evs = "andthen [] (Got FLOW_STATE_MAP_NAME_V1 ?sk v)"
    have d: "during i g ob [] ?evs" "unguarded i g ?evs" using start by simp_all
    show "runs (bind_act (install_guard (logged K) h ?sk d (v \<noteq> None)) (\<lambda>installed.
        if \<not> installed then ret mismatch_report
        else attempt (if v \<noteq> None
                 then bind_act (commit_deletion (logged K) h ?sk) (\<lambda>outcome.
                   case outcome of Inl report \<Rightarrow> ret report
                   | Inr flow \<Rightarrow> remove_flow (logged K) h i g ob (Some flow))
                 else remove_flow (logged K) h i g ob None) (\<lambda>cleanup.
          attempt (release_guard (logged K) h ?sk (v \<noteq> None)) (\<lambda>failures k.
            (case cleanup of
               Inr report \<Rightarrow> Inr (if failures \<noteq> [] then report\<lparr>cr_partial := True\<rparr> else report)
             | Inl e \<Rightarrow> Inl (if failures = [] then e
                  else Operation ''flow-delete:operation-cleanup''
                         (backend_error_message e @ ''; '' @ join ''; '' failures)), k)))))
      (deletion_end i g ob) ?evs"
    proof (cases v)
      case None
      then have "owned ?sk ?evs" by simp
      note inst = install_no_guard_runs [OF d this, of K h d]
      show ?thesis
        unfolding None simp_thms if_False
        by (rule runs_bind, rule runs_conseq [OF inst [unfolded None]])
           (auto intro!: runs_if runs_ret early_removal_end runs_attempt cleanup_runs no_guard
             runs_conseq [OF remove_flow_none_runs [OF durable_unguarded]] deletion_end_unguarded
             split: sum.split)
    next
      case (Some a)
      have active: "(Some a \<noteq> None) = True" by simp
      note inst = install_guard_runs [OF d, of K h d]
      show ?thesis
        unfolding Some active if_True
        by (rule runs_bind, rule runs_conseq [OF inst [unfolded Some]])
           (auto intro!: runs_if runs_ret early_end runs_attempt cleanup_runs release_guard_runs
             runs_conseq [OF guarded_removal_runs] split: sum.split)
    qed
  qed (use start in \<open>auto intro!: early_end\<close>)
qed

section \<open>Recording changes nothing\<close>

text \<open>\<open>erases f g\<close>: run with recording, \<open>f\<close> has the result and the kernel state of \<open>g\<close>.\<close>

definition erases :: "('k \<times> 'e list \<Rightarrow> 'r \<times> 'k \<times> 'e list) \<Rightarrow> ('k \<Rightarrow> 'r \<times> 'k) \<Rightarrow> bool" where
  "erases f g \<longleftrightarrow> (\<forall>k evs. \<exists>evs'. f (k, evs) = (fst (g k), snd (g k), evs'))"

named_theorems erases_rules

lemma erases_bind [erases_rules]:
  assumes "erases m m'" "\<And>x. erases (f x) (f' x)"
  shows "erases (bind_act m f) (bind_act m' f')"
  unfolding erases_def
proof (intro allI)
  fix k evs
  obtain evs1 where "m (k, evs) = (fst (m' k), snd (m' k), evs1)"
    using assms(1) by (auto simp: erases_def)
  then show "\<exists>evs'. bind_act m f (k, evs) = (fst (bind_act m' f' k), snd (bind_act m' f' k), evs')"
    using assms(2) by (cases "m' k"; cases "fst (m' k)") (auto simp: bind_act_def erases_def)
qed

lemma erases_attempt [erases_rules]:
  assumes "erases m m'" "\<And>x. erases (f x) (f' x)"
  shows "erases (attempt m f) (attempt m' f')"
  unfolding erases_def
proof (intro allI)
  fix k evs
  obtain evs1 where "m (k, evs) = (fst (m' k), snd (m' k), evs1)"
    using assms(1) by (auto simp: erases_def)
  then show "\<exists>evs'. attempt m f (k, evs) = (fst (attempt m' f' k), snd (attempt m' f' k), evs')"
    using assms(2) by (cases "m' k") (auto simp: attempt_def erases_def)
qed

lemma erases_pure [erases_rules]: "erases (\<lambda>k. (x, k)) (\<lambda>k. (x, k))"
  by (simp add: erases_def)

lemma erases_ret [erases_rules]: "erases (ret x) (ret x)" "erases (fail e) (fail e)"
  by (simp_all add: erases_def ret_def fail_def)

lemma erases_with_map [erases_rules]:
  "erases f f' \<Longrightarrow> erases (with_map name missing (logged K) h f) (with_map name missing K h f')"
  by (auto simp: erases_def with_map_def logged_def split: sum.splits)

lemma map_error_logged [simp]: "map_error (logged K) = map_error K"
  by (simp add: map_error_def logged_def fun_eq_iff)

lemma logged_calls:
  "ay_map_get (logged K) h n key = noted (ay_map_get K h n key) (got_event n key)"
  "ay_map_insert (logged K) h n key v fl =
     noted (ay_map_insert K h n key v fl) (\<lambda>r. Inserted n key v fl (is_ok r))"
  "ay_map_remove (logged K) h n key = noted (ay_map_remove K h n key) (\<lambda>r. Removed n key (is_ok r))"
  "ay_map_iter (logged K) h n = noted (ay_map_iter K h n) (\<lambda>_. Scanned n)"
  "ay_queue_push (logged K) h n v = noted (ay_queue_push K h n v) (\<lambda>r. Pushed n v (is_ok r))"
  "ay_clock_gettime (logged K) = silent (ay_clock_gettime K)"
  by (simp_all add: logged_def)

lemma erases_calls [erases_rules]:
  "erases (map_get_opt (logged K) h name key) (map_get_opt K h name key)"
  "erases (map_insert (logged K) h name key v fl) (map_insert K h name key v fl)"
  "erases (map_remove (logged K) h name key) (map_remove K h name key)"
  "erases (map_remove_lenient (logged K) h name key) (map_remove_lenient K h name key)"
  "erases (scan_map (logged K) h name p) (scan_map K h name p)"
  "erases (adapter_now_ns (logged K)) (adapter_now_ns K)"
  "erases (\<lambda>k. case ay_queue_push (logged K) h name v k of (r, k) \<Rightarrow> (map_err (map_error (logged K)) r, k))
     (\<lambda>k. case ay_queue_push K h name v k of (r, k) \<Rightarrow> (map_err (map_error K) r, k))"
  by (auto simp: erases_def map_get_opt_def map_insert_def map_remove_def map_remove_lenient_def
      scan_map_def adapter_now_ns_def logged_calls noted_def silent_def map_err_def
      split: prod.splits sum.splits map_error.splits option.splits)

lemma erases_branches [erases_rules]:
  "erases f f' \<Longrightarrow> erases g g' \<Longrightarrow> erases (if b then f else g) (if b then f' else g')"
  "erases f f' \<Longrightarrow> (\<And>y. erases (p y) (p' y)) \<Longrightarrow>
     erases (case o' of None \<Rightarrow> f | Some y \<Rightarrow> p y) (case o' of None \<Rightarrow> f' | Some y \<Rightarrow> p' y)"
  "(\<And>x. erases (q x) (q' x)) \<Longrightarrow> (\<And>y. erases (r y) (r' y)) \<Longrightarrow>
     erases (case s of Inl x \<Rightarrow> q x | Inr y \<Rightarrow> r y) (case s of Inl x \<Rightarrow> q' x | Inr y \<Rightarrow> r' y)"
  "(\<And>x y. erases (t x y) (t' x y)) \<Longrightarrow> erases (case z of (x, y) \<Rightarrow> t x y) (case z of (x, y) \<Rightarrow> t' x y)"
  by (simp_all split: option.split sum.split prod.split)

lemma erases_wait [erases_rules]: "erases (wait_quiescent n (logged K) h sk) (wait_quiescent n K h sk)"
  unfolding read_in_flight_def
  by (induction n) (auto simp: read_in_flight_def with_map_defs intro!: erases_rules)

lemma erases_delete_index:
  "erases (delete_index (logged K) h ex key) (delete_index K h ex key)"
  unfolding delete_index_def with_map_defs by (intro erases_rules)

lemma erases_delete_indexes [erases_rules]:
  "erases (delete_indexes (logged K) h ex keys acc) (delete_indexes K h ex keys acc)"
proof (induction keys arbitrary: acc)
  case Nil
  then show ?case by (simp add: erases_def)
next
  case (Cons key keys)
  then show ?case
    by (cases acc) (simp only: delete_indexes_Cons erases_attempt erases_delete_index)
qed

lemma erases_delete_flow:
  "erases (delete_flow_loaded (logged K) h i g ob d) (delete_flow_loaded K h i g ob d)"
  unfolding delete_flow_loaded_def install_guard_def commit_deletion_def confirm_quiescent_def
    remove_flow_def finish_removal_def stale_generation_of_def index_keys_of_def transfer_state_def
    release_guard_def read_state_def with_map_defs Let_def
  by (intro erases_rules)

section \<open>Properties\<close>



end
