(* ===== verification/Quiet_Deletion.thy ===== *)
theory Quiet_Deletion
  imports Deletion_Protocol
begin

text \<open>
  The deletion of a flow on a kernel with no packets in flight: what \<open>delete_flow\<close> of the
  production adapter achieves when nothing interferes. \<open>quiet_aya\<close> follows the documented
  results of the map calls.
\<close>

section \<open>Maps of the quiet kernel\<close>

definition qk_get :: "quiet_kernel \<Rightarrow> string \<Rightarrow> bytes \<Rightarrow> bytes option" where
  "qk_get k name key = map_of (qk_maps k name) key"

definition qk_put :: "string \<Rightarrow> bytes \<Rightarrow> bytes \<Rightarrow> quiet_kernel \<Rightarrow> quiet_kernel" where
  "qk_put name key val k = k\<lparr>qk_maps := (qk_maps k)(name :=
     (key, val) # filter (\<lambda>(x, _). x \<noteq> key) (qk_maps k name))\<rparr>"

definition qk_del :: "string \<Rightarrow> bytes \<Rightarrow> quiet_kernel \<Rightarrow> quiet_kernel" where
  "qk_del name key k = k\<lparr>qk_maps := (qk_maps k)(name :=
     filter (\<lambda>(x, _). x \<noteq> key) (qk_maps k name))\<rparr>"

definition qk_push :: "bytes \<Rightarrow> quiet_kernel \<Rightarrow> quiet_kernel" where
  "qk_push v k = k\<lparr>qk_queue := qk_queue k @ [v]\<rparr>"

lemma map_of_filter_key:
  "map_of (filter (\<lambda>(x, _). x \<noteq> key) m) key' = (if key' = key then None else map_of m key')"
  by (induction m) auto

lemma qk_get_simps [simp]:
  "qk_get (qk_put name key val k) name' key' =
     (if name' = name \<and> key' = key then Some val else qk_get k name' key')"
  "qk_get (qk_del name key k) name' key' =
     (if name' = name \<and> key' = key then None else qk_get k name' key')"
  "qk_get (qk_push v k) = qk_get k"
  by (auto simp: qk_get_def qk_put_def qk_del_def qk_push_def map_of_filter_key fun_eq_iff)

lemma qk_queue_simps [simp]:
  "qk_queue (qk_put name key val k) = qk_queue k" "qk_queue (qk_del name key k) = qk_queue k"
  "qk_queue (qk_push v k) = qk_queue k @ [v]"
  by (simp_all add: qk_put_def qk_del_def qk_push_def)

lemma qk_del_absent: "qk_get k name key = None \<Longrightarrow> qk_del name key k = k"
proof -
  assume "qk_get k name key = None"
  then have "filter (\<lambda>(x, _). x \<noteq> key) (qk_maps k name) = qk_maps k name"
    by (intro filter_True) (auto simp: qk_get_def map_of_eq_None_iff image_iff)
  then show ?thesis by (simp add: qk_del_def)
qed

section \<open>Calls on the quiet kernel\<close>

lemma quiet_map_calls [simp]:
  "map_get_opt quiet_aya () name key k = (Inr (qk_get k name key), k)"
  "map_remove quiet_aya () name key k =
     (if qk_get k name key = None then (Inl (map_error quiet_aya KeyNotFound), k)
      else (Inr (), qk_del name key k))"
  "map_remove_lenient quiet_aya () name key k = (Inr (), qk_del name key k)"
  "map_insert quiet_aya () name key val fl k =
     (if fl = BPF_NOEXIST \<and> qk_get k name key \<noteq> None
      then (Inl (map_error quiet_aya (OtherMapError ''exists'')), k)
      else (Inr (), qk_put name key val k))"
  "ay_queue_push quiet_aya () name v k = (Inr (), qk_push v k)"
  by (auto simp: map_get_opt_def map_remove_def map_remove_lenient_def map_insert_def quiet_aya_def
      quiet_insert_def quiet_remove_def qk_get_def qk_put_def qk_del_def qk_push_def map_err_def
      dest!: qk_del_absent [unfolded qk_get_def] split: option.split)

lemma quiet_with_map [simp]:
  assumes "name \<notin> {''ssp_destination_policy_map_v1'', ''ssp_runtime_config_v1''}"
  shows "with_map name missing quiet_aya () f = f"
  using assms by (auto simp: with_map_def quiet_aya_def fun_eq_iff)

lemma quiet_with_maps [simp]:
  "with_flow_index_map quiet_aya () f = f" "with_state_map quiet_aya () f = f"
  "with_active_flow_releases quiet_aya () f = f" "with_active_flow_release_pending_map quiet_aya () f = f"
  "with_delete_guard_map quiet_aya () f = f" "with_delete_outcome_map quiet_aya () f = f"
  "with_packet_inflight_map quiet_aya () f = f"
  by (simp_all add: with_map_defs map_name_defs)

lemma qk_get_fold_del [simp]:
  "qk_get (fold (qk_del name) keys k) name' key' =
     (if name' = name \<and> key' \<in> set keys then None else qk_get k name' key')"
  by (induction keys arbitrary: k) auto

lemma qk_queue_fold_del [simp]: "qk_queue (fold (qk_del name) keys k) = qk_queue k"
  by (induction keys arbitrary: k) auto

lemma quiet_delete_indexes:
  assumes "distinct keys"
    and "\<forall>key \<in> set keys. qk_get k FLOW_INDEX_MAP_NAME_V1 key = Some (encode_flow_index ex)"
  shows "delete_indexes quiet_aya () ex keys (n, partial) k =
    ((n + length keys, partial), fold (qk_del FLOW_INDEX_MAP_NAME_V1) keys k)"
  using assms
proof (induction keys arbitrary: n k)
  case (Cons key keys)
  then have "delete_index quiet_aya () ex key k = (Inr True, qk_del FLOW_INDEX_MAP_NAME_V1 key k)"
    by (simp add: delete_index_def bind_act_def decode_index_def ret_def)
  moreover have "delete_indexes quiet_aya () ex keys (n + 1, partial) (qk_del FLOW_INDEX_MAP_NAME_V1 key k) =
      ((n + 1 + length keys, partial),
       fold (qk_del FLOW_INDEX_MAP_NAME_V1) keys (qk_del FLOW_INDEX_MAP_NAME_V1 key k))"
    by (rule Cons.IH) (use Cons.prems in auto)
  ultimately show ?case by simp
qed simp

lemma quiet_wait:
  assumes "qk_get k FLOW_PACKET_INFLIGHT_MAP_NAME_V1 sk = None"
  shows "wait_quiescent (Suc n) quiet_aya () sk k = (Inr True, k)"
  using assms by (simp add: read_in_flight_def bind_act_def ret_def)

lemma quiet_commit:
  assumes "qk_get k FLOW_PACKET_INFLIGHT_MAP_NAME_V1 sk = None"
    and "qk_get k FLOW_DELETE_OUTCOME_MAP_NAME_V1 sk = None"
    and "qk_get k FLOW_STATE_MAP_NAME_V1 sk = Some v"
  shows "commit_deletion quiet_aya () sk k =
    (Inr (Inr v), qk_put FLOW_DELETE_OUTCOME_MAP_NAME_V1 sk (to_ne_bytes FLOW_DELETE_COMMITTED) k)"
  using assms quiet_wait [of k sk 127]
    quiet_wait [of "qk_put FLOW_DELETE_OUTCOME_MAP_NAME_V1 sk (to_ne_bytes FLOW_DELETE_COMMITTED) k" sk 127]
  by (simp add: commit_deletion_def confirm_quiescent_def bind_act_def attempt_def read_state_def ret_def)

text \<open>The keys of the three tuples of a flow, as the adapter visits them.\<close>

definition flow_keys :: "flow_state \<Rightarrow> bytes list" where
  "flow_keys f = remdups_adj (sort [encode_key (fs_original f), encode_key (fs_target f),
     encode_key (fs_reverse f)])"

lemma set_flow_keys: "set (flow_keys f) = encode_key ` {fs_original f, fs_target f, fs_reverse f}"
  by (auto simp: flow_keys_def)

lemma distinct_remdups_adj_sorted: "sorted xs \<Longrightarrow> distinct (remdups_adj xs)"
  by (induction xs rule: remdups_adj.induct) (auto dest: antisym)

lemma distinct_flow_keys: "distinct (flow_keys f)"
  unfolding flow_keys_def by (rule distinct_remdups_adj_sorted, rule sorted_sort)

section \<open>The deletion succeeds\<close>

lemma quiet_transfer:
  assumes "qk_get k FLOW_STATE_MAP_NAME_V1 sk = Some v"
  shows "transfer_state quiet_aya () sk (Some v) k =
    (Inr (True, False), qk_del FLOW_STATE_MAP_NAME_V1 sk
       (qk_put ACTIVE_FLOW_RELEASE_PENDING_MAP_NAME_V1 sk (to_ne_bytes FLOW_RELEASE_PENDING) k))"
  using assms
  by (simp add: transfer_state_def bind_act_def attempt_def ret_def BPF_NOEXIST_def)

lemma quiet_remove_flow:
  fixes f
  defines "sk \<equiv> encode_flow_state_key (fs_flow_id f) (fs_generation f)"
  assumes f: "valid_flow_state f" "ob = 0 \<or> fs_last_used_ns f = ob"
    and st: "qk_get k FLOW_STATE_MAP_NAME_V1 sk = Some (encode_flow_state f)"
    and ix: "\<forall>key \<in> set (flow_keys f). qk_get k FLOW_INDEX_MAP_NAME_V1 key =
          Some (encode_flow_index \<lparr>fi_flow_id = fs_flow_id f, fi_generation = fs_generation f\<rparr>)"
  shows "remove_flow quiet_aya () (fs_flow_id f) (fs_generation f) ob (Some (encode_flow_state f)) k =
    (Inr \<lparr>cr_state_deleted = True, cr_indexes_deleted = length (flow_keys f), cr_partial = False,
          cr_stale_generation = False, cr_observation_mismatch = False\<rparr>,
     qk_push sk (qk_del FLOW_PACKET_INFLIGHT_MAP_NAME_V1 sk
       (fold (qk_del FLOW_INDEX_MAP_NAME_V1) (flow_keys f) (qk_del FLOW_STATE_MAP_NAME_V1 sk
         (qk_put ACTIVE_FLOW_RELEASE_PENDING_MAP_NAME_V1 sk (to_ne_bytes FLOW_RELEASE_PENDING) k)))))"
proof -
  let ?ex = "\<lparr>fi_flow_id = fs_flow_id f, fi_generation = fs_generation f\<rparr> :: flow_index_value"
  let ?k = "qk_del FLOW_STATE_MAP_NAME_V1 sk
    (qk_put ACTIVE_FLOW_RELEASE_PENDING_MAP_NAME_V1 sk (to_ne_bytes FLOW_RELEASE_PENDING) k)"
  have stale: "stale_generation_of quiet_aya () ?ex (Some v) k = (Inr False, k)" for v k
    by (simp add: stale_generation_of_def ret_def)
  have keys: "index_keys_of quiet_aya () ?ex ob (Some (encode_flow_state f)) k =
      (Inr (Inr [encode_key (fs_original f), encode_key (fs_target f), encode_key (fs_reverse f)]), k)" for k
    using f by (auto simp: index_keys_of_def decode_encode_flow_state_valid ret_def)
  have idx: "delete_indexes quiet_aya () ?ex (flow_keys f) (0, False) ?k =
      ((length (flow_keys f), False), fold (qk_del FLOW_INDEX_MAP_NAME_V1) (flow_keys f) ?k)"
    using quiet_delete_indexes [OF distinct_flow_keys, of f ?k ?ex 0 False] ix by simp
  show ?thesis
    unfolding remove_flow_def Let_def sk_def [symmetric] finish_removal_def
    by (simp add: bind_act_def attempt_def stale keys quiet_transfer [OF st] flow_keys_def [symmetric] idx
        ret_def map_err_def del: sort_key_simps)
qed

section \<open>Properties\<close>



end
