(* ===== verification/Udp_Associations.thy ===== *)
theory Udp_Associations
  imports Host_Types
begin

text \<open>
  The UDP side of the host proxy (\<open>run_udp\<close>, \<open>UdpAssociations\<close> and the relay tasks of
  \<open>crates/host-proxy/src/lib.rs\<close>) as a system of interleaved tasks. Associations live in a
  heap indexed by address (an \<open>Arc\<close> is an address, \<open>Arc::ptr_eq\<close> compares addresses) and the
  table maps tuples to addresses. A task's program counter names the await point it stands
  at; one step runs to the next await point or lock section. An event carries what the
  outside world supplies at that point: a datagram, the answer of a lookup, the result of a
  socket operation. \<open>None\<close> means that the event cannot happen there.

  Three lists record what went through the sockets and lookups; no task reads them. The
  copies of the tuple that an association keeps for log messages are left out.
\<close>

section \<open>State\<close>

datatype relay_pc =
    Unspawned
  | Starting
  | Waiting nat
  | Delivering bytes
  | Finishing
  | Signalling
  | RelayDone

record association =
  ua_key :: host_tuple
  ua_client_address :: socket_addr
  ua_destination :: socket_addr
  ua_created_at :: nat
  ua_last_seen :: nat
  ua_activity :: bool
  ua_flow_identity :: "(u64 \<times> u32) option"
  ua_cancel :: bool
  ua_relay :: relay_pc

record udp_state =
  us_heap :: "association list"
  us_entries :: "host_tuple \<rightharpoonup> nat"
  us_last_failure_log :: "nat option"
  us_shutdown :: bool
  us_now :: nat
  us_received :: "(socket_addr \<times> bytes) list"
  us_answers :: "(host_tuple \<times> socket_addr) list"
  us_sent :: "(nat \<times> bytes) list"
  us_replies :: "(nat \<times> bytes) list"
  us_delivered :: "(socket_addr \<times> bytes) list"

definition udp_new :: "nat \<Rightarrow> udp_state" where
  "udp_new now =
     \<lparr>us_heap = [], us_entries = Map.empty, us_last_failure_log = None, us_shutdown = False,
      us_now = now, us_received = [], us_answers = [], us_sent = [], us_replies = [],
      us_delivered = []\<rparr>"

definition assoc :: "udp_state \<Rightarrow> nat \<Rightarrow> association" where
  "assoc s a = us_heap s ! a"

definition update_assoc :: "nat \<Rightarrow> (association \<Rightarrow> association) \<Rightarrow> udp_state \<Rightarrow> udp_state" where
  "update_assoc a f s = s\<lparr>us_heap := (us_heap s)[a := f (assoc s a)]\<rparr>"

definition relay_done :: "udp_state \<Rightarrow> nat \<Rightarrow> bool" where
  "relay_done s a \<longleftrightarrow> ua_relay (assoc s a) = RelayDone"

section \<open>Operations on associations\<close>

definition touch_association :: "nat \<Rightarrow> udp_state \<Rightarrow> udp_state" where
  "touch_association a s =
     update_assoc a (\<lambda>x. x\<lparr>ua_last_seen := us_now s, ua_activity := True\<rparr>) s"

definition new_association :: "host_tuple \<Rightarrow> socket_addr \<Rightarrow> socket_addr \<Rightarrow> nat \<Rightarrow> association" where
  "new_association t client destination now =
     \<lparr>ua_key = t, ua_client_address = client, ua_destination = destination, ua_created_at = now,
      ua_last_seen = now, ua_activity = False, ua_flow_identity = None, ua_cancel = False,
      ua_relay = Unspawned\<rparr>"

definition allocate :: "association \<Rightarrow> udp_state \<Rightarrow> nat \<times> udp_state" where
  "allocate x s = (length (us_heap s), s\<lparr>us_heap := us_heap s @ [x]\<rparr>)"

definition spawn_udp_relay :: "nat \<Rightarrow> udp_state \<Rightarrow> udp_state" where
  "spawn_udp_relay a = update_assoc a (\<lambda>x. x\<lparr>ua_relay := Starting\<rparr>)"

text \<open>The first half of \<open>stop_association\<close>: signal the relay unless it has already finished.
  The second half waits until \<open>relay_done\<close>.\<close>

definition begin_stop :: "nat \<Rightarrow> udp_state \<Rightarrow> udp_state" where
  "begin_stop a s =
     (if relay_done s a then s else update_assoc a (\<lambda>x. x\<lparr>ua_cancel := True\<rparr>) s)"

definition remove_entry :: "host_tuple \<Rightarrow> udp_state \<Rightarrow> udp_state" where
  "remove_entry t s = s\<lparr>us_entries := (us_entries s)(t := None)\<rparr>"

definition remove_if_current :: "nat \<Rightarrow> udp_state \<Rightarrow> udp_state" where
  "remove_if_current a s =
     (if us_entries s (ua_key (assoc s a)) = Some a then remove_entry (ua_key (assoc s a)) s else s)"

definition report_failure :: "udp_state \<Rightarrow> bool \<times> udp_state" where
  "report_failure s =
     (if (case us_last_failure_log s of None \<Rightarrow> True | Some latest \<Rightarrow> us_now s - latest \<ge> from_secs 1)
      then (True, s\<lparr>us_last_failure_log := Some (us_now s)\<rparr>)
      else (False, s))"

section \<open>The relay task\<close>

datatype relay_event =
    SeeShutdown
  | SeeCancel
  | SeeActivity
  | IdleFired
  | Reply bytes
  | ReplyFailed
  | Delivered
  | DeliveryFailed
  | RelayProceed

definition set_relay :: "nat \<Rightarrow> relay_pc \<Rightarrow> udp_state \<Rightarrow> udp_state" where
  "set_relay a pc = update_assoc a (\<lambda>x. x\<lparr>ua_relay := pc\<rparr>)"

fun relay_wait :: "duration \<Rightarrow> nat \<Rightarrow> nat \<Rightarrow> relay_event \<Rightarrow> udp_state \<Rightarrow> udp_state option" where
  "relay_wait idle a deadline SeeShutdown s =
     (if us_shutdown s then Some (set_relay a Finishing s) else None)"
| "relay_wait idle a deadline SeeCancel s =
     (if ua_cancel (assoc s a) then Some (set_relay a Finishing s) else None)"
| "relay_wait idle a deadline SeeActivity s =
     (if ua_activity (assoc s a)
      then Some (update_assoc a (\<lambda>x. x\<lparr>ua_activity := False, ua_relay := Starting\<rparr>) s) else None)"
| "relay_wait idle a deadline IdleFired s =
     (if us_now s < deadline then None
      else if us_now s - ua_last_seen (assoc s a) < idle then Some (set_relay a Starting s)
      else Some (set_relay a Finishing s))"
| "relay_wait idle a deadline (Reply p) s =
     Some (set_relay a (Delivering p) (s\<lparr>us_replies := us_replies s @ [(a, p)]\<rparr>))"
| "relay_wait idle a deadline ReplyFailed s = Some (set_relay a Finishing s)"
| "relay_wait idle a deadline _ s = None"

definition relay_step :: "duration \<Rightarrow> nat \<Rightarrow> relay_event \<Rightarrow> udp_state \<Rightarrow> udp_state option" where
  "relay_step idle a e s =
     (if a \<ge> length (us_heap s) then None
      else case ua_relay (assoc s a) of
        Unspawned \<Rightarrow> None
      | Starting \<Rightarrow>
          if e = RelayProceed
          then Some (set_relay a (Waiting (ua_last_seen (assoc s a) + idle)) s) else None
      | Waiting deadline \<Rightarrow> relay_wait idle a deadline e s
      | Delivering p \<Rightarrow>
          if e = Delivered
          then Some (set_relay a Starting (touch_association a
                 (s\<lparr>us_delivered := us_delivered s @ [(ua_client_address (assoc s a), p)]\<rparr>)))
          else if e = DeliveryFailed then Some (set_relay a Finishing s)
          else None
      | Finishing \<Rightarrow>
          if e = RelayProceed then Some (set_relay a Signalling (remove_if_current a s)) else None
      | Signalling \<Rightarrow> if e = RelayProceed then Some (set_relay a RelayDone s) else None
      | RelayDone \<Rightarrow> None)"

section \<open>The forwarding task\<close>

text \<open>\<open>Stopping_candidate\<close> and \<open>Stopping_previous\<close> carry the address being stopped and the one
  to send through afterwards. The flag of the later counters says whether this is the retry
  after a failed send.\<close>

datatype forward_pc =
    Receiving
  | Looking_up host_tuple bytes
  | Sending bool host_tuple nat bytes
  | Touching nat
  | Stopping_old host_tuple nat bytes
  | Resolving bool host_tuple bytes
  | Connecting bool host_tuple socket_addr bytes
  | Checking bool host_tuple nat bytes
  | Publishing bool host_tuple nat bytes
  | Stopping_candidate bool host_tuple nat nat bytes
  | Stopping_previous bool host_tuple nat nat bytes
  | Reporting proxy_error
  | Forward_ended

datatype io_kind = ConnectionRefused | TimedOut | NetworkUnreachable | HostUnreachable | OtherKind

datatype forward_event =
    Received socket_addr bytes
  | ReceiveFailed
  | SendOk
  | SendFailed io_kind string
  | Answer "proxy_error + original_destination"
  | Connected
  | ConnectFailed string
  | Proceed
  | ShutdownSeen

definition forward_tuple :: "socket_addr \<Rightarrow> socket_addr \<Rightarrow> host_tuple" where
  "forward_tuple listener client =
     \<lparr>ht_source = client, ht_destination = listener, ht_protocol = UDP_PROTOCOL\<rparr>"

fun reporting :: "forward_pc \<Rightarrow> bool" where
  "reporting (Reporting _) = True"
| "reporting _ = False"

fun send_step ::
    "bool \<Rightarrow> host_tuple \<Rightarrow> nat \<Rightarrow> bytes \<Rightarrow> forward_event \<Rightarrow> udp_state \<Rightarrow> (forward_pc \<times> udp_state) option"
where
  "send_step retry t a p SendOk s = Some (Touching a, s\<lparr>us_sent := us_sent s @ [(a, p)]\<rparr>)"
| "send_step retry t a p (SendFailed kind m) s =
     (if retry \<or> kind = OtherKind then Some (Reporting (Io m), s)
      else case us_entries s t of
        None \<Rightarrow> Some (Resolving True t p, s)
      | Some old \<Rightarrow> Some (Stopping_old t old p, begin_stop old (remove_entry t s)))"
| "send_step retry t a p _ s = None"

fun resolve_step ::
    "bool \<Rightarrow> host_tuple \<Rightarrow> bytes \<Rightarrow> forward_event \<Rightarrow> udp_state \<Rightarrow> (forward_pc \<times> udp_state) option"
where
  "resolve_step retry t p (Answer (Inl e)) s = Some (Reporting e, s)"
| "resolve_step retry t p (Answer (Inr mapping)) s =
     (if od_protocol mapping \<noteq> UDP_PROTOCOL
      then Some (Reporting (InvalidMapping ''UDP lookup returned a non-UDP mapping''), s)
      else Some (Connecting retry t (od_address mapping) p,
                 s\<lparr>us_answers := us_answers s @ [(t, od_address mapping)]\<rparr>))"
| "resolve_step retry t p _ s = None"

fun connect_step ::
    "bool \<Rightarrow> host_tuple \<Rightarrow> socket_addr \<Rightarrow> bytes \<Rightarrow> forward_event \<Rightarrow> udp_state
       \<Rightarrow> (forward_pc \<times> udp_state) option"
where
  "connect_step retry t destination p Connected s =
     (let (a, s) = allocate (new_association t (ht_source t) destination (us_now s)) s
      in Some (Checking retry t a p, s))"
| "connect_step retry t destination p (ConnectFailed m) s = Some (Reporting (Io m), s)"
| "connect_step retry t destination p _ s = None"

definition existing_same :: "host_tuple \<Rightarrow> nat \<Rightarrow> udp_state \<Rightarrow> nat option" where
  "existing_same t candidate s =
     (case us_entries s t of
        Some existing \<Rightarrow>
          if ua_destination (assoc s existing) = ua_destination (assoc s candidate)
          then Some existing else None
      | None \<Rightarrow> None)"

definition check_step ::
    "bool \<Rightarrow> host_tuple \<Rightarrow> nat \<Rightarrow> bytes \<Rightarrow> udp_state \<Rightarrow> forward_pc \<times> udp_state" where
  "check_step retry t candidate p s =
     (case existing_same t candidate s of
        Some existing \<Rightarrow> (Sending retry t existing p, s)
      | None \<Rightarrow> (Publishing retry t candidate p, spawn_udp_relay candidate s))"

definition publish_step ::
    "bool \<Rightarrow> host_tuple \<Rightarrow> nat \<Rightarrow> bytes \<Rightarrow> udp_state \<Rightarrow> forward_pc \<times> udp_state" where
  "publish_step retry t candidate p s =
     (case existing_same t candidate s of
        Some existing \<Rightarrow> (Stopping_candidate retry t candidate existing p, begin_stop candidate s)
      | None \<Rightarrow>
          let published = s\<lparr>us_entries := (us_entries s)(t \<mapsto> candidate)\<rparr>
          in case us_entries s t of
               Some previous \<Rightarrow>
                 (Stopping_previous retry t previous candidate p, begin_stop previous published)
             | None \<Rightarrow> (Sending retry t candidate p, published))"

definition forward_step ::
    "socket_addr \<Rightarrow> forward_event \<Rightarrow> forward_pc \<Rightarrow> udp_state \<Rightarrow> (forward_pc \<times> udp_state) option"
where
  "forward_step listener e pc s =
     (if e = ShutdownSeen
      then (if us_shutdown s \<and> \<not> reporting pc \<and> pc \<noteq> Forward_ended
            then Some (Forward_ended, s) else None)
      else case pc of
        Receiving \<Rightarrow>
          (case e of
             Received client p \<Rightarrow>
               Some (Looking_up (forward_tuple listener client) p,
                     s\<lparr>us_received := us_received s @ [(client, p)]\<rparr>)
           | ReceiveFailed \<Rightarrow> Some (Receiving, s)
           | _ \<Rightarrow> None)
      | Looking_up t p \<Rightarrow>
          if e = Proceed
          then (case us_entries s t of
                  Some a \<Rightarrow> Some (Sending False t a p, s)
                | None \<Rightarrow> Some (Resolving False t p, s))
          else None
      | Sending retry t a p \<Rightarrow> send_step retry t a p e s
      | Touching a \<Rightarrow> if e = Proceed then Some (Receiving, touch_association a s) else None
      | Stopping_old t old p \<Rightarrow>
          if e = Proceed \<and> relay_done s old then Some (Resolving True t p, s) else None
      | Resolving retry t p \<Rightarrow> resolve_step retry t p e s
      | Connecting retry t destination p \<Rightarrow> connect_step retry t destination p e s
      | Checking retry t candidate p \<Rightarrow>
          if e = Proceed then Some (check_step retry t candidate p s) else None
      | Publishing retry t candidate p \<Rightarrow>
          if e = Proceed then Some (publish_step retry t candidate p s) else None
      | Stopping_candidate retry t candidate existing p \<Rightarrow>
          if e = Proceed \<and> relay_done s candidate then Some (Sending retry t existing p, s) else None
      | Stopping_previous retry t previous candidate p \<Rightarrow>
          if e = Proceed \<and> relay_done s previous then Some (Sending retry t candidate p, s) else None
      | Reporting _ \<Rightarrow> if e = Proceed then Some (Receiving, snd (report_failure s)) else None
      | Forward_ended \<Rightarrow> None)"

section \<open>Maintenance and shutdown\<close>

datatype maint_pc =
    Maint_idle
  | Observing nat u64 u32
  | Inv_checking host_tuple nat u64 u32
  | Inv_removing host_tuple nat u64 u32
  | Inv_stopping nat
  | Maint_ended

datatype maint_event =
    Observe host_tuple u64 u32
  | Invalidate host_tuple u64 u32
  | MaintProceed
  | MaintStop

definition observe_flow :: "host_tuple \<Rightarrow> u64 \<Rightarrow> u32 \<Rightarrow> udp_state \<Rightarrow> maint_pc" where
  "observe_flow t flow_id generation s =
     (case us_entries s t of Some a \<Rightarrow> Observing a flow_id generation | None \<Rightarrow> Maint_idle)"

definition invalidate :: "host_tuple \<Rightarrow> u64 \<Rightarrow> u32 \<Rightarrow> udp_state \<Rightarrow> maint_pc" where
  "invalidate t flow_id generation s =
     (case us_entries s t of Some a \<Rightarrow> Inv_checking t a flow_id generation | None \<Rightarrow> Maint_idle)"

definition maint_step :: "maint_event \<Rightarrow> maint_pc \<Rightarrow> udp_state \<Rightarrow> (maint_pc \<times> udp_state) option" where
  "maint_step e pc s =
     (case pc of
        Maint_idle \<Rightarrow>
          (case e of
             Observe t i g \<Rightarrow> Some (observe_flow t i g s, s)
           | Invalidate t i g \<Rightarrow> Some (invalidate t i g s, s)
           | MaintStop \<Rightarrow> if us_shutdown s then Some (Maint_ended, s) else None
           | MaintProceed \<Rightarrow> None)
      | Observing a i g \<Rightarrow>
          if e = MaintProceed
          then Some (Maint_idle, update_assoc a (\<lambda>x. x\<lparr>ua_flow_identity := Some (i, g)\<rparr>) s) else None
      | Inv_checking t a i g \<Rightarrow>
          if e = MaintProceed
          then Some (if ua_flow_identity (assoc s a) = Some (i, g) then Inv_removing t a i g
                     else Maint_idle, s)
          else None
      | Inv_removing t a i g \<Rightarrow>
          if e = MaintProceed
          then Some (if us_entries s t = Some a then (Inv_stopping a, begin_stop a (remove_entry t s))
                     else (Maint_idle, s))
          else None
      | Inv_stopping a \<Rightarrow>
          if e = MaintProceed \<and> relay_done s a then Some (Maint_idle, s) else None
      | Maint_ended \<Rightarrow> None)"

datatype closer_pc = Not_closing | Draining "nat list" | Closed

text \<open>\<open>shutdown\<close> drains the table (in the map's order, which the event supplies) and stops the
  associations one after the other.\<close>

fun stop_next :: "nat list \<Rightarrow> udp_state \<Rightarrow> closer_pc \<times> udp_state" where
  "stop_next [] s = (Closed, s)"
| "stop_next (a # as) s = (Draining (a # as), begin_stop a s)"

definition drains :: "nat list \<Rightarrow> udp_state \<Rightarrow> bool" where
  "drains order s \<longleftrightarrow> distinct order \<and> set order = ran (us_entries s)"

definition close_step :: "nat list \<Rightarrow> closer_pc \<Rightarrow> udp_state \<Rightarrow> (closer_pc \<times> udp_state) option" where
  "close_step order pc s =
     (case pc of
        Not_closing \<Rightarrow>
          if drains order s then Some (stop_next order (s\<lparr>us_entries := Map.empty\<rparr>)) else None
      | Draining (a # as) \<Rightarrow> if relay_done s a then Some (stop_next as s) else None
      | _ \<Rightarrow> None)"

section \<open>The system\<close>

record udp_system =
  sy_udp :: udp_state
  sy_forward :: forward_pc
  sy_maint :: maint_pc
  sy_closer :: closer_pc

datatype udp_event =
    Forward forward_event
  | Relay nat relay_event
  | Maint maint_event
  | Stop
  | Close "nat list"
  | Tick nat

definition udp_start :: "nat \<Rightarrow> udp_system" where
  "udp_start now = \<lparr>sy_udp = udp_new now, sy_forward = Receiving, sy_maint = Maint_idle,
     sy_closer = Not_closing\<rparr>"

fun udp_step :: "duration \<Rightarrow> socket_addr \<Rightarrow> udp_event \<Rightarrow> udp_system \<Rightarrow> udp_system option" where
  "udp_step idle listener (Forward e) y =
     (case forward_step listener e (sy_forward y) (sy_udp y) of
        None \<Rightarrow> None | Some (pc, s) \<Rightarrow> Some (y\<lparr>sy_udp := s, sy_forward := pc\<rparr>))"
| "udp_step idle listener (Relay a e) y =
     (case relay_step idle a e (sy_udp y) of
        None \<Rightarrow> None | Some s \<Rightarrow> Some (y\<lparr>sy_udp := s\<rparr>))"
| "udp_step idle listener (Maint e) y =
     (case maint_step e (sy_maint y) (sy_udp y) of
        None \<Rightarrow> None | Some (pc, s) \<Rightarrow> Some (y\<lparr>sy_udp := s, sy_maint := pc\<rparr>))"
| "udp_step idle listener Stop y = Some (y\<lparr>sy_udp := (sy_udp y)\<lparr>us_shutdown := True\<rparr>\<rparr>)"
| "udp_step idle listener (Close order) y =
     (if sy_forward y = Forward_ended \<and> sy_maint y = Maint_ended
      then (case close_step order (sy_closer y) (sy_udp y) of
              None \<Rightarrow> None | Some (pc, s) \<Rightarrow> Some (y\<lparr>sy_udp := s, sy_closer := pc\<rparr>))
      else None)"
| "udp_step idle listener (Tick d) y =
     Some (y\<lparr>sy_udp := (sy_udp y)\<lparr>us_now := us_now (sy_udp y) + d\<rparr>\<rparr>)"

fun udp_run :: "duration \<Rightarrow> socket_addr \<Rightarrow> udp_event list \<Rightarrow> udp_system \<Rightarrow> udp_system option" where
  "udp_run idle listener [] y = Some y"
| "udp_run idle listener (e # es) y =
     (case udp_step idle listener e y of None \<Rightarrow> None | Some y \<Rightarrow> udp_run idle listener es y)"

section \<open>What steps keep\<close>

lemma assoc_update [simp]:
  "assoc (update_assoc a f s) b =
     (if b = a \<and> a < length (us_heap s) then f (assoc s a) else assoc s b)"
  by (cases "a < length (us_heap s)") (auto simp: assoc_def update_assoc_def not_less list_update_beyond)

lemma update_assoc_fields [simp]:
  "length (us_heap (update_assoc a f s)) = length (us_heap s)"
  "us_entries (update_assoc a f s) = us_entries s"
  "us_shutdown (update_assoc a f s) = us_shutdown s"
  "us_now (update_assoc a f s) = us_now s"
  "us_received (update_assoc a f s) = us_received s"
  "us_answers (update_assoc a f s) = us_answers s"
  "us_sent (update_assoc a f s) = us_sent s"
  "us_replies (update_assoc a f s) = us_replies s"
  "us_delivered (update_assoc a f s) = us_delivered s"
  by (simp_all add: update_assoc_def)

lemma assoc_other_fields [simp]:
  "assoc (s\<lparr>us_entries := x1\<rparr>) a = assoc s a"
  "assoc (s\<lparr>us_last_failure_log := x2\<rparr>) a = assoc s a"
  "assoc (s\<lparr>us_shutdown := x3\<rparr>) a = assoc s a"
  "assoc (s\<lparr>us_now := x4\<rparr>) a = assoc s a"
  "assoc (s\<lparr>us_received := x5\<rparr>) a = assoc s a"
  "assoc (s\<lparr>us_answers := x6\<rparr>) a = assoc s a"
  "assoc (s\<lparr>us_sent := x7\<rparr>) a = assoc s a"
  "assoc (s\<lparr>us_replies := x8\<rparr>) a = assoc s a"
  "assoc (s\<lparr>us_delivered := x9\<rparr>) a = assoc s a"
  "assoc (s\<lparr>us_heap := h\<rparr>) a = h ! a"
  by (simp_all add: assoc_def)

lemma assoc_append [simp]:
  "(us_heap s @ [x]) ! a = (if a < length (us_heap s) then assoc s a else [x] ! (a - length (us_heap s)))"
  by (simp add: assoc_def nth_append)

lemmas op_defs = set_relay_def touch_association_def begin_stop_def remove_entry_def
  remove_if_current_def report_failure_def spawn_udp_relay_def allocate_def relay_done_def

lemmas step_defs = relay_step_def forward_step_def check_step_def publish_step_def existing_same_def
  maint_step_def observe_flow_def invalidate_def close_step_def Let_def

lemmas step_splits = if_splits option.splits relay_pc.splits forward_pc.splits forward_event.splits
  maint_pc.splits maint_event.splits closer_pc.splits list.splits sum.splits

text \<open>Steps never move or re-address an association, and the records only grow.\<close>

definition extends :: "udp_state \<Rightarrow> udp_state \<Rightarrow> bool" where
  "extends s s' \<longleftrightarrow>
     length (us_heap s) \<le> length (us_heap s')
     \<and> (\<forall>a < length (us_heap s). ua_key (assoc s' a) = ua_key (assoc s a)
          \<and> ua_destination (assoc s' a) = ua_destination (assoc s a)
          \<and> ua_client_address (assoc s' a) = ua_client_address (assoc s a))
     \<and> set (us_received s) \<subseteq> set (us_received s')
     \<and> set (us_answers s) \<subseteq> set (us_answers s')
     \<and> set (us_replies s) \<subseteq> set (us_replies s')
     \<and> (us_shutdown s \<longrightarrow> us_shutdown s')"

lemma extends_refl [simp]: "extends s s"
  by (simp add: extends_def)

lemma extends_trans: "extends s t \<Longrightarrow> extends t u \<Longrightarrow> extends s u"
  by (auto simp: extends_def)

lemma relay_wait_extends: "relay_wait idle a d e s = Some s' \<Longrightarrow> extends s s'"
  by (cases e) (auto simp: extends_def op_defs split: if_splits)

lemma relay_step_extends: "relay_step idle a e s = Some s' \<Longrightarrow> extends s s'"
  by (auto simp: relay_step_def intro: relay_wait_extends split: if_splits relay_pc.splits)
     (auto simp: extends_def op_defs)

lemma send_step_extends: "send_step r t a p e s = Some (pc, s') \<Longrightarrow> extends s s'"
  by (cases e) (auto simp: extends_def op_defs split: if_splits option.splits)

lemma resolve_step_extends: "resolve_step r t p e s = Some (pc, s') \<Longrightarrow> extends s s'"
  by (cases "(r, t, p, e, s)" rule: resolve_step.cases) (auto simp: extends_def split: if_splits)

lemma connect_step_extends: "connect_step r t d p e s = Some (pc, s') \<Longrightarrow> extends s s'"
  by (cases e) (auto simp: extends_def allocate_def Let_def)

lemma check_publish_extends:
  "check_step r t c p s = (pc, s') \<Longrightarrow> extends s s'"
  "publish_step r t c p s = (pc, s') \<Longrightarrow> extends s s'"
  by (auto simp: extends_def check_step_def publish_step_def Let_def op_defs
      split: option.splits if_splits)

lemma small_extends [simp]:
  "extends s (s\<lparr>us_received := us_received s @ x\<rparr>)" "extends s (s\<lparr>us_shutdown := True\<rparr>)"
  "extends s (s\<lparr>us_now := now\<rparr>)" "extends s (touch_association a s)"
  "extends s (snd (report_failure s))"
  by (auto simp: extends_def op_defs)

lemma forward_step_extends: "forward_step l e pc s = Some (pc', s') \<Longrightarrow> extends s s'"
  by (auto simp: forward_step_def split: if_splits forward_pc.splits
      dest: send_step_extends resolve_step_extends connect_step_extends check_publish_extends)
     (auto split: forward_event.splits option.splits)

lemma maint_step_extends: "maint_step e pc s = Some (pc', s') \<Longrightarrow> extends s s'"
  by (auto simp: maint_step_def extends_def op_defs split: maint_pc.splits maint_event.splits if_splits)

lemma stop_next_extends: "stop_next as s = (pc, s') \<Longrightarrow> extends s s'"
  by (cases as) (auto simp: extends_def op_defs split: if_splits)

lemma clear_extends: "extends (s\<lparr>us_entries := Map.empty\<rparr>) s' \<Longrightarrow> extends s s'"
  by (simp add: extends_def)

lemma close_step_extends: "close_step order pc s = Some (pc', s') \<Longrightarrow> extends s s'"
  by (auto simp: close_step_def split: closer_pc.splits list.splits if_splits
      dest: stop_next_extends clear_extends)

lemma udp_step_extends: "udp_step idle l e y = Some y' \<Longrightarrow> extends (sy_udp y) (sy_udp y')"
  by (cases e) (auto intro: forward_step_extends relay_step_extends maint_step_extends close_step_extends
      split: option.splits if_splits prod.splits)

section \<open>Safety invariant\<close>

definition origin :: "socket_addr \<Rightarrow> host_tuple \<Rightarrow> bytes \<Rightarrow> udp_state \<Rightarrow> bool" where
  "origin l t p s \<longleftrightarrow> (\<exists>c. t = forward_tuple l c \<and> (c, p) \<in> set (us_received s))"

definition addressed :: "host_tuple \<Rightarrow> nat \<Rightarrow> udp_state \<Rightarrow> bool" where
  "addressed t a s \<longleftrightarrow> a < length (us_heap s) \<and> ua_key (assoc s a) = t"

fun forward_ok :: "socket_addr \<Rightarrow> forward_pc \<Rightarrow> udp_state \<Rightarrow> bool" where
  "forward_ok l (Looking_up t p) s = origin l t p s"
| "forward_ok l (Sending r t a p) s = (origin l t p s \<and> addressed t a s)"
| "forward_ok l (Stopping_old t a p) s = origin l t p s"
| "forward_ok l (Resolving r t p) s = origin l t p s"
| "forward_ok l (Connecting r t d p) s = (origin l t p s \<and> (t, d) \<in> set (us_answers s))"
| "forward_ok l (Checking r t c p) s = (origin l t p s \<and> addressed t c s)"
| "forward_ok l (Publishing r t c p) s = (origin l t p s \<and> addressed t c s)"
| "forward_ok l (Stopping_candidate r t c e p) s = (origin l t p s \<and> addressed t e s)"
| "forward_ok l (Stopping_previous r t b c p) s = (origin l t p s \<and> addressed t c s)"
| "forward_ok l Forward_ended s = us_shutdown s"
| "forward_ok l _ s = True"

definition table_ok :: "udp_state \<Rightarrow> bool" where
  "table_ok s \<longleftrightarrow> (\<forall>t a. us_entries s t = Some a \<longrightarrow> addressed t a s)"

definition assoc_ok :: "udp_state \<Rightarrow> bool" where
  "assoc_ok s \<longleftrightarrow> (\<forall>a < length (us_heap s).
     (ua_key (assoc s a), ua_destination (assoc s a)) \<in> set (us_answers s)
     \<and> ua_client_address (assoc s a) = ht_source (ua_key (assoc s a)))"

definition sent_ok :: "socket_addr \<Rightarrow> udp_state \<Rightarrow> bool" where
  "sent_ok l s \<longleftrightarrow> (\<forall>(a, p) \<in> set (us_sent s).
     a < length (us_heap s) \<and> origin l (ua_key (assoc s a)) p s)"

definition replies_ok :: "udp_state \<Rightarrow> bool" where
  "replies_ok s \<longleftrightarrow>
     (\<forall>(a, p) \<in> set (us_replies s). a < length (us_heap s))
     \<and> (\<forall>a < length (us_heap s). \<forall>p. ua_relay (assoc s a) = Delivering p \<longrightarrow> (a, p) \<in> set (us_replies s))
     \<and> (\<forall>(c, p) \<in> set (us_delivered s).
          \<exists>a. (a, p) \<in> set (us_replies s) \<and> ua_client_address (assoc s a) = c)"

definition safe :: "socket_addr \<Rightarrow> udp_state \<Rightarrow> bool" where
  "safe l s \<longleftrightarrow> table_ok s \<and> assoc_ok s \<and> sent_ok l s \<and> replies_ok s"

lemma origin_stable: "extends s s' \<Longrightarrow> origin l t p s \<Longrightarrow> origin l t p s'"
  by (auto simp: extends_def origin_def)

lemma addressed_stable: "extends s s' \<Longrightarrow> addressed t a s \<Longrightarrow> addressed t a s'"
  by (auto simp: extends_def addressed_def)

lemma forward_ok_stable: "extends s s' \<Longrightarrow> forward_ok l pc s \<Longrightarrow> forward_ok l pc s'"
  by (cases pc) (auto intro: origin_stable addressed_stable simp: extends_def)

text \<open>What a step has to show beyond extending the state.\<close>

definition table_grows :: "udp_state \<Rightarrow> udp_state \<Rightarrow> bool" where
  "table_grows s s' \<longleftrightarrow>
     (\<forall>t a. us_entries s' t = Some a \<longrightarrow> us_entries s t = Some a \<or> addressed t a s)"

lemma table_ok_step: "extends s s' \<Longrightarrow> table_grows s s' \<Longrightarrow> table_ok s \<Longrightarrow> table_ok s'"
  unfolding table_ok_def table_grows_def by (blast intro: addressed_stable)

lemma assoc_ok_step:
  "extends s s' \<Longrightarrow> length (us_heap s') = length (us_heap s) \<Longrightarrow> assoc_ok s \<Longrightarrow> assoc_ok s'"
  by (auto simp: assoc_ok_def extends_def)

lemma sent_ok_step: "extends s s' \<Longrightarrow> us_sent s' = us_sent s \<Longrightarrow> sent_ok l s \<Longrightarrow> sent_ok l s'"
  by (fastforce simp: sent_ok_def extends_def origin_def)

text \<open>Most steps move no datagram and create no association.\<close>

definition quiet :: "udp_state \<Rightarrow> udp_state \<Rightarrow> bool" where
  "quiet s s' \<longleftrightarrow>
     table_grows s s' \<and> length (us_heap s') = length (us_heap s) \<and> us_sent s' = us_sent s
     \<and> us_replies s' = us_replies s \<and> us_delivered s' = us_delivered s
     \<and> (\<forall>a < length (us_heap s). \<forall>p. ua_relay (assoc s' a) = Delivering p
          \<longrightarrow> ua_relay (assoc s a) = Delivering p)"

lemma replies_ok_step: "extends s s' \<Longrightarrow> quiet s s' \<Longrightarrow> replies_ok s \<Longrightarrow> replies_ok s'"
  unfolding replies_ok_def quiet_def by (fastforce simp: extends_def)

lemma safe_step: "extends s s' \<Longrightarrow> quiet s s' \<Longrightarrow> safe l s \<Longrightarrow> safe l s'"
  by (auto simp: safe_def quiet_def intro: table_ok_step assoc_ok_step sent_ok_step)
     (auto intro: replies_ok_step simp: quiet_def)

lemma safe_relay_io:
  assumes "extends s s'" "us_entries s' = us_entries s" "length (us_heap s') = length (us_heap s)"
    and "us_sent s' = us_sent s" "replies_ok s \<Longrightarrow> replies_ok s'" "safe l s"
  shows "safe l s'"
proof -
  have "table_grows s s'" using assms(2) by (simp add: table_grows_def)
  with assms show ?thesis
    by (auto simp: safe_def intro: table_ok_step assoc_ok_step sent_ok_step)
qed

lemma reply_replies_ok:
  assumes "a < length (us_heap s)" "replies_ok s"
  shows "replies_ok (set_relay a (Delivering p) (s\<lparr>us_replies := us_replies s @ [(a, p)]\<rparr>))"
  using assms by (auto simp: replies_ok_def set_relay_def)

lemma relay_wait_safe:
  assumes "relay_wait idle a d e s = Some s'" "safe l s" "a < length (us_heap s)"
  shows "safe l s'"
proof (cases "\<exists>p. e = Reply p")
  case True
  then obtain p where p: "e = Reply p" ..
  show ?thesis
    by (rule safe_relay_io [OF relay_wait_extends [OF assms(1)] _ _ _ _ assms(2)])
       (use assms p reply_replies_ok in \<open>auto simp: set_relay_def\<close>)
next
  case False
  then have "quiet s s'"
    using assms(1) by (cases e) (auto simp: quiet_def table_grows_def op_defs split: if_splits)
  then show ?thesis using safe_step relay_wait_extends assms by blast
qed

lemma deliver_replies_ok:
  assumes "a < length (us_heap s)" "ua_relay (assoc s a) = Delivering p" "replies_ok s"
  shows "replies_ok (set_relay a Starting (touch_association a
           (s\<lparr>us_delivered := us_delivered s @ [(ua_client_address (assoc s a), p)]\<rparr>)))"
proof -
  have "(a, p) \<in> set (us_replies s)" using assms by (auto simp: replies_ok_def)
  with assms show ?thesis by (auto simp: replies_ok_def op_defs split_beta)
qed

lemma relay_deliver_safe:
  assumes "safe l s" "a < length (us_heap s)" "ua_relay (assoc s a) = Delivering p"
  shows "safe l (set_relay a Starting (touch_association a
           (s\<lparr>us_delivered := us_delivered s @ [(ua_client_address (assoc s a), p)]\<rparr>)))"
  by (rule safe_relay_io [OF _ _ _ _ _ assms(1)])
     (use assms deliver_replies_ok in \<open>auto simp: extends_def op_defs\<close>)

lemma relay_step_safe:
  assumes "relay_step idle a e s = Some s'" "safe l s"
  shows "safe l s'"
proof -
  have a: "a < length (us_heap s)" using assms(1) by (simp add: relay_step_def split: if_splits)
  have q: "quiet s (set_relay a (Waiting d) s)" "quiet s (set_relay a Finishing s)"
    "quiet s (set_relay a Signalling (remove_if_current a s))" "quiet s (set_relay a RelayDone s)" for d
    by (auto simp: quiet_def table_grows_def op_defs)
  show ?thesis
    using assms a q relay_deliver_safe [OF assms(2) a] safe_step [OF relay_step_extends [OF assms(1)] _ assms(2)]
    by (auto simp: relay_step_def split: if_splits relay_pc.splits intro: relay_wait_safe)
qed

lemma send_step_safe:
  assumes "send_step r t a p e s = Some (pc', s')" "safe l s" "origin l t p s" "addressed t a s"
  shows "safe l s' \<and> forward_ok l pc' s'"
proof (cases "e = SendOk")
  case True
  then have s': "s' = s\<lparr>us_sent := us_sent s @ [(a, p)]\<rparr>" "pc' = Touching a" using assms by auto
  then show ?thesis
    using assms(2-4) by (auto simp: safe_def table_ok_def addressed_def assoc_ok_def sent_ok_def
        replies_ok_def origin_def split_beta)
next
  case False
  then have "quiet s s'"
    using assms(1) by (cases e) (auto simp: quiet_def table_grows_def op_defs split: if_splits option.splits)
  then have "safe l s'" using safe_step send_step_extends assms by blast
  moreover have "origin l t p s'" using origin_stable send_step_extends assms by blast
  ultimately show ?thesis
    using False assms(1) by (cases e) (auto split: if_splits option.splits)
qed

lemma resolve_step_safe:
  assumes "resolve_step r t p e s = Some (pc', s')" "safe l s" "origin l t p s"
  shows "safe l s' \<and> forward_ok l pc' s'"
proof -
  have "quiet s s'" using assms(1)
    by (cases "(r, t, p, e, s)" rule: resolve_step.cases)
       (auto simp: quiet_def table_grows_def split: if_splits)
  then have "safe l s'" using safe_step resolve_step_extends assms by blast
  moreover have "origin l t p s'" using origin_stable resolve_step_extends assms by blast
  ultimately show ?thesis using assms(1)
    by (cases "(r, t, p, e, s)" rule: resolve_step.cases) (auto split: if_splits)
qed

lemma allocate_safe:
  assumes "safe l s" "(t, d) \<in> set (us_answers s)"
  shows "safe l (snd (allocate (new_association t (ht_source t) d now) s))"
proof -
  let ?s = "s\<lparr>us_heap := us_heap s @ [new_association t (ht_source t) d now]\<rparr>"
  have e: "extends s ?s" by (simp add: extends_def)
  have "table_ok ?s" using assms table_ok_step [OF e] by (simp add: safe_def table_grows_def)
  moreover have "sent_ok l ?s" using assms sent_ok_step [OF e] by (simp add: safe_def)
  moreover have "assoc_ok ?s"
    using assms by (auto simp: safe_def assoc_ok_def new_association_def)
  moreover have "replies_ok ?s"
    using assms by (fastforce simp: safe_def replies_ok_def new_association_def)
  ultimately show ?thesis by (simp add: safe_def allocate_def)
qed

lemma connect_step_safe:
  assumes "connect_step r t d p e s = Some (pc', s')" "safe l s" "origin l t p s"
    and "(t, d) \<in> set (us_answers s)"
  shows "safe l s' \<and> forward_ok l pc' s'"
proof -
  have "origin l t p s'" using origin_stable connect_step_extends assms by blast
  with assms allocate_safe [OF assms(2,4)] show ?thesis
    by (cases e) (auto simp: allocate_def addressed_def new_association_def Let_def)
qed

lemma check_publish_safe:
  assumes "safe l s" "origin l t p s" "addressed t c s"
    and "check_step r t c p s = (pc', s') \<or> publish_step r t c p s = (pc', s')"
  shows "safe l s' \<and> forward_ok l pc' s'"
proof -
  have e: "extends s s'" using assms(4) check_publish_extends by blast
  have "quiet s s'"
    using assms(3,4) by (auto simp: quiet_def table_grows_def check_step_def publish_step_def op_defs Let_def
        split: option.splits if_splits)
  then have "safe l s'" using safe_step [OF e] assms(1) by blast
  moreover have "origin l t p s'" "addressed t c s'"
    using e assms origin_stable addressed_stable by blast+
  moreover have "addressed t x s'" if "us_entries s t = Some x" for x
    using e that assms(1) addressed_stable by (fastforce simp: safe_def table_ok_def)
  ultimately show ?thesis
    using assms(4) by (auto simp: check_step_def publish_step_def existing_same_def Let_def
        split: option.splits if_splits)
qed

lemma origin_received:
  "origin l (forward_tuple l c) p (s\<lparr>us_received := us_received s @ [(c, p)]\<rparr>)"
  by (auto simp: origin_def)

lemma forward_step_safe:
  assumes "forward_step l e pc s = Some (pc', s')" "safe l s" "forward_ok l pc s"
  shows "safe l s' \<and> forward_ok l pc' s'"
proof -
  have q: "quiet s (s\<lparr>us_received := x\<rparr>)" "quiet s (touch_association a s)" "quiet s (snd (report_failure s))"
    for x a by (auto simp: quiet_def table_grows_def op_defs)
  have r: "safe l (s\<lparr>us_received := us_received s @ x\<rparr>)" "safe l (touch_association a s)"
    "safe l (snd (report_failure s))" for x a
    using safe_step [OF _ q(1) assms(2)] safe_step [OF _ q(2) assms(2)] safe_step [OF _ q(3) assms(2)]
    by simp_all
  have t: "addressed t a s" if "us_entries s t = Some a" for t a
    using assms(2) that by (auto simp: safe_def table_ok_def)
  show ?thesis
    using assms r t send_step_safe [OF _ assms(2)] resolve_step_safe [OF _ assms(2)]
      connect_step_safe [OF _ assms(2)] check_publish_safe [OF assms(2) _ _ disjI1]
      check_publish_safe [OF assms(2) _ _ disjI2]
    by (cases pc) (auto simp: forward_step_def origin_received split: if_splits forward_event.splits option.splits)
qed

lemma maint_step_safe:
  assumes "maint_step e pc s = Some (pc', s')" "safe l s"
  shows "safe l s'"
proof -
  have "quiet s s'" using assms(1)
    by (auto simp: maint_step_def quiet_def table_grows_def op_defs
        split: maint_pc.splits maint_event.splits if_splits)
  then show ?thesis using safe_step maint_step_extends assms by blast
qed

lemma stop_next_quiet: "stop_next as s = (pc, s') \<Longrightarrow> quiet s s'"
  by (cases as) (auto simp: quiet_def table_grows_def op_defs split: if_splits)

lemma close_step_safe:
  assumes "close_step order pc s = Some (pc', s')" "safe l s"
  shows "safe l s'"
proof -
  have "quiet s s'" using assms(1)
    by (auto simp: close_step_def split: closer_pc.splits list.splits if_splits dest!: stop_next_quiet)
       (auto simp: quiet_def table_grows_def addressed_def)
  then show ?thesis using safe_step close_step_extends assms by blast
qed

definition system_ok :: "socket_addr \<Rightarrow> udp_system \<Rightarrow> bool" where
  "system_ok l y \<longleftrightarrow> safe l (sy_udp y) \<and> forward_ok l (sy_forward y) (sy_udp y)"

lemma system_ok_start: "system_ok l (udp_start now)"
  by (simp add: system_ok_def udp_start_def udp_new_def safe_def table_ok_def assoc_ok_def sent_ok_def
      replies_ok_def)

lemma system_ok_step:
  assumes "udp_step idle l e y = Some y'" "system_ok l y"
  shows "system_ok l y'"
proof -
  have o: "safe l (sy_udp y)" "forward_ok l (sy_forward y) (sy_udp y)"
    using assms(2) by (auto simp: system_ok_def)
  have q: "quiet (sy_udp y) ((sy_udp y)\<lparr>us_shutdown := True\<rparr>)" "quiet (sy_udp y) ((sy_udp y)\<lparr>us_now := n\<rparr>)" for n
    by (auto simp: quiet_def table_grows_def)
  have "safe l (sy_udp y')"
    using assms(1) o safe_step [OF _ q(1)] safe_step [OF _ q(2)]
    by (cases e) (auto split: option.splits if_splits prod.splits dest: forward_step_safe relay_step_safe
        maint_step_safe close_step_safe)
  moreover have "forward_ok l (sy_forward y') (sy_udp y')"
  proof (cases "\<exists>x. e = Forward x")
    case True
    then show ?thesis
      using assms(1) forward_step_safe [OF _ o] by (auto split: option.splits prod.splits)
  next
    case False
    then have "sy_forward y' = sy_forward y"
      using assms(1) by (cases e) (auto split: option.splits if_splits prod.splits)
    then show ?thesis using forward_ok_stable [OF udp_step_extends [OF assms(1)] o(2)] by simp
  qed
  ultimately show ?thesis by (simp add: system_ok_def)
qed

lemma udp_run_invariant:
  assumes "udp_run idle l es y = Some y'" "I y"
    and "\<And>e y y'. udp_step idle l e y = Some y' \<Longrightarrow> I y \<Longrightarrow> I y'"
  shows "I y'"
  using assms(1,2) by (induction es arbitrary: y) (auto split: option.splits intro: assms(3))

lemma system_ok_reachable:
  assumes "udp_run idle l es (udp_start now) = Some y"
  shows "system_ok l y"
  using assms system_ok_start system_ok_step by (rule udp_run_invariant)

section \<open>No relay is left behind\<close>

fun relay_active :: "relay_pc \<Rightarrow> bool" where
  "relay_active Starting = True"
| "relay_active (Waiting _) = True"
| "relay_active (Delivering _) = True"
| "relay_active _ = False"

fun candidate_of :: "forward_pc \<Rightarrow> nat option" where
  "candidate_of (Publishing r t c p) = Some c"
| "candidate_of _ = None"

definition in_table :: "udp_state \<Rightarrow> nat \<Rightarrow> bool" where
  "in_table s a \<longleftrightarrow> us_entries s (ua_key (assoc s a)) = Some a"

definition owned :: "forward_pc \<Rightarrow> udp_state \<Rightarrow> bool" where
  "owned pc s \<longleftrightarrow> (\<forall>a < length (us_heap s). relay_active (ua_relay (assoc s a)) \<longrightarrow>
     in_table s a \<or> ua_cancel (assoc s a) \<or> us_shutdown s \<or> candidate_of pc = Some a)"

lemma relay_wait_owned:
  assumes "relay_wait idle a d e s = Some s'" "owned pc s" "relay_active (ua_relay (assoc s a))"
  shows "owned pc s'"
  using assms by (cases e) (auto simp: owned_def in_table_def set_relay_def split: if_splits)

lemma relay_step_owned:
  assumes "relay_step idle a e s = Some s'" "owned pc s"
  shows "owned pc s'"
proof (cases "\<exists>d. ua_relay (assoc s a) = Waiting d")
  case True
  with assms relay_wait_owned show ?thesis by (auto simp: relay_step_def split: if_splits)
next
  case False
  with assms show ?thesis
    by (auto simp: relay_step_def owned_def in_table_def op_defs split: if_splits relay_pc.splits)
qed

lemma shutdown_owned: "us_shutdown s \<Longrightarrow> owned pc s"
  by (simp add: owned_def)

lemma owned_stop_removed:
  assumes "owned pc s" "us_entries s t = Some old"
  shows "owned pc (begin_stop old (remove_entry t s))"
  using assms by (auto simp: owned_def in_table_def begin_stop_def remove_entry_def relay_done_def)

lemma owned_fields [simp]:
  "owned pc (s\<lparr>us_sent := x1\<rparr>) = owned pc s" "owned pc (s\<lparr>us_now := x2\<rparr>) = owned pc s"
  "owned pc (s\<lparr>us_received := x3\<rparr>) = owned pc s" "owned pc (s\<lparr>us_answers := x4\<rparr>) = owned pc s"
  "owned pc (snd (report_failure s)) = owned pc s"
  by (simp_all add: owned_def in_table_def report_failure_def)

lemma owned_touch: "owned pc s \<Longrightarrow> owned pc (touch_association a s)"
  by (simp add: owned_def in_table_def touch_association_def)

lemma resolve_step_owned:
  assumes "resolve_step r t p e s = Some (pc', s')" "owned pc' s"
  shows "owned pc' s'"
  using assms by (cases "(r, t, p, e, s)" rule: resolve_step.cases) (auto split: if_splits)

lemma owned_start: "owned pc (udp_new now)"
  by (simp add: owned_def udp_new_def)

lemma owned_candidate: "owned pc s \<Longrightarrow> candidate_of pc = None \<Longrightarrow> owned pc' s"
  by (auto simp: owned_def)

lemma publish_step_owned:
  assumes "publish_step r t c p s = (pc', s')" "owned (Publishing r t c p) s" "addressed t c s"
  shows "owned pc' s'"
  using assms
  by (auto simp: owned_def in_table_def publish_step_def begin_stop_def relay_done_def addressed_def Let_def
      split: option.splits if_splits)

lemma check_step_owned:
  assumes "check_step r t c p s = (pc', s')" "owned pc s" "candidate_of pc = None"
  shows "owned pc' s'"
  using assms
  by (auto simp: owned_def in_table_def check_step_def spawn_udp_relay_def split: option.splits if_splits)

lemma allocate_owned: "owned pc s \<Longrightarrow> owned pc (snd (allocate (new_association t c d now) s))"
  by (auto simp: owned_def in_table_def allocate_def new_association_def)

lemma forward_step_owned:
  assumes "forward_step l e pc s = Some (pc', s')" "owned pc s" "forward_ok l pc s"
  shows "owned pc' s'"
proof (cases pc)
  case (Publishing r t c p)
  with assms show ?thesis
    using publish_step_owned by (auto simp: forward_step_def shutdown_owned split: if_splits)
next
  case (Checking r t c p)
  with assms show ?thesis
    using check_step_owned [OF _ assms(2)] by (auto simp: forward_step_def shutdown_owned split: if_splits)
next
  case (Connecting r t d p)
  with assms show ?thesis
    using allocate_owned [OF owned_candidate [OF assms(2)]] owned_candidate [OF assms(2)]
    by (cases e) (auto simp: forward_step_def shutdown_owned allocate_def Let_def split: if_splits)
next
  case (Sending r t a p)
  with assms show ?thesis
    using owned_stop_removed [OF owned_candidate [OF assms(2)]] owned_candidate [OF assms(2)]
    by (cases e) (auto simp: forward_step_def shutdown_owned split: if_splits option.splits)
qed (use assms owned_candidate [OF assms(2)] in \<open>auto simp: forward_step_def shutdown_owned
  intro: owned_touch resolve_step_owned split: if_splits option.splits forward_event.splits\<close>)

lemma maint_step_owned:
  assumes "maint_step e pm s = Some (pm', s')" "owned pc s"
  shows "owned pc s'"
  using assms owned_stop_removed [OF assms(2)]
  by (auto simp: maint_step_def split: maint_pc.splits maint_event.splits if_splits)
     (auto simp: owned_def in_table_def)

lemma udp_step_owned:
  assumes "udp_step idle l e y = Some y'" "system_ok l y" "owned (sy_forward y) (sy_udp y)"
  shows "owned (sy_forward y') (sy_udp y')"
proof (cases "us_shutdown (sy_udp y)")
  case True
  then show ?thesis
    using udp_step_extends [OF assms(1)] by (auto simp: extends_def intro: shutdown_owned)
next
  case False
  then have "sy_forward y \<noteq> Forward_ended" using assms(2) by (auto simp: system_ok_def)
  then show ?thesis
    using assms forward_step_owned relay_step_owned maint_step_owned
    by (cases e) (auto simp: system_ok_def shutdown_owned split: option.splits prod.splits if_splits)
qed

lemma owned_reachable:
  assumes "udp_run idle l es (udp_start now) = Some y"
  shows "owned (sy_forward y) (sy_udp y)"
proof -
  have "system_ok l y \<and> owned (sy_forward y) (sy_udp y)"
  proof (rule udp_run_invariant [OF assms])
    show "system_ok l (udp_start now) \<and> owned (sy_forward (udp_start now)) (sy_udp (udp_start now))"
      using system_ok_start owned_start by (simp add: udp_start_def)
  qed (auto intro: system_ok_step udp_step_owned)
  then show ?thesis ..
qed

section \<open>Stopping\<close>

text \<open>How many steps a relay that is told to stop still needs.\<close>

fun stop_events :: "relay_pc \<Rightarrow> bool \<Rightarrow> relay_event list" where
  "stop_events Unspawned sd = []"
| "stop_events Starting sd =
     [RelayProceed, if sd then SeeShutdown else SeeCancel, RelayProceed, RelayProceed]"
| "stop_events (Waiting d) sd = [if sd then SeeShutdown else SeeCancel, RelayProceed, RelayProceed]"
| "stop_events (Delivering p) sd =
     [Delivered, RelayProceed, if sd then SeeShutdown else SeeCancel, RelayProceed, RelayProceed]"
| "stop_events Finishing sd = [RelayProceed, RelayProceed]"
| "stop_events Signalling sd = [RelayProceed]"
| "stop_events RelayDone sd = []"

lemma stop_events_run:
  assumes "a < length (us_heap (sy_udp y))" "ua_relay (assoc (sy_udp y) a) \<noteq> Unspawned"
    and "sd \<Longrightarrow> us_shutdown (sy_udp y)" "\<not> sd \<Longrightarrow> ua_cancel (assoc (sy_udp y) a)"
  shows "\<exists>y'. udp_run idle l (map (Relay a) (stop_events (ua_relay (assoc (sy_udp y) a)) sd)) y = Some y'
    \<and> relay_done (sy_udp y') a"
  using assms
  by (cases "ua_relay (assoc (sy_udp y) a)"; cases sd) (auto simp: relay_step_def op_defs)

section \<open>Flow identities\<close>

text \<open>Only the maintenance task writes flow identities, so the identity it checked is still
  there when it removes the entry.\<close>

definition same_identities :: "udp_state \<Rightarrow> udp_state \<Rightarrow> bool" where
  "same_identities s s' \<longleftrightarrow> length (us_heap s) \<le> length (us_heap s')
     \<and> (\<forall>a < length (us_heap s). ua_flow_identity (assoc s' a) = ua_flow_identity (assoc s a))"

fun maint_ok :: "maint_pc \<Rightarrow> udp_state \<Rightarrow> bool" where
  "maint_ok (Inv_checking t a i g) s = addressed t a s"
| "maint_ok (Inv_removing t a i g) s =
     (addressed t a s \<and> ua_flow_identity (assoc s a) = Some (i, g))"
| "maint_ok _ s = True"

lemma maint_ok_stable:
  "extends s s' \<Longrightarrow> same_identities s s' \<Longrightarrow> maint_ok pc s \<Longrightarrow> maint_ok pc s'"
  by (cases pc) (auto simp: same_identities_def addressed_def extends_def)

lemma relay_same_identities: "relay_step idle a e s = Some s' \<Longrightarrow> same_identities s s'"
  by (cases e) (auto simp: relay_step_def same_identities_def op_defs split: relay_pc.splits if_splits)

lemma check_publish_same_identities:
  "check_step r t c p s = (pc, s') \<Longrightarrow> same_identities s s'"
  "publish_step r t c p s = (pc, s') \<Longrightarrow> same_identities s s'"
  by (auto simp: check_step_def publish_step_def same_identities_def op_defs Let_def
      split: option.splits if_splits)

lemma forward_same_identities:
  assumes "forward_step l e pc s = Some (pc', s')"
  shows "same_identities s s'"
proof -
  have "same_identities s s" by (simp add: same_identities_def)
  moreover have "same_identities s s'" if "resolve_step r t p e s = Some (pc', s')" for r t p
    using that by (cases "(r, t, p, e, s)" rule: resolve_step.cases)
      (auto simp: same_identities_def split: if_splits)
  ultimately show ?thesis
    using assms
    by (cases e; cases pc)
       (auto simp: forward_step_def split: if_splits option.splits sum.splits
         dest: check_publish_same_identities, auto simp: same_identities_def op_defs Let_def)
qed

lemma close_same_identities:
  "close_step order pc s = Some (pc', s') \<Longrightarrow> same_identities s s'"
  by (cases "(order, s)" rule: stop_next.cases)
     (auto simp: close_step_def same_identities_def op_defs split: closer_pc.splits list.splits if_splits
      elim!: stop_next.elims)

lemma maint_step_ok:
  assumes "maint_step e pc s = Some (pc', s')" "maint_ok pc s" "safe l s"
  shows "maint_ok pc' s'"
proof -
  have "addressed t a s" if "us_entries s t = Some a" for t a
    using assms(3) that by (auto simp: safe_def table_ok_def)
  with assms show ?thesis
    by (auto simp: maint_step_def observe_flow_def invalidate_def
        split: maint_pc.splits maint_event.splits if_splits option.splits)
qed

lemma udp_step_maint_ok:
  assumes "udp_step idle l e y = Some y'" "system_ok l y" "maint_ok (sy_maint y) (sy_udp y)"
  shows "maint_ok (sy_maint y') (sy_udp y')"
proof (cases "\<exists>x. e = Maint x")
  case True
  with assms maint_step_ok show ?thesis by (auto simp: system_ok_def split: option.splits prod.splits)
next
  case False
  then have "sy_maint y' = sy_maint y" "same_identities (sy_udp y) (sy_udp y')"
    using assms(1) by (cases e; auto split: option.splits prod.splits if_splits
        dest: relay_same_identities forward_same_identities close_same_identities
        simp: same_identities_def)+
  then show ?thesis
    using maint_ok_stable [OF udp_step_extends [OF assms(1)] _ assms(3)] by simp
qed

lemma maint_ok_reachable:
  assumes "udp_run idle l es (udp_start now) = Some y"
  shows "maint_ok (sy_maint y) (sy_udp y)"
proof -
  have "system_ok l y \<and> maint_ok (sy_maint y) (sy_udp y)"
  proof (rule udp_run_invariant [OF assms])
    show "system_ok l (udp_start now) \<and> maint_ok (sy_maint (udp_start now)) (sy_udp (udp_start now))"
      using system_ok_start by (simp add: udp_start_def)
  qed (auto intro: system_ok_step udp_step_maint_ok)
  then show ?thesis ..
qed

section \<open>Properties\<close>

text \<open>A client's datagram to a proxy on 10.0.0.1:53, answered by 8.8.8.8:53.\<close>

definition sample_client :: socket_addr where "sample_client = SocketAddrV4 0x0A000002 4000"
definition sample_listener :: socket_addr where "sample_listener = SocketAddrV4 0x0A000001 53"

definition sample_exchange :: "udp_event list" where
  "sample_exchange =
     [Forward (Received sample_client [1, 2]), Forward Proceed,
      Forward (Answer (Inr \<lparr>od_address = SocketAddrV4 0x08080808 53, od_protocol = UDP_PROTOCOL\<rparr>)),
      Forward Connected, Forward Proceed, Forward Proceed, Forward SendOk, Forward Proceed,
      Relay 0 RelayProceed, Relay 0 (Reply [3]), Relay 0 Delivered]"

definition sample_invalidation :: "udp_event list" where
  "sample_invalidation = sample_exchange @
     [Maint (Observe (forward_tuple sample_listener sample_client) 7 1), Maint MaintProceed,
      Maint (Invalidate (forward_tuple sample_listener sample_client) 7 1), Maint MaintProceed]"

lemmas sample_simps = sample_exchange_def sample_invalidation_def udp_start_def udp_new_def step_defs
  op_defs new_association_def assoc_def update_assoc_def forward_tuple_def

lemma sample_invalidation_runs:
  "\<exists>y. udp_run 1000 sample_listener sample_invalidation (udp_start 0) = Some y
     \<and> us_entries (sy_udp y) (forward_tuple sample_listener sample_client) = Some 0
     \<and> sy_maint y = Inv_removing (forward_tuple sample_listener sample_client) 0 7 1"
  by (simp add: sample_simps)

lemma sample_exchange_runs:
  "\<exists>y. udp_run 1000 sample_listener sample_exchange (udp_start 0) = Some y
     \<and> us_sent (sy_udp y) = [(0, [1, 2])] \<and> us_delivered (sy_udp y) = [(sample_client, [3])]
     \<and> length (us_heap (sy_udp y)) = 1 \<and> ua_relay (assoc (sy_udp y) 0) = Starting"
  by (simp add: sample_simps)

text \<open>C4: no cross-talk between UDP clients, under every interleaving of the forwarder, the
  relays, maintenance and shutdown. Whatever leaves through an association was received from
  the client the association belongs to, and goes to an address the control service gave for
  that client's tuple; whatever is delivered to a client came in on an association of that
  client.\<close>

theorem udp_forwarding_correct:
  assumes "udp_run idle l es (udp_start now) = Some y" "s = sy_udp y"
  shows "(\<forall>(a, p) \<in> set (us_sent s). \<exists>c. (c, p) \<in> set (us_received s)
            \<and> ua_key (assoc s a) = forward_tuple l c
            \<and> (forward_tuple l c, ua_destination (assoc s a)) \<in> set (us_answers s))
    \<and> (\<forall>(c, p) \<in> set (us_delivered s). \<exists>a. (a, p) \<in> set (us_replies s)
            \<and> ht_source (ua_key (assoc s a)) = c)"
proof -
  have "safe l s" using system_ok_reachable [OF assms(1)] assms(2) by (simp add: system_ok_def)
  then show ?thesis
    by (fastforce simp: safe_def sent_ok_def replies_ok_def assoc_ok_def origin_def)
qed

theorem udp_forwarding_correct_witness:
  "\<exists>y. udp_run 1000 sample_listener sample_exchange (udp_start 0) = Some y
     \<and> (\<exists>c. (c, [1, 2]) \<in> set (us_received (sy_udp y))
          \<and> ua_key (assoc (sy_udp y) 0) = forward_tuple sample_listener c)
     \<and> (\<exists>a. ht_source (ua_key (assoc (sy_udp y) a)) = sample_client)"
proof -
  obtain y where y: "udp_run 1000 sample_listener sample_exchange (udp_start 0) = Some y"
    "us_sent (sy_udp y) = [(0, [1, 2])]" "us_delivered (sy_udp y) = [(sample_client, [3])]"
    using sample_exchange_runs by blast
  with udp_forwarding_correct [OF y(1) refl] show ?thesis by auto
qed

text \<open>C22: no UDP relay is leaked, under every interleaving. A running relay is reachable through
  the table, or has been told to stop, or is the forwarder's candidate about to be published,
  or the proxy is shutting down.\<close>

theorem no_orphan_relay:
  assumes "udp_run idle l es (udp_start now) = Some y" "s = sy_udp y"
    and "a < length (us_heap s)" "relay_active (ua_relay (assoc s a))"
  shows "us_entries s (ua_key (assoc s a)) = Some a \<or> ua_cancel (assoc s a) \<or> us_shutdown s
    \<or> (\<exists>r t p. sy_forward y = Publishing r t a p)"
proof -
  have "candidate_of pc = Some a \<Longrightarrow> \<exists>r t p. pc = Publishing r t a p" for pc
    by (cases pc) auto
  then show ?thesis
    using owned_reachable [OF assms(1)] assms(2-4) by (auto simp: owned_def in_table_def)
qed

theorem no_orphan_relay_witness:
  "\<exists>y. udp_run 1000 sample_listener sample_exchange (udp_start 0) = Some y
     \<and> (us_entries (sy_udp y) (ua_key (assoc (sy_udp y) 0)) = Some 0 \<or> ua_cancel (assoc (sy_udp y) 0)
        \<or> us_shutdown (sy_udp y) \<or> (\<exists>r t p. sy_forward y = Publishing r t 0 p))"
proof -
  obtain y where y: "udp_run 1000 sample_listener sample_exchange (udp_start 0) = Some y"
    "length (us_heap (sy_udp y)) = 1" "ua_relay (assoc (sy_udp y) 0) = Starting"
    using sample_exchange_runs by blast
  with no_orphan_relay [OF y(1) refl, of 0] show ?thesis by auto
qed

text \<open>C23: maintenance takes an association out of the table only if the flow it has just seen
  deleted is the flow that association was last observed to carry, whatever the other tasks
  did between its look-up, its check and the removal.\<close>

theorem invalidate_checked:
  assumes "udp_run idle l es (udp_start now) = Some y" "udp_step idle l (Maint e) y = Some y'"
    and "us_entries (sy_udp y) t = Some a" "us_entries (sy_udp y') t \<noteq> Some a"
  shows "\<exists>i g. sy_maint y = Inv_removing t a i g
    \<and> ua_flow_identity (assoc (sy_udp y) a) = Some (i, g) \<and> us_entries (sy_udp y') t = None"
proof -
  have "maint_ok (sy_maint y) (sy_udp y)" using maint_ok_reachable [OF assms(1)] .
  with assms(2-4) show ?thesis
    by (auto simp: maint_step_def op_defs split: option.splits prod.splits maint_pc.splits
        maint_event.splits if_splits)
qed

theorem invalidate_checked_witness:
  "\<exists>y i g. udp_run 1000 sample_listener sample_invalidation (udp_start 0) = Some y
     \<and> ua_flow_identity (assoc (sy_udp y) 0) = Some (i, g)"
proof -
  let ?t = "forward_tuple sample_listener sample_client"
  obtain y where y: "udp_run 1000 sample_listener sample_invalidation (udp_start 0) = Some y"
    "us_entries (sy_udp y) ?t = Some 0" "sy_maint y = Inv_removing ?t 0 7 1"
    using sample_invalidation_runs by blast
  obtain y' where y': "udp_step 1000 sample_listener (Maint MaintProceed) y = Some y'"
    "us_entries (sy_udp y') ?t \<noteq> Some 0"
    using y by (simp add: maint_step_def op_defs)
  show ?thesis using invalidate_checked [OF y(1) y'(1) y(2) y'(2)] y(1) by blast
qed

text \<open>Waiting for a relay to stop can always end. A spawned relay that was told to stop, or
  that runs while the proxy shuts down, is done after at most five steps of its own.\<close>

theorem stopping_relay_finishes:
  assumes "a < length (us_heap (sy_udp y))" "ua_relay (assoc (sy_udp y) a) \<noteq> Unspawned"
    and "us_shutdown (sy_udp y) \<or> ua_cancel (assoc (sy_udp y) a)"
  shows "\<exists>es y'. length es \<le> 5 \<and> set es \<subseteq> range (Relay a)
    \<and> udp_run idle l es y = Some y' \<and> relay_done (sy_udp y') a"
proof -
  let ?es = "map (Relay a) (stop_events (ua_relay (assoc (sy_udp y) a)) (us_shutdown (sy_udp y)))"
  have "length ?es \<le> 5" "set ?es \<subseteq> range (Relay a)"
    by (cases "ua_relay (assoc (sy_udp y) a)"; auto)+
  then show ?thesis using stop_events_run [OF assms(1,2), of "us_shutdown (sy_udp y)" idle l] assms(3) by blast
qed

theorem stopping_relay_finishes_witness:
  "\<exists>y es y'. udp_run 1000 sample_listener (sample_exchange @ [Stop]) (udp_start 0) = Some y
     \<and> udp_run 1000 sample_listener es y = Some y' \<and> relay_done (sy_udp y') 0"
proof -
  obtain y where y: "udp_run 1000 sample_listener (sample_exchange @ [Stop]) (udp_start 0) = Some y"
    "0 < length (us_heap (sy_udp y))" "ua_relay (assoc (sy_udp y) 0) \<noteq> Unspawned" "us_shutdown (sy_udp y)"
    by (simp add: sample_simps)
  show ?thesis
    using stopping_relay_finishes [OF y(2,3) disjI1 [OF y(4)], of 1000 sample_listener] y(1) by blast
qed


end
