(* ===== verification/Conditional_Context.thy ===== *)
theory Conditional_Context
  imports Host_Types
begin

text \<open>
  The shared state of the Windows conditional-accept listener
  (\<open>mod conditional\<close> and the attempt types of \<open>crates/host-proxy/src/lib.rs\<close>): deferred
  attempts, their admission counter, the callback context, the condition callback of
  \<open>WSAAccept\<close>, and the operations on the context that its three threads perform.

  A method that takes the lock, releases it and then goes on with atomic operations is
  split there: its definition performs the lock section and returns the rest as a list of
  \<open>micro\<close> operations, each one atomic, which the thread runs afterwards. Closing a socket that
  goes out of scope is such an operation too. A compare-and-swap loop is its last iteration:
  the one that succeeds, or the one that finds the limit reached.
\<close>

section \<open>Attempts\<close>

datatype attempt_state = Deferred | Ready | Claimed | Rejected | AttemptCancelled

fun from_raw :: "u8 \<Rightarrow> attempt_state" where
  "from_raw v =
     (if v = 0 then Deferred else if v = 1 then Ready else if v = 2 then Claimed
      else if v = 3 then Rejected else AttemptCancelled)"

fun as_raw :: "attempt_state \<Rightarrow> u8" where
  "as_raw Deferred = 0"
| "as_raw Ready = 1"
| "as_raw Claimed = 2"
| "as_raw Rejected = 3"
| "as_raw AttemptCancelled = 4"

declare from_raw.simps [simp del]

record request_id =
  ri_tuple :: host_tuple
  ri_generation :: u64

record attempt =
  at_id :: request_id
  at_deferred_at :: nat
  at_state :: u8
  at_released :: bool

definition attempt_new :: "request_id \<Rightarrow> nat \<Rightarrow> attempt" where
  "attempt_new i now =
     \<lparr>at_id = i, at_deferred_at = now, at_state = as_raw Deferred, at_released = False\<rparr>"

definition attempt_state_of :: "attempt \<Rightarrow> attempt_state" where
  "attempt_state_of a = from_raw (at_state a)"

definition store_state :: "attempt_state \<Rightarrow> attempt \<Rightarrow> attempt" where
  "store_state st a = a\<lparr>at_state := as_raw st\<rparr>"

definition mark_attempt_ready :: "attempt \<Rightarrow> bool \<times> attempt" where
  "mark_attempt_ready a =
     (if at_state a = as_raw Deferred then (True, store_state Ready a) else (False, a))"

definition claim_ready_attempt :: "attempt \<Rightarrow> bool \<times> attempt" where
  "claim_ready_attempt a =
     (if at_state a = as_raw Ready then (True, store_state Claimed a) else (False, a))"

section \<open>Admissions\<close>

text \<open>\<open>fetch_sub\<close> on an atomic \<open>usize\<close> wraps.\<close>

definition fetch_sub_one :: "usize \<Rightarrow> usize" where
  "fetch_sub_one n = (if n = 0 then usize_max else n - 1)"

record admissions =
  ad_limit :: usize
  ad_pending :: usize
  ad_next_generation :: u64

definition admissions_new :: "usize \<Rightarrow> admissions" where
  "admissions_new limit = \<lparr>ad_limit = limit, ad_pending = 0, ad_next_generation = 1\<rparr>"

definition reserve :: "host_tuple \<Rightarrow> nat \<Rightarrow> admissions \<Rightarrow> (attempt \<times> admissions) option" where
  "reserve t now ad =
     (if ad_pending ad \<ge> ad_limit ad then None
      else Some
        (attempt_new \<lparr>ri_tuple = t, ri_generation = ad_next_generation ad\<rparr> now,
         ad\<lparr>ad_pending := ad_pending ad + 1, ad_next_generation := ad_next_generation ad + 1\<rparr>))"

definition release :: "attempt \<Rightarrow> admissions \<Rightarrow> admissions" where
  "release a ad = (if at_released a then ad else ad\<lparr>ad_pending := fetch_sub_one (ad_pending ad)\<rparr>)"

definition conditional_preconnect_budget :: "nat \<Rightarrow> nat \<Rightarrow> proxy_error + duration" where
  "conditional_preconnect_budget now deferred_at =
     (let elapsed = now - deferred_at in
      if elapsed \<le> CONTROL_RPC_TIMEOUT then Inr (CONTROL_RPC_TIMEOUT - elapsed)
      else Inl (Control ''conditional preconnect timed out before it started''))"

section \<open>Sockets\<close>

type_synonym socket = nat

definition INVALID_SOCKET :: socket where "INVALID_SOCKET = usize_max"

record prepared_socket =
  ps_socket :: socket
  ps_destination :: socket_addr

record attempt_slot =
  sl_attempt :: attempt
  sl_prepared :: "prepared_socket option"

definition slot_new :: "attempt \<Rightarrow> attempt_slot" where
  "slot_new a = \<lparr>sl_attempt = a, sl_prepared = None\<rparr>"

abbreviation slot_id :: "attempt_slot \<Rightarrow> request_id" where
  "slot_id sl \<equiv> at_id (sl_attempt sl)"

abbreviation slot_state :: "attempt_slot \<Rightarrow> attempt_state" where
  "slot_state sl \<equiv> attempt_state_of (sl_attempt sl)"

definition store_slot_state :: "attempt_state \<Rightarrow> attempt_slot \<Rightarrow> attempt_slot" where
  "store_slot_state st sl = sl\<lparr>sl_attempt := store_state st (sl_attempt sl)\<rparr>"

section \<open>Atomic operations left to a thread\<close>

datatype micro =
    M_Release attempt
  | M_Swap
  | M_Sub
  | M_Close socket
  | M_Wake

definition drop_prepared :: "prepared_socket option \<Rightarrow> micro list" where
  "drop_prepared p = (case p of None \<Rightarrow> [] | Some x \<Rightarrow> [M_Close (ps_socket x)])"

section \<open>The context\<close>

text \<open>\<open>cx_requests\<close> and \<open>cx_receiver\<close> are the bounded request channel behind \<open>request_sender\<close>:
  the number of queued messages (they carry no data) and whether the receiver is alive.
  \<open>cx_wake_event\<close> is whether the manual-reset event is signalled.\<close>

record context_state =
  cx_admissions :: admissions
  cx_attempt :: "attempt_slot option"
  cx_requests :: nat
  cx_receiver :: bool
  cx_accepting :: bool
  cx_handoffs :: usize
  cx_handoff_reserved :: bool
  cx_accepted_generation :: u64
  cx_wake_event :: bool

definition CONDITIONAL_ATTEMPT_CAPACITY :: usize where "CONDITIONAL_ATTEMPT_CAPACITY = 1"

definition context_new :: context_state where
  "context_new =
     \<lparr>cx_admissions = admissions_new CONDITIONAL_ATTEMPT_CAPACITY, cx_attempt = None,
      cx_requests = 0, cx_receiver = True, cx_accepting = True, cx_handoffs = 0,
      cx_handoff_reserved = False, cx_accepted_generation = 0, cx_wake_event = False\<rparr>"

definition wake :: "context_state \<Rightarrow> context_state" where
  "wake cx = cx\<lparr>cx_wake_event := True\<rparr>"

definition deferred_attempt :: "context_state \<Rightarrow> (request_id \<times> nat) option" where
  "deferred_attempt cx =
     (case cx_attempt cx of
        None \<Rightarrow> None
      | Some sl \<Rightarrow>
          if slot_state sl = Deferred then Some (slot_id sl, at_deferred_at (sl_attempt sl))
          else None)"

definition attempt_state_for :: "request_id \<Rightarrow> context_state \<Rightarrow> attempt_state option" where
  "attempt_state_for i cx =
     (case cx_attempt cx of
        None \<Rightarrow> None
      | Some sl \<Rightarrow> if slot_id sl = i then Some (slot_state sl) else None)"

definition reserve_handoff :: "context_state \<Rightarrow> context_state option" where
  "reserve_handoff cx =
     (if cx_handoffs cx \<ge> ad_limit (cx_admissions cx) then None
      else Some (cx\<lparr>cx_handoffs := cx_handoffs cx + 1, cx_handoff_reserved := True\<rparr>))"

definition release_handoff :: "context_state \<Rightarrow> context_state" where
  "release_handoff cx = cx\<lparr>cx_handoffs := fetch_sub_one (cx_handoffs cx)\<rparr>"

text \<open>\<open>release_handoff_reservation\<close> is a swap, followed by \<open>release_handoff\<close> when the swap found
  a reservation.\<close>

definition swap_reservation :: "context_state \<Rightarrow> micro list \<times> context_state" where
  "swap_reservation cx =
     (if cx_handoff_reserved cx then ([M_Sub], cx\<lparr>cx_handoff_reserved := False\<rparr>) else ([], cx))"

definition release_handoff_reservation :: "context_state \<Rightarrow> context_state" where
  "release_handoff_reservation cx =
     (case swap_reservation cx of (ms, cx) \<Rightarrow> if ms = [] then cx else release_handoff cx)"

definition stop_and_reject_pending :: "context_state \<Rightarrow> micro list \<times> context_state" where
  "stop_and_reject_pending cx =
     ((case cx_attempt cx of
         None \<Rightarrow> []
       | Some sl \<Rightarrow>
           M_Release (store_state AttemptCancelled (sl_attempt sl)) # drop_prepared (sl_prepared sl))
        @ [M_Swap, M_Wake],
      cx\<lparr>cx_accepting := False, cx_attempt := None\<rparr>)"

definition reject_and_release :: "attempt_slot \<Rightarrow> attempt_state \<Rightarrow> micro list" where
  "reject_and_release sl st =
     [M_Swap, M_Release (store_state st (sl_attempt sl))] @ drop_prepared (sl_prepared sl)"

definition take_claimed :: "u64 \<Rightarrow> context_state \<Rightarrow> (attempt_slot \<times> context_state) option" where
  "take_claimed generation cx =
     (case cx_attempt cx of
        None \<Rightarrow> None
      | Some sl \<Rightarrow>
          if ri_generation (slot_id sl) = generation \<and> slot_state sl = Claimed
          then Some (sl, cx\<lparr>cx_attempt := None\<rparr>) else None)"

definition reject_claimed_generation :: "u64 \<Rightarrow> context_state \<Rightarrow> micro list \<times> context_state" where
  "reject_claimed_generation generation cx =
     (case take_claimed generation cx of
        None \<Rightarrow> ([], cx)
      | Some (sl, cx) \<Rightarrow> (reject_and_release sl Rejected, cx))"

definition reject_active_attempt :: "context_state \<Rightarrow> micro list \<times> context_state" where
  "reject_active_attempt cx =
     (case cx_attempt cx of
        None \<Rightarrow> ([], cx)
      | Some sl \<Rightarrow> (reject_and_release sl Rejected, cx\<lparr>cx_attempt := None\<rparr>))"

definition attempt_terminal :: "context_state \<Rightarrow> bool" where
  "attempt_terminal cx =
     (case cx_attempt cx of
        None \<Rightarrow> False
      | Some sl \<Rightarrow> slot_state sl \<in> {Rejected, AttemptCancelled})"

fun run_micro :: "micro \<Rightarrow> context_state \<Rightarrow> micro list \<times> socket list \<times> context_state" where
  "run_micro (M_Release a) cx = ([], [], cx\<lparr>cx_admissions := release a (cx_admissions cx)\<rparr>)"
| "run_micro M_Swap cx = (case swap_reservation cx of (ms, cx) \<Rightarrow> (ms, [], cx))"
| "run_micro M_Sub cx = ([], [], release_handoff cx)"
| "run_micro (M_Close x) cx = ([], if x = INVALID_SOCKET then [] else [x], cx)"
| "run_micro M_Wake cx = ([], [], wake cx)"

section \<open>The condition callback\<close>

datatype condition_result = CF_ACCEPT | CF_REJECT | CF_DEFER

text \<open>A \<open>WsaBuf\<close> whose pointer is null is \<open>None\<close>.\<close>

type_synonym wsa_buf = "bytes option"

definition socket_addr_from_wsa_buf :: "wsa_buf option \<Rightarrow> socket_addr option" where
  "socket_addr_from_wsa_buf buffer =
     (case buffer of
        Some (Some bs) \<Rightarrow>
          if length bs < 2 then None
          else
            let family = (from_ne_bytes (slice 0 2 bs) :: u16) in
            if length bs < 4 then None
            else
              let port = from_be_bytes (slice 2 4 bs) in
              if family = 2 \<and> length bs \<ge> 16
              then Some (SocketAddrV4 (from_be_bytes (slice 4 8 bs)) port)
              else if family = 23 \<and> length bs \<ge> 28
              then Some (SocketAddrV6 (from_be_bytes (slice 8 24 bs)) port 0
                           (from_ne_bytes (slice 24 28 bs)))
              else None
      | _ \<Rightarrow> None)"

definition callback_tuple :: "wsa_buf option \<Rightarrow> wsa_buf option \<Rightarrow> host_tuple option" where
  "callback_tuple caller callee =
     (case socket_addr_from_wsa_buf caller of
        None \<Rightarrow> None
      | Some source \<Rightarrow>
          (case socket_addr_from_wsa_buf callee of
             None \<Rightarrow> None
           | Some destination \<Rightarrow>
               if is_ipv4 (sa_ip source) \<noteq> is_ipv4 (sa_ip destination) then None
               else Some \<lparr>ht_source = source, ht_destination = destination,
                          ht_protocol = TCP_PROTOCOL\<rparr>))"

definition revisit_attempt ::
    "attempt_slot \<Rightarrow> host_tuple \<Rightarrow> context_state \<Rightarrow> condition_result \<times> context_state" where
  "revisit_attempt sl t cx =
     (if ri_tuple (slot_id sl) \<noteq> t then (CF_REJECT, cx)
      else if \<not> cx_accepting cx
      then (CF_REJECT, cx\<lparr>cx_attempt := Some (store_slot_state AttemptCancelled sl)\<rparr>)
      else
        (case slot_state sl of
           Deferred \<Rightarrow> (CF_DEFER, cx)
         | Ready \<Rightarrow>
             (case reserve_handoff cx of
                None \<Rightarrow> (CF_REJECT, cx\<lparr>cx_attempt := Some (store_slot_state Rejected sl)\<rparr>)
              | Some cx \<Rightarrow>
                  (case claim_ready_attempt (sl_attempt sl) of
                     (True, a) \<Rightarrow>
                       (CF_ACCEPT,
                        cx\<lparr>cx_attempt := Some (sl\<lparr>sl_attempt := a\<rparr>),
                           cx_accepted_generation := ri_generation (at_id a)\<rparr>)
                   | (False, a) \<Rightarrow>
                       (CF_REJECT,
                        (release_handoff_reservation cx)
                          \<lparr>cx_attempt := Some (store_slot_state Rejected sl)\<rparr>)))
         | Claimed \<Rightarrow> (CF_REJECT, cx)
         | Rejected \<Rightarrow> (CF_REJECT, cx)
         | AttemptCancelled \<Rightarrow> (CF_REJECT, cx)))"

definition try_send_request :: "context_state \<Rightarrow> context_state option" where
  "try_send_request cx =
     (if cx_receiver cx \<and> cx_requests cx < CONDITIONAL_ATTEMPT_CAPACITY
      then Some (cx\<lparr>cx_requests := cx_requests cx + 1\<rparr>) else None)"

definition admit_attempt :: "host_tuple \<Rightarrow> nat \<Rightarrow> context_state \<Rightarrow> condition_result \<times> context_state" where
  "admit_attempt t now cx =
     (if \<not> cx_accepting cx then (CF_REJECT, cx)
      else
        (case reserve t now (cx_admissions cx) of
           None \<Rightarrow> (CF_REJECT, cx)
         | Some (a, ad) \<Rightarrow>
             (case try_send_request (cx\<lparr>cx_admissions := ad, cx_attempt := Some (slot_new a)\<rparr>) of
                None \<Rightarrow>
                  (CF_REJECT,
                   (release_handoff_reservation (cx\<lparr>cx_admissions := ad\<rparr>))
                     \<lparr>cx_admissions := release (store_state Rejected a) ad\<rparr>)
              | Some cx \<Rightarrow> (CF_DEFER, wake cx))))"

text \<open>\<open>busy\<close> is whether another thread holds the lock of the slot, in which case \<open>try_lock\<close>
  fails.\<close>

definition condition_callback ::
    "bool \<Rightarrow> nat \<Rightarrow> wsa_buf option \<Rightarrow> wsa_buf option \<Rightarrow> context_state
       \<Rightarrow> condition_result \<times> context_state" where
  "condition_callback busy now caller callee cx =
     (case callback_tuple caller callee of
        None \<Rightarrow> (CF_REJECT, cx)
      | Some t \<Rightarrow>
          if busy then (CF_REJECT, cx)
          else
            (case cx_attempt cx of
               Some sl \<Rightarrow> revisit_attempt sl t cx
             | None \<Rightarrow> admit_attempt t now cx))"

section \<open>Worker results\<close>

datatype worker_result =
    WorkerReady request_id prepared_socket
  | WorkerRejected request_id proxy_error

fun result_id :: "worker_result \<Rightarrow> request_id" where
  "result_id (WorkerReady i p) = i"
| "result_id (WorkerRejected i e) = i"

fun drop_result :: "worker_result \<Rightarrow> micro list" where
  "drop_result (WorkerReady i p) = [M_Close (ps_socket p)]"
| "drop_result (WorkerRejected i e) = []"

definition complete_attempt ::
    "worker_result \<Rightarrow> attempt_slot \<Rightarrow> context_state \<Rightarrow> micro list \<times> context_state" where
  "complete_attempt r sl cx =
     (case r of
        WorkerReady i p \<Rightarrow>
          (case mark_attempt_ready (sl_attempt sl) of
             (True, a) \<Rightarrow>
               (drop_prepared (sl_prepared sl),
                cx\<lparr>cx_attempt := Some \<lparr>sl_attempt = a, sl_prepared = Some p\<rparr>\<rparr>)
           | (False, a) \<Rightarrow>
               (drop_prepared (sl_prepared sl) @ drop_result r,
                cx\<lparr>cx_attempt := Some \<lparr>sl_attempt = a, sl_prepared = None\<rparr>\<rparr>))
      | WorkerRejected i e \<Rightarrow> ([], cx\<lparr>cx_attempt := Some (store_slot_state Rejected sl)\<rparr>))"

definition apply_worker_result :: "worker_result \<Rightarrow> context_state \<Rightarrow> micro list \<times> context_state" where
  "apply_worker_result r cx =
     (case cx_attempt cx of
        None \<Rightarrow> (drop_result r, cx)
      | Some sl \<Rightarrow>
          if slot_id sl \<noteq> result_id r \<or> slot_state sl \<noteq> Deferred then (drop_result r, cx)
          else complete_attempt r sl cx)"

text \<open>\<open>preconnect_attempt\<close>: the budget, then a race between the work, its deadline and the
  cancellation. The answers of the control client and of the socket layer are arguments.\<close>

datatype preconnect_race = WorkFinished | BudgetSpent | AttemptWithdrawn

definition preconnect_work ::
    "host_tuple \<Rightarrow> (proxy_error + original_destination) \<Rightarrow> (proxy_error + socket)
       \<Rightarrow> proxy_error + prepared_socket" where
  "preconnect_work t answer connect =
     and_then answer (\<lambda>mapping.
     and_then (validate_tcp_mapping t mapping) (\<lambda>_.
     and_then connect (\<lambda>outbound.
     Inr \<lparr>ps_socket = outbound, ps_destination = od_address mapping\<rparr>)))"

definition preconnect_attempt ::
    "nat \<Rightarrow> preconnect_race \<Rightarrow> (proxy_error + original_destination) \<Rightarrow> (proxy_error + socket)
       \<Rightarrow> request_id \<Rightarrow> nat \<Rightarrow> proxy_error + prepared_socket" where
  "preconnect_attempt now race answer connect i deferred_at =
     and_then (conditional_preconnect_budget now deferred_at) (\<lambda>remaining.
     (case race of
        WorkFinished \<Rightarrow> preconnect_work (ri_tuple i) answer connect
      | BudgetSpent \<Rightarrow> Inl (Control ''conditional preconnect timed out'')
      | AttemptWithdrawn \<Rightarrow> Inl (Control ''conditional preconnect cancelled'')))"

section \<open>Winsock errors\<close>

definition WSAEWOULDBLOCK :: int where "WSAEWOULDBLOCK = 10035"
definition WSATRY_AGAIN :: int where "WSATRY_AGAIN = 11002"
definition WSAECONNRESET :: int where "WSAECONNRESET = 10054"
definition WSAECONNABORTED :: int where "WSAECONNABORTED = 10053"
definition WSAETIMEDOUT :: int where "WSAETIMEDOUT = 10060"
definition WSAECONNREFUSED :: int where "WSAECONNREFUSED = 10061"
definition WSAEACCES :: int where "WSAEACCES = 10013"

definition is_conditional_client_error :: "int \<Rightarrow> bool" where
  "is_conditional_client_error e \<longleftrightarrow>
     e \<in> {WSAEWOULDBLOCK, WSATRY_AGAIN, WSAECONNRESET, WSAECONNABORTED, WSAETIMEDOUT,
          WSAECONNREFUSED, WSAEACCES}"

definition is_transient_error :: "int \<Rightarrow> bool" where
  "is_transient_error e \<longleftrightarrow> e = WSAEWOULDBLOCK \<or> e = WSATRY_AGAIN"

end
