(* ===== verification/Conditional_Accept.thy ===== *)
theory Conditional_Accept
  imports Conditional_Context
begin

text \<open>
  The three threads of the Windows conditional-accept listener
  (\<open>run_tcp_conditional\<close>, \<open>run_coordinator\<close> and \<open>run_preconnect_worker\<close> of
  \<open>crates/host-proxy/src/lib.rs\<close>) as interleaved steps over the context they share. A
  program counter names the point a thread has reached; one step performs one lock section,
  one atomic operation, one channel operation or one call to the system. The atomic
  operations that a method leaves to its thread are a list that the thread works off, one
  step each, before it goes on. An event carries what the outside world supplies: what
  Winsock passes to the callback and returns, the answer of the control client, a failure
  to start a thread. \<open>None\<close> means that the event cannot happen there.

  A socket is named by the system when it is opened; a name is not used twice. Lists record
  the sockets opened and closed, the addresses Winsock presented for an accepted socket, the
  address an outbound socket was connected to, and the answers to lookups; no thread reads
  them. A thread panic is modelled where foreign code runs, in the worker's lookup.
\<close>

section \<open>State\<close>

datatype thread = Coordinator | Worker | Listener

record handoff =
  ho_client :: socket
  ho_outbound :: prepared_socket
  ho_tuple :: host_tuple

record session =
  se_accepted :: socket
  se_outbound :: socket
  se_tuple :: host_tuple
  se_destination :: socket_addr

type_synonym outcome = "proxy_error + unit"

datatype coordinator_pc =
    C_Unstarted
  | C_Check
  | C_Drain
  | C_Accept
  | C_Returned socket
  | C_Taken attempt_slot socket u64
  | C_Transfer prepared_socket socket host_tuple u64
  | C_Unmatched u64
  | C_Setup handoff
  | C_Send handoff
  | C_Failed int string
  | C_Terminal int string
  | C_RejectActive int string
  | C_Judge int string
  | C_Wait
  | C_Stop outcome
  | C_Exit outcome
  | C_End outcome

datatype worker_pc =
    W_Unstarted
  | W_Start
  | W_Check
  | W_Recv
  | W_Got
  | W_Snap request_id nat
  | W_Work request_id nat
  | W_Send worker_result
  | W_Stop proxy_error
  | W_Exit outcome
  | W_End outcome

datatype listener_pc =
    T_Spawn_Worker
  | T_Spawn_Coordinator
  | T_Startup_Stop string
  | T_Startup_Join string
  | T_Loop
  | T_Convert handoff
  | T_Stop
  | T_Close
  | T_Abort
  | T_Join
  | T_End outcome

record conditional_state =
  cs_cx :: context_state
  cs_c :: coordinator_pc
  cs_w :: worker_pc
  cs_t :: listener_pc
  cs_todo :: "thread \<Rightarrow> micro list"
  cs_listener :: "socket option"
  cs_results :: "worker_result list"
  cs_results_open :: bool
  cs_queue :: "handoff list"
  cs_queue_open :: bool
  cs_sessions :: "session list"
  cs_opened :: "socket list"
  cs_closed :: "socket list"
  cs_peers :: "(socket \<times> host_tuple) list"
  cs_connected :: "(socket \<times> socket_addr) list"
  cs_answers :: "(request_id \<times> original_destination) list"

definition conditional_init :: "socket \<Rightarrow> conditional_state" where
  "conditional_init l =
     \<lparr>cs_cx = context_new, cs_c = C_Unstarted, cs_w = W_Unstarted, cs_t = T_Spawn_Worker,
      cs_todo = (\<lambda>_. []), cs_listener = Some l, cs_results = [], cs_results_open = True,
      cs_queue = [], cs_queue_open = True, cs_sessions = [], cs_opened = [l], cs_closed = [],
      cs_peers = [], cs_connected = [], cs_answers = []\<rparr>"

definition leave :: "thread \<Rightarrow> micro list \<Rightarrow> conditional_state \<Rightarrow> conditional_state" where
  "leave th ms s = s\<lparr>cs_todo := (cs_todo s)(th := ms)\<rparr>"

definition drop_handoff :: "handoff \<Rightarrow> micro list" where
  "drop_handoff h = [M_Close (ho_client h), M_Close (ps_socket (ho_outbound h)), M_Sub]"

definition drop_session :: "session \<Rightarrow> micro list" where
  "drop_session x = [M_Close (se_accepted x), M_Close (se_outbound x)]"

definition drop_listener :: "conditional_state \<Rightarrow> micro list" where
  "drop_listener s = (case cs_listener s of None \<Rightarrow> [] | Some l \<Rightarrow> [M_Close l])"

definition fresh_socket :: "socket \<Rightarrow> conditional_state \<Rightarrow> bool" where
  "fresh_socket x s \<longleftrightarrow> x \<noteq> INVALID_SOCKET \<and> x \<notin> set (cs_opened s)"

section \<open>The coordinator\<close>

record callback_call =
  cb_busy :: bool
  cb_now :: nat
  cb_caller :: "wsa_buf option"
  cb_callee :: "wsa_buf option"

datatype wsa_return = WsaReturned socket | WsaFailed int string

datatype wait_result = WaitTimeout | WaitFailed string | WaitSignalled "string option"

datatype coordinator_event =
    C_Go
  | C_WSAAccept "callback_call option" wsa_return
  | C_Nonblocking bool
  | C_Waited wait_result

definition coordinator_check :: "conditional_state \<Rightarrow> conditional_state" where
  "coordinator_check s =
     s\<lparr>cs_c := if cx_accepting (cs_cx s) then C_Drain else C_Stop (Inr ())\<rparr>"

definition coordinator_drain :: "conditional_state \<Rightarrow> conditional_state" where
  "coordinator_drain s =
     (case cs_results s of
        [] \<Rightarrow> s\<lparr>cs_c := C_Accept\<rparr>
      | r # rs \<Rightarrow>
          (case apply_worker_result r (cs_cx s) of
             (ms, cx) \<Rightarrow> leave Coordinator ms (s\<lparr>cs_cx := cx, cs_results := rs\<rparr>)))"

definition invoke_callback ::
    "callback_call option \<Rightarrow> context_state \<Rightarrow> condition_result \<times> context_state" where
  "invoke_callback call cx =
     (case call of
        None \<Rightarrow> (CF_REJECT, cx)
      | Some c \<Rightarrow> condition_callback (cb_busy c) (cb_now c) (cb_caller c) (cb_callee c) cx)"

definition presented :: "callback_call option \<Rightarrow> host_tuple option" where
  "presented call =
     (case call of None \<Rightarrow> None | Some c \<Rightarrow> callback_tuple (cb_caller c) (cb_callee c))"

text \<open>Winsock may invoke the callback once and returns a socket or an error. The tuple of the
  returned socket is the one the callback was shown.\<close>

definition coordinator_accept ::
    "callback_call option \<Rightarrow> wsa_return \<Rightarrow> conditional_state \<Rightarrow> conditional_state option" where
  "coordinator_accept call r s =
     (case invoke_callback call ((cs_cx s)\<lparr>cx_accepted_generation := 0\<rparr>) of
        (answer, cx) \<Rightarrow>
          (case r of
             WsaReturned x \<Rightarrow>
               if fresh_socket x s
               then Some (s\<lparr>cs_cx := cx, cs_c := C_Returned x, cs_opened := x # cs_opened s,
                            cs_peers := (case presented call of
                                           None \<Rightarrow> cs_peers s
                                         | Some t \<Rightarrow> (x, t) # cs_peers s)\<rparr>)
               else None
           | WsaFailed e m \<Rightarrow> Some (s\<lparr>cs_cx := cx, cs_c := C_Failed e m\<rparr>)))"

definition coordinator_returned :: "socket \<Rightarrow> conditional_state \<Rightarrow> conditional_state" where
  "coordinator_returned x s =
     (let generation = cx_accepted_generation (cs_cx s) in
      if generation = 0 then leave Coordinator [M_Close x] (s\<lparr>cs_c := C_Wait\<rparr>)
      else
        (case take_claimed generation (cs_cx s) of
           None \<Rightarrow> leave Coordinator [M_Close x] (s\<lparr>cs_c := C_Unmatched generation\<rparr>)
         | Some (sl, cx) \<Rightarrow> s\<lparr>cs_cx := cx, cs_c := C_Taken sl x generation\<rparr>))"

definition coordinator_taken ::
    "attempt_slot \<Rightarrow> socket \<Rightarrow> u64 \<Rightarrow> conditional_state \<Rightarrow> conditional_state" where
  "coordinator_taken sl x generation s =
     (case sl_prepared sl of
        None \<Rightarrow>
          leave Coordinator [M_Swap, M_Release (sl_attempt sl), M_Close x]
            (s\<lparr>cs_c := C_Unmatched generation\<rparr>)
      | Some p \<Rightarrow>
          leave Coordinator [M_Release (sl_attempt sl)]
            (s\<lparr>cs_c := C_Transfer p x (ri_tuple (slot_id sl)) generation\<rparr>))"

definition coordinator_transfer ::
    "prepared_socket \<Rightarrow> socket \<Rightarrow> host_tuple \<Rightarrow> u64 \<Rightarrow> conditional_state \<Rightarrow> conditional_state" where
  "coordinator_transfer p x t generation s =
     (if cx_handoff_reserved (cs_cx s)
      then s\<lparr>cs_cx := (cs_cx s)\<lparr>cx_handoff_reserved := False\<rparr>,
             cs_c := C_Setup \<lparr>ho_client = x, ho_outbound = p, ho_tuple = t\<rparr>\<rparr>
      else leave Coordinator [M_Close (ps_socket p), M_Close x]
             (s\<lparr>cs_c := C_Unmatched generation\<rparr>))"

definition coordinator_unmatched :: "u64 \<Rightarrow> conditional_state \<Rightarrow> conditional_state" where
  "coordinator_unmatched generation s =
     (case reject_claimed_generation generation (cs_cx s) of
        (ms, cx) \<Rightarrow> leave Coordinator ms (s\<lparr>cs_cx := cx, cs_c := C_Wait\<rparr>))"

definition coordinator_setup :: "bool \<Rightarrow> handoff \<Rightarrow> conditional_state \<Rightarrow> conditional_state" where
  "coordinator_setup ok h s =
     (if ok then s\<lparr>cs_c := C_Send h\<rparr>
      else leave Coordinator (drop_handoff h) (s\<lparr>cs_c := C_Wait\<rparr>))"

definition coordinator_send :: "handoff \<Rightarrow> conditional_state \<Rightarrow> conditional_state" where
  "coordinator_send h s =
     (if \<not> cs_queue_open s
      then leave Coordinator (drop_handoff h) (s\<lparr>cs_c := C_Stop (Inr ())\<rparr>)
      else if length (cs_queue s) \<ge> ad_limit (cx_admissions (cs_cx s))
      then leave Coordinator (drop_handoff h) (s\<lparr>cs_c := C_Wait\<rparr>)
      else s\<lparr>cs_queue := cs_queue s @ [h], cs_c := C_Wait\<rparr>)"

definition coordinator_failed :: "int \<Rightarrow> string \<Rightarrow> conditional_state \<Rightarrow> conditional_state" where
  "coordinator_failed e m s =
     (let generation = cx_accepted_generation (cs_cx s) in
      case (if generation \<noteq> 0 then reject_claimed_generation generation (cs_cx s)
            else if \<not> is_transient_error e then reject_active_attempt (cs_cx s)
            else ([], cs_cx s)) of
        (ms, cx) \<Rightarrow> leave Coordinator ms (s\<lparr>cs_cx := cx, cs_c := C_Terminal e m\<rparr>))"

definition coordinator_terminal :: "int \<Rightarrow> string \<Rightarrow> conditional_state \<Rightarrow> conditional_state" where
  "coordinator_terminal e m s =
     s\<lparr>cs_c := if attempt_terminal (cs_cx s) then C_RejectActive e m else C_Judge e m\<rparr>"

definition coordinator_reject_active :: "int \<Rightarrow> string \<Rightarrow> conditional_state \<Rightarrow> conditional_state" where
  "coordinator_reject_active e m s =
     (case reject_active_attempt (cs_cx s) of
        (ms, cx) \<Rightarrow> leave Coordinator ms (s\<lparr>cs_cx := cx, cs_c := C_Judge e m\<rparr>))"

definition coordinator_judge :: "int \<Rightarrow> string \<Rightarrow> conditional_state \<Rightarrow> conditional_state" where
  "coordinator_judge e m s =
     s\<lparr>cs_c := if is_conditional_client_error e then C_Wait
               else C_Stop (Inl (Io (''WSAAccept: '' @ m)))\<rparr>"

definition coordinator_wait :: "wait_result \<Rightarrow> conditional_state \<Rightarrow> conditional_state option" where
  "coordinator_wait r s =
     (case r of
        WaitTimeout \<Rightarrow> Some (s\<lparr>cs_c := C_Check\<rparr>)
      | WaitFailed m \<Rightarrow> Some (s\<lparr>cs_c := C_Stop (Inl (Io m))\<rparr>)
      | WaitSignalled failure \<Rightarrow>
          if \<not> cx_wake_event (cs_cx s) then None
          else
            (case failure of
               None \<Rightarrow> Some (s\<lparr>cs_cx := (cs_cx s)\<lparr>cx_wake_event := False\<rparr>, cs_c := C_Check\<rparr>)
             | Some m \<Rightarrow> Some (s\<lparr>cs_c := C_Stop (Inl (Io m))\<rparr>)))"

definition coordinator_stop :: "outcome \<Rightarrow> conditional_state \<Rightarrow> conditional_state" where
  "coordinator_stop r s =
     (case stop_and_reject_pending (cs_cx s) of
        (ms, cx) \<Rightarrow> leave Coordinator ms (s\<lparr>cs_cx := cx, cs_c := C_Exit r\<rparr>))"

text \<open>Returning drops the listening socket, the result receiver with the results still in it,
  and the handoff sender.\<close>

definition coordinator_exit :: "outcome \<Rightarrow> conditional_state \<Rightarrow> conditional_state" where
  "coordinator_exit r s =
     leave Coordinator (concat (map drop_result (cs_results s)) @ drop_listener s)
       (s\<lparr>cs_c := C_End r, cs_results := [], cs_results_open := False, cs_listener := None\<rparr>)"

fun coordinator :: "coordinator_event \<Rightarrow> conditional_state \<Rightarrow> conditional_state option" where
  "coordinator C_Go s =
     (case cs_c s of
        C_Check \<Rightarrow> Some (coordinator_check s)
      | C_Drain \<Rightarrow> Some (coordinator_drain s)
      | C_Returned x \<Rightarrow> Some (coordinator_returned x s)
      | C_Taken sl x g \<Rightarrow> Some (coordinator_taken sl x g s)
      | C_Transfer p x t g \<Rightarrow> Some (coordinator_transfer p x t g s)
      | C_Unmatched g \<Rightarrow> Some (coordinator_unmatched g s)
      | C_Send h \<Rightarrow> Some (coordinator_send h s)
      | C_Failed e m \<Rightarrow> Some (coordinator_failed e m s)
      | C_Terminal e m \<Rightarrow> Some (coordinator_terminal e m s)
      | C_RejectActive e m \<Rightarrow> Some (coordinator_reject_active e m s)
      | C_Judge e m \<Rightarrow> Some (coordinator_judge e m s)
      | C_Stop r \<Rightarrow> Some (coordinator_stop r s)
      | C_Exit r \<Rightarrow> Some (coordinator_exit r s)
      | _ \<Rightarrow> None)"
| "coordinator (C_WSAAccept call r) s =
     (if cs_c s = C_Accept then coordinator_accept call r s else None)"
| "coordinator (C_Nonblocking ok) s =
     (case cs_c s of C_Setup h \<Rightarrow> Some (coordinator_setup ok h s) | _ \<Rightarrow> None)"
| "coordinator (C_Waited r) s = (if cs_c s = C_Wait then coordinator_wait r s else None)"

section \<open>The preconnect worker\<close>

datatype worker_event =
    W_Go
  | W_Built "string option"
  | W_Timeout
  | W_Worked nat preconnect_race "proxy_error + original_destination" "proxy_error + socket"
  | W_Panic

definition worker_start :: "string option \<Rightarrow> conditional_state \<Rightarrow> conditional_state" where
  "worker_start failure s =
     s\<lparr>cs_w :=
         (case failure of
            None \<Rightarrow> W_Check
          | Some m \<Rightarrow>
              W_Stop (Control (''conditional preconnect runtime initialization failed: '' @ m)))\<rparr>"

definition worker_check :: "conditional_state \<Rightarrow> conditional_state" where
  "worker_check s = s\<lparr>cs_w := if cx_accepting (cs_cx s) then W_Recv else W_Exit (Inr ())\<rparr>"

text \<open>The worker holds the context and with it the sender of its own channel: the receiver
  never reports a disconnect.\<close>

definition worker_recv :: "conditional_state \<Rightarrow> conditional_state option" where
  "worker_recv s =
     (if cx_requests (cs_cx s) = 0 then None
      else Some (s\<lparr>cs_cx := (cs_cx s)\<lparr>cx_requests := cx_requests (cs_cx s) - 1\<rparr>, cs_w := W_Got\<rparr>))"

definition worker_got :: "conditional_state \<Rightarrow> conditional_state" where
  "worker_got s =
     s\<lparr>cs_w := (case deferred_attempt (cs_cx s) of None \<Rightarrow> W_Check | Some (i, at) \<Rightarrow> W_Snap i at)\<rparr>"

definition worker_snap :: "request_id \<Rightarrow> nat \<Rightarrow> conditional_state \<Rightarrow> conditional_state" where
  "worker_snap i at s =
     s\<lparr>cs_w := if attempt_state_for i (cs_cx s) \<noteq> Some Deferred then W_Check else W_Work i at\<rparr>"

definition withdrawn_in_time :: "preconnect_race \<Rightarrow> request_id \<Rightarrow> conditional_state \<Rightarrow> bool" where
  "withdrawn_in_time race i s \<longleftrightarrow>
     race = AttemptWithdrawn \<longrightarrow> attempt_state_for i (cs_cx s) \<noteq> Some Deferred"

definition worker_work ::
    "nat \<Rightarrow> preconnect_race \<Rightarrow> (proxy_error + original_destination) \<Rightarrow> (proxy_error + socket)
       \<Rightarrow> request_id \<Rightarrow> nat \<Rightarrow> conditional_state \<Rightarrow> conditional_state option" where
  "worker_work now race answer connect i at s =
     (if \<not> withdrawn_in_time race i s then None
      else
        let s' = (case answer of
                    Inl _ \<Rightarrow> s
                  | Inr od \<Rightarrow> s\<lparr>cs_answers := (i, od) # cs_answers s\<rparr>)
        in
        (case preconnect_attempt now race answer connect i at of
           Inl e \<Rightarrow> Some (s'\<lparr>cs_w := W_Send (WorkerRejected i e)\<rparr>)
         | Inr p \<Rightarrow>
             (case (answer, connect) of
                (Inr od, Inr x) \<Rightarrow>
                  if fresh_socket x s
                  then Some (s'\<lparr>cs_w := W_Send (WorkerReady i p), cs_opened := x # cs_opened s,
                                cs_connected := (x, od_address od) # cs_connected s\<rparr>)
                  else None
              | _ \<Rightarrow> None)))"

definition worker_panic :: "conditional_state \<Rightarrow> conditional_state" where
  "worker_panic s =
     s\<lparr>cs_cx := (cs_cx s)\<lparr>cx_receiver := False\<rparr>,
       cs_w := W_Stop (Control ''conditional preconnect worker thread panicked'')\<rparr>"

definition worker_send :: "worker_result \<Rightarrow> conditional_state \<Rightarrow> conditional_state" where
  "worker_send r s =
     (if cs_results_open s
      then leave Worker [M_Wake] (s\<lparr>cs_results := cs_results s @ [r], cs_w := W_Check\<rparr>)
      else leave Worker (drop_result r) (s\<lparr>cs_w := W_Exit (Inr ())\<rparr>))"

definition worker_stop :: "proxy_error \<Rightarrow> conditional_state \<Rightarrow> conditional_state" where
  "worker_stop e s =
     (case stop_and_reject_pending (cs_cx s) of
        (ms, cx) \<Rightarrow> leave Worker ms (s\<lparr>cs_cx := cx, cs_w := W_Exit (Inl e)\<rparr>))"

definition worker_exit :: "outcome \<Rightarrow> conditional_state \<Rightarrow> conditional_state" where
  "worker_exit r s = s\<lparr>cs_cx := (cs_cx s)\<lparr>cx_receiver := False\<rparr>, cs_w := W_End r\<rparr>"

fun worker :: "worker_event \<Rightarrow> conditional_state \<Rightarrow> conditional_state option" where
  "worker W_Go s =
     (case cs_w s of
        W_Check \<Rightarrow> Some (worker_check s)
      | W_Recv \<Rightarrow> worker_recv s
      | W_Got \<Rightarrow> Some (worker_got s)
      | W_Snap i at \<Rightarrow> Some (worker_snap i at s)
      | W_Send r \<Rightarrow> Some (worker_send r s)
      | W_Stop e \<Rightarrow> Some (worker_stop e s)
      | W_Exit r \<Rightarrow> Some (worker_exit r s)
      | _ \<Rightarrow> None)"
| "worker (W_Built failure) s = (if cs_w s = W_Start then Some (worker_start failure s) else None)"
| "worker W_Timeout s = (if cs_w s = W_Recv then Some (s\<lparr>cs_w := W_Check\<rparr>) else None)"
| "worker (W_Worked now race answer connect) s =
     (case cs_w s of W_Work i at \<Rightarrow> worker_work now race answer connect i at s | _ \<Rightarrow> None)"
| "worker W_Panic s = (case cs_w s of W_Work i at \<Rightarrow> Some (worker_panic s) | _ \<Rightarrow> None)"

section \<open>The listener task\<close>

datatype listener_event =
    T_Go
  | T_Spawned "string option"
  | T_Shutdown
  | T_Receive
  | T_Converted bool

definition listener_spawn_worker :: "string option \<Rightarrow> conditional_state \<Rightarrow> conditional_state" where
  "listener_spawn_worker failure s =
     (case failure of
        None \<Rightarrow> s\<lparr>cs_w := W_Start, cs_t := T_Spawn_Coordinator\<rparr>
      | Some m \<Rightarrow>
          leave Listener (drop_listener s)
            (s\<lparr>cs_cx := (cs_cx s)\<lparr>cx_receiver := False\<rparr>, cs_listener := None,
               cs_results_open := False, cs_queue_open := False, cs_t := T_End (Inl (Io m))\<rparr>))"

definition listener_spawn_coordinator ::
    "string option \<Rightarrow> conditional_state \<Rightarrow> conditional_state" where
  "listener_spawn_coordinator failure s =
     (case failure of
        None \<Rightarrow> s\<lparr>cs_c := C_Check, cs_t := T_Loop\<rparr>
      | Some m \<Rightarrow>
          leave Listener (concat (map drop_result (cs_results s)) @ drop_listener s)
            (s\<lparr>cs_results := [], cs_results_open := False, cs_listener := None,
               cs_t := T_Startup_Stop m\<rparr>))"

definition listener_stop :: "listener_pc \<Rightarrow> conditional_state \<Rightarrow> conditional_state" where
  "listener_stop next s =
     (case stop_and_reject_pending (cs_cx s) of
        (ms, cx) \<Rightarrow> leave Listener ms (s\<lparr>cs_cx := cx, cs_t := next\<rparr>))"

definition thread_outcome :: "conditional_state \<Rightarrow> thread \<Rightarrow> outcome option" where
  "thread_outcome s th =
     (if cs_todo s th \<noteq> [] then None
      else
        (case th of
           Coordinator \<Rightarrow> (case cs_c s of C_End r \<Rightarrow> Some r | _ \<Rightarrow> None)
         | Worker \<Rightarrow> (case cs_w s of W_End r \<Rightarrow> Some r | _ \<Rightarrow> None)
         | Listener \<Rightarrow> (case cs_t s of T_End r \<Rightarrow> Some r | _ \<Rightarrow> None)))"

definition listener_startup_join :: "string \<Rightarrow> conditional_state \<Rightarrow> conditional_state option" where
  "listener_startup_join m s =
     (case thread_outcome s Worker of
        None \<Rightarrow> None
      | Some (Inr _) \<Rightarrow> Some (s\<lparr>cs_queue_open := False, cs_t := T_End (Inl (Io m))\<rparr>)
      | Some (Inl e) \<Rightarrow>
          Some (s\<lparr>cs_queue_open := False,
                  cs_t := T_End (Inl (Control
                    (proxy_error_message (Io m)
                     @ ''; worker cleanup after coordinator startup failure failed: ''
                     @ proxy_error_message e)))\<rparr>))"

definition listener_receive :: "conditional_state \<Rightarrow> conditional_state option" where
  "listener_receive s =
     (case cs_queue s of
        h # hs \<Rightarrow> Some (s\<lparr>cs_queue := hs, cs_t := T_Convert h\<rparr>)
      | [] \<Rightarrow> (case cs_c s of C_End _ \<Rightarrow> Some (s\<lparr>cs_t := T_Stop\<rparr>) | _ \<Rightarrow> None))"

definition session_of :: "handoff \<Rightarrow> session" where
  "session_of h =
     \<lparr>se_accepted = ho_client h, se_outbound = ps_socket (ho_outbound h), se_tuple = ho_tuple h,
      se_destination = ps_destination (ho_outbound h)\<rparr>"

definition listener_convert :: "bool \<Rightarrow> handoff \<Rightarrow> conditional_state \<Rightarrow> conditional_state" where
  "listener_convert ok h s =
     (if ok
      then leave Listener [M_Sub]
             (s\<lparr>cs_sessions := cs_sessions s @ [session_of h], cs_t := T_Loop\<rparr>)
      else leave Listener (drop_handoff h) (s\<lparr>cs_t := T_Loop\<rparr>))"

definition listener_close :: "conditional_state \<Rightarrow> conditional_state" where
  "listener_close s =
     leave Listener (concat (map drop_handoff (cs_queue s)))
       (s\<lparr>cs_queue := [], cs_queue_open := False, cs_t := T_Abort\<rparr>)"

definition listener_abort :: "conditional_state \<Rightarrow> conditional_state" where
  "listener_abort s =
     (case cs_sessions s of
        [] \<Rightarrow> s\<lparr>cs_t := T_Join\<rparr>
      | x # xs \<Rightarrow> leave Listener (drop_session x) (s\<lparr>cs_sessions := xs\<rparr>))"

definition listener_join :: "conditional_state \<Rightarrow> conditional_state option" where
  "listener_join s =
     (case (thread_outcome s Coordinator, thread_outcome s Worker) of
        (Some rc, Some rw) \<Rightarrow> Some (s\<lparr>cs_t := T_End (and_then rc (\<lambda>_. rw))\<rparr>)
      | _ \<Rightarrow> None)"

fun listener :: "listener_event \<Rightarrow> conditional_state \<Rightarrow> conditional_state option" where
  "listener T_Go s =
     (case cs_t s of
        T_Startup_Stop m \<Rightarrow> Some (listener_stop (T_Startup_Join m) s)
      | T_Startup_Join m \<Rightarrow> listener_startup_join m s
      | T_Stop \<Rightarrow> Some (listener_stop T_Close s)
      | T_Close \<Rightarrow> Some (listener_close s)
      | T_Abort \<Rightarrow> Some (listener_abort s)
      | T_Join \<Rightarrow> listener_join s
      | _ \<Rightarrow> None)"
| "listener (T_Spawned failure) s =
     (case cs_t s of
        T_Spawn_Worker \<Rightarrow> Some (listener_spawn_worker failure s)
      | T_Spawn_Coordinator \<Rightarrow> Some (listener_spawn_coordinator failure s)
      | _ \<Rightarrow> None)"
| "listener T_Shutdown s = (if cs_t s = T_Loop then Some (s\<lparr>cs_t := T_Stop\<rparr>) else None)"
| "listener T_Receive s = (if cs_t s = T_Loop then listener_receive s else None)"
| "listener (T_Converted ok) s =
     (case cs_t s of T_Convert h \<Rightarrow> Some (listener_convert ok h s) | _ \<Rightarrow> None)"

section \<open>The system\<close>

datatype event =
    Micro thread
  | CoordinatorStep coordinator_event
  | WorkerStep worker_event
  | ListenerStep listener_event
  | SessionEnd nat

definition micro_step :: "thread \<Rightarrow> conditional_state \<Rightarrow> conditional_state option" where
  "micro_step th s =
     (case cs_todo s th of
        [] \<Rightarrow> None
      | m # ms \<Rightarrow>
          (case run_micro m (cs_cx s) of
             (further, closed, cx) \<Rightarrow>
               Some (leave th (further @ ms) (s\<lparr>cs_cx := cx, cs_closed := closed @ cs_closed s\<rparr>))))"

definition session_end :: "nat \<Rightarrow> conditional_state \<Rightarrow> conditional_state option" where
  "session_end k s =
     (if k < length (cs_sessions s)
      then Some (s\<lparr>cs_sessions := take k (cs_sessions s) @ drop (Suc k) (cs_sessions s),
                   cs_closed := [se_accepted (cs_sessions s ! k), se_outbound (cs_sessions s ! k)]
                                  @ cs_closed s\<rparr>)
      else None)"

fun conditional_step :: "event \<Rightarrow> conditional_state \<Rightarrow> conditional_state option" where
  "conditional_step (Micro th) s = micro_step th s"
| "conditional_step (CoordinatorStep e) s = (if cs_todo s Coordinator = [] then coordinator e s else None)"
| "conditional_step (WorkerStep e) s = (if cs_todo s Worker = [] then worker e s else None)"
| "conditional_step (ListenerStep e) s = (if cs_todo s Listener = [] then listener e s else None)"
| "conditional_step (SessionEnd k) s = session_end k s"

fun conditional_run :: "event list \<Rightarrow> conditional_state \<Rightarrow> conditional_state option" where
  "conditional_run [] s = Some s"
| "conditional_run (e # es) s = (case conditional_step e s of None \<Rightarrow> None | Some s' \<Rightarrow> conditional_run es s')"

definition conditional_reachable :: "conditional_state \<Rightarrow> bool" where
  "conditional_reachable s \<longleftrightarrow> (\<exists>l es. l \<noteq> INVALID_SOCKET \<and> conditional_run es (conditional_init l) = Some s)"

end
