(* ===== verification/Conditional_Accounts.thy ===== *)
theory Conditional_Accounts
  imports Conditional_Accept "HOL-Library.Multiset"
begin

text \<open>
  Ownership in the conditional-accept listener: the admission counter, the handoff counter
  and the set of open sockets are, at every step, what the slot, the threads, the channels
  and the sessions hold.
\<close>

section \<open>Accounting\<close>

text \<open>Every admission, every handoff reservation and every socket is held in one place: the
  slot, a thread's program counter, a channel, a session, or an operation still to be run.\<close>

fun micro_pending :: "micro \<Rightarrow> nat" where
  "micro_pending (M_Release a) = (if at_released a then 0 else 1)"
| "micro_pending _ = 0"

fun micro_handoffs :: "micro \<Rightarrow> nat" where
  "micro_handoffs M_Sub = 1"
| "micro_handoffs _ = 0"

fun micro_sockets :: "micro \<Rightarrow> socket multiset" where
  "micro_sockets (M_Close x) = {#x#}"
| "micro_sockets _ = {#}"

definition todo_sum :: "(micro \<Rightarrow> 'a::comm_monoid_add) \<Rightarrow> conditional_state \<Rightarrow> 'a" where
  "todo_sum f s =
     sum_list (map f (cs_todo s Coordinator)) + sum_list (map f (cs_todo s Worker))
     + sum_list (map f (cs_todo s Listener))"

definition slot_pending :: "attempt_slot \<Rightarrow> nat" where
  "slot_pending sl = (if at_released (sl_attempt sl) then 0 else 1)"

fun coordinator_pending :: "coordinator_pc \<Rightarrow> nat" where
  "coordinator_pending (C_Taken sl x g) = slot_pending sl"
| "coordinator_pending _ = 0"

fun coordinator_handoffs :: "coordinator_pc \<Rightarrow> nat" where
  "coordinator_handoffs (C_Setup h) = 1"
| "coordinator_handoffs (C_Send h) = 1"
| "coordinator_handoffs _ = 0"

fun listener_handoffs :: "listener_pc \<Rightarrow> nat" where
  "listener_handoffs (T_Convert h) = 1"
| "listener_handoffs _ = 0"

definition optional :: "('a \<Rightarrow> 'b::zero) \<Rightarrow> 'a option \<Rightarrow> 'b" where
  "optional f x = (case x of None \<Rightarrow> 0 | Some y \<Rightarrow> f y)"

definition prepared_sockets :: "prepared_socket option \<Rightarrow> socket multiset" where
  "prepared_sockets = optional (\<lambda>p. {#ps_socket p#})"

fun result_sockets :: "worker_result \<Rightarrow> socket multiset" where
  "result_sockets (WorkerReady i p) = {#ps_socket p#}"
| "result_sockets (WorkerRejected i e) = {#}"

definition handoff_sockets :: "handoff \<Rightarrow> socket multiset" where
  "handoff_sockets h = {#ho_client h, ps_socket (ho_outbound h)#}"

definition session_sockets :: "session \<Rightarrow> socket multiset" where
  "session_sockets x = {#se_accepted x, se_outbound x#}"

fun coordinator_sockets :: "coordinator_pc \<Rightarrow> socket multiset" where
  "coordinator_sockets (C_Returned x) = {#x#}"
| "coordinator_sockets (C_Taken sl x g) = add_mset x (prepared_sockets (sl_prepared sl))"
| "coordinator_sockets (C_Transfer p x t g) = {#x, ps_socket p#}"
| "coordinator_sockets (C_Setup h) = handoff_sockets h"
| "coordinator_sockets (C_Send h) = handoff_sockets h"
| "coordinator_sockets _ = {#}"

fun worker_sockets :: "worker_pc \<Rightarrow> socket multiset" where
  "worker_sockets (W_Send r) = result_sockets r"
| "worker_sockets _ = {#}"

fun listener_sockets :: "listener_pc \<Rightarrow> socket multiset" where
  "listener_sockets (T_Convert h) = handoff_sockets h"
| "listener_sockets _ = {#}"

definition held_handoffs :: "conditional_state \<Rightarrow> nat" where
  "held_handoffs s =
     coordinator_handoffs (cs_c s) + listener_handoffs (cs_t s) + length (cs_queue s)"

definition held_sockets :: "conditional_state \<Rightarrow> socket multiset" where
  "held_sockets s =
     optional (\<lambda>l. {#l#}) (cs_listener s)
     + coordinator_sockets (cs_c s) + worker_sockets (cs_w s) + listener_sockets (cs_t s)
     + sum_list (map result_sockets (cs_results s)) + sum_list (map handoff_sockets (cs_queue s))
     + sum_list (map session_sockets (cs_sessions s))"

definition slot_sockets :: "context_state \<Rightarrow> socket multiset" where
  "slot_sockets cx = optional (\<lambda>sl. prepared_sockets (sl_prepared sl)) (cx_attempt cx)"

definition owned_sockets :: "conditional_state \<Rightarrow> socket multiset" where
  "owned_sockets s = held_sockets s + slot_sockets (cs_cx s) + todo_sum micro_sockets s"

definition counted :: "nat \<Rightarrow> nat \<Rightarrow> context_state \<Rightarrow> bool" where
  "counted k h cx \<longleftrightarrow>
     ad_limit (cx_admissions cx) = 1
     \<and> ad_pending (cx_admissions cx) \<le> 1 \<and> cx_handoffs cx \<le> 1
     \<and> ad_pending (cx_admissions cx) = optional slot_pending (cx_attempt cx) + k
     \<and> cx_handoffs cx = of_bool (cx_handoff_reserved cx) + h"

definition accounts :: "conditional_state \<Rightarrow> bool" where
  "accounts s \<longleftrightarrow>
     counted (coordinator_pending (cs_c s) + todo_sum micro_pending s)
       (held_handoffs s + todo_sum micro_handoffs s) (cs_cx s)
     \<and> mset (cs_opened s) = mset (cs_closed s) + owned_sockets s
     \<and> distinct (cs_opened s) \<and> INVALID_SOCKET \<notin> set (cs_opened s)"

subsection \<open>Lemmas\<close>

lemma leave_simps [simp]:
  "cs_cx (leave th ms s) = cs_cx s" "cs_c (leave th ms s) = cs_c s"
  "cs_w (leave th ms s) = cs_w s" "cs_t (leave th ms s) = cs_t s"
  "cs_listener (leave th ms s) = cs_listener s" "cs_results (leave th ms s) = cs_results s"
  "cs_results_open (leave th ms s) = cs_results_open s" "cs_queue (leave th ms s) = cs_queue s"
  "cs_queue_open (leave th ms s) = cs_queue_open s" "cs_sessions (leave th ms s) = cs_sessions s"
  "cs_opened (leave th ms s) = cs_opened s" "cs_closed (leave th ms s) = cs_closed s"
  "cs_peers (leave th ms s) = cs_peers s" "cs_connected (leave th ms s) = cs_connected s"
  "cs_answers (leave th ms s) = cs_answers s"
  "cs_todo (leave th ms s) = (cs_todo s)(th := ms)"
  by (simp_all add: leave_def)

lemma todo_sum_leave:
  "cs_todo s th = [] \<Longrightarrow> todo_sum f (leave th ms s) = todo_sum f s + sum_list (map f ms)"
  by (cases th) (simp_all add: todo_sum_def ac_simps)

lemma todo_sum_micro:
  assumes "cs_todo s th = m # ms"
  shows "todo_sum f s = todo_sum f (leave th ms s) + f m"
    and "todo_sum f (leave th (further @ ms) s) = todo_sum f (leave th ms s) + sum_list (map f further)"
  using assms by (cases th; simp add: todo_sum_def ac_simps)+

lemma todo_sum_same:
  "cs_todo s' = cs_todo s \<Longrightarrow> todo_sum f s' = todo_sum f s"
  by (simp add: todo_sum_def)

lemma optional_simps [simp]: "optional f None = 0" "optional f (Some x) = f x"
  by (simp_all add: optional_def)

lemma todo_sum_update [simp]:
  "todo_sum f (s\<lparr>cs_cx := a\<rparr>) = todo_sum f s" "todo_sum f (s\<lparr>cs_c := b\<rparr>) = todo_sum f s"
  "todo_sum f (s\<lparr>cs_w := c\<rparr>) = todo_sum f s" "todo_sum f (s\<lparr>cs_t := d\<rparr>) = todo_sum f s"
  "todo_sum f (s\<lparr>cs_listener := e\<rparr>) = todo_sum f s"
  "todo_sum f (s\<lparr>cs_results := g\<rparr>) = todo_sum f s"
  "todo_sum f (s\<lparr>cs_results_open := h\<rparr>) = todo_sum f s"
  "todo_sum f (s\<lparr>cs_queue := i\<rparr>) = todo_sum f s"
  "todo_sum f (s\<lparr>cs_queue_open := j\<rparr>) = todo_sum f s"
  "todo_sum f (s\<lparr>cs_sessions := k\<rparr>) = todo_sum f s"
  "todo_sum f (s\<lparr>cs_opened := l\<rparr>) = todo_sum f s" "todo_sum f (s\<lparr>cs_closed := m\<rparr>) = todo_sum f s"
  "todo_sum f (s\<lparr>cs_peers := n\<rparr>) = todo_sum f s"
  "todo_sum f (s\<lparr>cs_connected := p\<rparr>) = todo_sum f s"
  "todo_sum f (s\<lparr>cs_answers := q\<rparr>) = todo_sum f s"
  by (simp_all add: todo_sum_def)

lemma store_state_simps [simp]:
  "at_released (store_state st a) = at_released a" "at_id (store_state st a) = at_id a"
  "at_deferred_at (store_state st a) = at_deferred_at a"
  "at_state (store_state st a) = as_raw st"
  by (simp_all add: store_state_def)

lemma store_slot_state_simps [simp]:
  "sl_prepared (store_slot_state st sl) = sl_prepared sl"
  "sl_attempt (store_slot_state st sl) = store_state st (sl_attempt sl)"
  by (simp_all add: store_slot_state_def)

lemma from_raw_as_raw [simp]: "from_raw (as_raw st) = st"
  by (cases st) (simp_all add: from_raw.simps)

lemma as_raw_eq_iff [simp]: "as_raw a = as_raw b \<longleftrightarrow> a = b"
  by (metis from_raw_as_raw)

lemma attempt_state_simps [simp]:
  "attempt_state_of (store_state st a) = st" "attempt_state_of (attempt_new i now) = Deferred"
  by (simp_all add: attempt_state_of_def attempt_new_def del: as_raw.simps)

lemma state_raw_iff: "st \<noteq> AttemptCancelled \<Longrightarrow> attempt_state_of a = st \<longleftrightarrow> at_state a = as_raw st"
  by (cases st) (auto simp: attempt_state_of_def from_raw.simps)

lemma drop_sums [simp]:
  "sum_list (map micro_pending (drop_prepared p)) = 0"
  "sum_list (map micro_handoffs (drop_prepared p)) = 0"
  "sum_list (map micro_sockets (drop_prepared p)) = prepared_sockets p"
  "sum_list (map micro_pending (drop_result r)) = 0"
  "sum_list (map micro_handoffs (drop_result r)) = 0"
  "sum_list (map micro_sockets (drop_result r)) = result_sockets r"
  "sum_list (map micro_pending (drop_handoff h)) = 0"
  "sum_list (map micro_handoffs (drop_handoff h)) = 1"
  "sum_list (map micro_sockets (drop_handoff h)) = handoff_sockets h"
  "sum_list (map micro_pending (drop_session x)) = 0"
  "sum_list (map micro_handoffs (drop_session x)) = 0"
  "sum_list (map micro_sockets (drop_session x)) = session_sockets x"
  "sum_list (map micro_pending (drop_listener s)) = 0"
  "sum_list (map micro_handoffs (drop_listener s)) = 0"
  "sum_list (map micro_sockets (drop_listener s)) = optional (\<lambda>l. {#l#}) (cs_listener s)"
  by (cases r; auto simp: drop_prepared_def drop_handoff_def drop_session_def drop_listener_def
      prepared_sockets_def handoff_sockets_def session_sockets_def split: option.splits)+

lemma drop_list_sums [simp]:
  "sum_list (map micro_pending (concat (map drop_result rs))) = 0"
  "sum_list (map micro_handoffs (concat (map drop_result rs))) = 0"
  "sum_list (map micro_sockets (concat (map drop_result rs))) = sum_list (map result_sockets rs)"
  "sum_list (map micro_pending (concat (map drop_handoff hs))) = 0"
  "sum_list (map micro_handoffs (concat (map drop_handoff hs))) = length hs"
  "sum_list (map micro_sockets (concat (map drop_handoff hs))) = sum_list (map handoff_sockets hs)"
  by (induction rs; simp del: sum_list_eq_0_iff)+ (induction hs; simp del: sum_list_eq_0_iff)+

text \<open>An operation on the context takes over what the thread holds (admissions, handoffs and
  sockets) and ends with what the thread holds then and what it leaves to be done. It is
  balanced when nothing is lost and the counters stay equal to what they count.\<close>

lemma prepared_sockets_simps [simp]:
  "prepared_sockets None = {#}" "prepared_sockets (Some p) = {#ps_socket p#}"
  by (simp_all add: prepared_sockets_def)

type_synonym holding = "nat \<times> nat \<times> socket multiset"

fun balanced :: "context_state \<Rightarrow> holding \<Rightarrow> micro list \<Rightarrow> holding \<Rightarrow> context_state \<Rightarrow> bool" where
  "balanced cx (k, h, so) ms (k', h', so') cx' \<longleftrightarrow>
     (\<forall>i j. counted (i + k) (j + h) cx \<longrightarrow>
        counted (i + k' + sum_list (map micro_pending ms))
          (j + h' + sum_list (map micro_handoffs ms)) cx')
     \<and> slot_sockets cx + so = slot_sockets cx' + so' + sum_list (map micro_sockets ms)"

lemmas balanced_defs = counted_def slot_sockets_def slot_pending_def

lemma balanced_same:
  "\<lbrakk>cx_admissions cx' = cx_admissions cx; cx_attempt cx' = cx_attempt cx;
    cx_handoffs cx' = cx_handoffs cx; cx_handoff_reserved cx' = cx_handoff_reserved cx\<rbrakk>
   \<Longrightarrow> balanced cx (0, 0, {#}) [] (0, 0, {#}) cx'"
  by (simp add: balanced_defs)

lemma balanced_drop:
  "balanced cx (sum_list (map micro_pending ms), sum_list (map micro_handoffs ms),
      sum_list (map micro_sockets ms)) ms (0, 0, {#}) cx"
  by simp

lemma balanced_stop:
  "stop_and_reject_pending cx = (ms, cx') \<Longrightarrow> balanced cx (0, 0, {#}) ms (0, 0, {#}) cx'"
  by (auto simp: stop_and_reject_pending_def balanced_defs split: option.splits)

lemma balanced_reject_claimed:
  "reject_claimed_generation g cx = (ms, cx') \<Longrightarrow> balanced cx (0, 0, {#}) ms (0, 0, {#}) cx'"
  by (auto simp: reject_claimed_generation_def take_claimed_def reject_and_release_def
      balanced_defs split: option.splits if_splits)

lemma balanced_reject_active:
  "reject_active_attempt cx = (ms, cx') \<Longrightarrow> balanced cx (0, 0, {#}) ms (0, 0, {#}) cx'"
  by (auto simp: reject_active_attempt_def reject_and_release_def balanced_defs
      split: option.splits)

lemma balanced_result:
  "apply_worker_result r cx = (ms, cx') \<Longrightarrow> balanced cx (0, 0, result_sockets r) ms (0, 0, {#}) cx'"
  by (auto simp: apply_worker_result_def complete_attempt_def mark_attempt_ready_def balanced_defs
      simp del: sum_list_eq_0_iff split: option.splits if_splits worker_result.splits)

lemma balanced_take:
  "take_claimed g cx = Some (sl, cx')
   \<Longrightarrow> balanced cx (0, 0, {#}) [] (slot_pending sl, 0, prepared_sockets (sl_prepared sl)) cx'"
  by (auto simp: take_claimed_def balanced_defs split: option.splits if_splits)

lemma balanced_transfer:
  "cx_handoff_reserved cx
   \<Longrightarrow> balanced cx (0, 0, {#}) [] (0, 1, {#}) (cx\<lparr>cx_handoff_reserved := False\<rparr>)"
  by (auto simp: balanced_defs)

lemma balanced_revisit:
  "cx_attempt cx = Some sl \<Longrightarrow> revisit_attempt sl t cx = (answer, cx')
   \<Longrightarrow> balanced cx (0, 0, {#}) [] (0, 0, {#}) cx'"
  by (auto simp: revisit_attempt_def reserve_handoff_def claim_ready_attempt_def
      release_handoff_reservation_def swap_reservation_def release_handoff_def fetch_sub_one_def
      balanced_defs split: if_splits attempt_state.splits)

lemma balanced_admit:
  "cx_attempt cx = None \<Longrightarrow> admit_attempt t now cx = (answer, cx')
   \<Longrightarrow> balanced cx (0, 0, {#}) [] (0, 0, {#}) cx'"
  by (auto simp: admit_attempt_def reserve_def try_send_request_def
      release_handoff_reservation_def swap_reservation_def release_handoff_def release_def
      fetch_sub_one_def wake_def attempt_new_def slot_new_def
      balanced_defs split: option.splits if_splits)

lemma balanced_callback:
  "invoke_callback call (cx\<lparr>cx_accepted_generation := 0\<rparr>) = (answer, cx')
   \<Longrightarrow> balanced cx (0, 0, {#}) [] (0, 0, {#}) cx'"
proof -
  let ?cx = "cx\<lparr>cx_accepted_generation := 0\<rparr>"
  have "counted k h ?cx = counted k h cx" "slot_sockets ?cx = slot_sockets cx" for k h
    by (simp_all add: counted_def slot_sockets_def)
  then have same: "balanced ?cx (0, 0, {#}) [] (0, 0, {#}) cx' \<Longrightarrow> ?thesis" by simp
  assume "invoke_callback call ?cx = (answer, cx')"
  then have "balanced ?cx (0, 0, {#}) [] (0, 0, {#}) cx'"
    by (auto simp: invoke_callback_def condition_callback_def simp del: balanced.simps
        intro: balanced_same balanced_revisit balanced_admit split: option.splits if_splits)
  then show ?thesis by (rule same)
qed

declare balanced.simps [simp del]

subsection \<open>Every step keeps the accounts\<close>

lemma mset_exchange:
  assumes "a + so = b + so' + (m :: 'a multiset)" "c' + so = c + n + so'"
  shows "c' + b + m = c + n + a"
proof (rule multiset_eqI)
  fix x
  show "count (c' + b + m) x = count (c + n + a) x"
    using arg_cong[OF assms(1), of "\<lambda>M. count M x"] arg_cong[OF assms(2), of "\<lambda>M. count M x"] by simp
qed

lemma accounts_balanced:
  assumes "accounts s" "cs_todo s th = []" "balanced (cs_cx s) (k, h, so) ms (k', h', so') cx'"
    and "cs_cx s' = cx'" "cs_todo s' = (cs_todo s)(th := ms)" "cs_closed s' = cs_closed s"
    and "cs_opened s' = new @ cs_opened s" "distinct new" "\<forall>x\<in>set new. fresh_socket x s"
    and "k \<le> coordinator_pending (cs_c s)" "h \<le> held_handoffs s"
    and "coordinator_pending (cs_c s') + k = coordinator_pending (cs_c s) + k'"
    and "held_handoffs s' + h = held_handoffs s + h'"
    and "held_sockets s' + so = held_sockets s + mset new + so'"
  shows "accounts s'"
proof -
  have sums: "todo_sum f s' = todo_sum f s + sum_list (map f ms)" for f :: "micro \<Rightarrow> 'm::comm_monoid_add"
    using todo_sum_leave[of s th f ms] assms(2,5) by (simp add: todo_sum_def)
  obtain i j where ij: "coordinator_pending (cs_c s) = i + k" "held_handoffs s = j + h"
    using assms(10,11) by (metis le_add_diff_inverse2)
  then have ij': "coordinator_pending (cs_c s') = i + k'" "held_handoffs s' = j + h'"
    using assms(12,13) by simp_all
  have "counted (i + todo_sum micro_pending s + k) (j + todo_sum micro_handoffs s + h) (cs_cx s)"
    using assms(1) ij by (simp add: accounts_def ac_simps)
  with assms(3) have cnt: "counted (i + todo_sum micro_pending s + k' + sum_list (map micro_pending ms))
      (j + todo_sum micro_handoffs s + h' + sum_list (map micro_handoffs ms)) cx'"
    unfolding balanced.simps by blast
  have "slot_sockets (cs_cx s) + so = slot_sockets cx' + so' + sum_list (map micro_sockets ms)"
    using assms(3) unfolding balanced.simps by blast
  from mset_exchange[OF this assms(14)] have "owned_sockets s' = owned_sockets s + mset new"
    unfolding owned_sockets_def sums using assms(4) by (simp add: ac_simps)
  then show ?thesis
    using assms(1,4,6,7,8,9) cnt ij' by (auto simp: accounts_def fresh_socket_def sums ac_simps)
qed

lemma accounts_micro:
  assumes "accounts s" "micro_step th s = Some s'"
  shows "accounts s'"
proof -
  obtain m ms where todo: "cs_todo s th = m # ms"
    using assms(2) by (auto simp: micro_step_def split: list.splits)
  obtain further closed cx where m: "run_micro m (cs_cx s) = (further, closed, cx)"
    by (metis prod_cases3)
  let ?s = "s\<lparr>cs_cx := cx, cs_closed := closed @ cs_closed s\<rparr>"
  have s': "s' = leave th (further @ ms) ?s" using assms(2) todo m by (simp add: micro_step_def)
  let ?k = "\<lambda>f. todo_sum f (leave th ms s)"
  have sums: "todo_sum f s = ?k f + f m" "todo_sum f s' = ?k f + sum_list (map f further)"
    for f :: "micro \<Rightarrow> 'm::comm_monoid_add"
    using todo_sum_micro[of ?s th m ms f] todo unfolding s' by (simp_all add: todo_sum_def)
  have effect: "counted (k + micro_pending m) (h + micro_handoffs m) (cs_cx s)
      \<Longrightarrow> counted (k + sum_list (map micro_pending further))
            (h + sum_list (map micro_handoffs further)) cx" for k h
    using m by (cases m) (auto simp: counted_def swap_reservation_def release_def release_handoff_def
        fetch_sub_one_def wake_def split: if_splits)
  let ?c = "coordinator_pending (cs_c s)" and ?h = "held_handoffs s"
  have "counted (?c + todo_sum micro_pending s) (?h + todo_sum micro_handoffs s) (cs_cx s)"
    using assms(1) by (simp add: accounts_def)
  then have counts: "counted (?c + todo_sum micro_pending s') (?h + todo_sum micro_handoffs s') cx"
    using effect[of "?c + ?k micro_pending" "?h + ?k micro_handoffs"] by (simp add: sums ac_simps)
  have "x \<in># owned_sockets s" if "m = M_Close x" for x
    using that by (simp add: owned_sockets_def sums)
  then have "x \<in> set (cs_opened s)" if "m = M_Close x" for x
    using that assms(1) unfolding accounts_def by (metis set_mset_mset union_iff)
  then have valid: "m = M_Close x \<Longrightarrow> x \<noteq> INVALID_SOCKET" for x
    using assms(1) by (auto simp: accounts_def)
  have closed: "mset closed + sum_list (map micro_sockets further) = micro_sockets m"
    and slot: "slot_sockets cx = slot_sockets (cs_cx s)"
    using m valid by (cases m; auto simp: slot_sockets_def swap_reservation_def release_handoff_def wake_def
        split: if_splits)+
  have "held_sockets s' = held_sockets s" "held_handoffs s' = held_handoffs s"
    by (simp_all add: s' held_sockets_def held_handoffs_def)
  moreover from this have "owned_sockets s = mset closed + owned_sockets s'"
    by (simp add: owned_sockets_def sums flip: closed) (simp add: s' slot ac_simps)
  ultimately show ?thesis using assms(1) counts by (simp add: accounts_def s')
qed

lemma accounts_kept:
  assumes "accounts s" "cs_todo s th = []" "balanced (cs_cx s) (k, h, so) ms (k', h', so') (cs_cx s')"
    and "cs_todo s' = (cs_todo s)(th := ms)" "cs_closed s' = cs_closed s" "cs_opened s' = cs_opened s"
    and "k \<le> coordinator_pending (cs_c s)" "h \<le> held_handoffs s"
    and "coordinator_pending (cs_c s') + k = coordinator_pending (cs_c s) + k'"
    and "held_handoffs s' + h = held_handoffs s + h'"
    and "held_sockets s' + so = held_sockets s + so'"
  shows "accounts s'"
  using accounts_balanced[OF assms(1,2,3) refl assms(4,5), of "[]"] assms(6-) by simp

lemma todo_nil [simp]: "cs_todo s th = [] \<Longrightarrow> (cs_todo s)(th := []) = cs_todo s"
  by auto

lemma accounts_moved:
  assumes "accounts s" "cs_todo s' = cs_todo s" "cs_closed s' = cs_closed s" "cs_opened s' = cs_opened s"
    and "cx_admissions (cs_cx s') = cx_admissions (cs_cx s)" "cx_attempt (cs_cx s') = cx_attempt (cs_cx s)"
    and "cx_handoffs (cs_cx s') = cx_handoffs (cs_cx s)"
    and "cx_handoff_reserved (cs_cx s') = cx_handoff_reserved (cs_cx s)"
    and "coordinator_pending (cs_c s') = coordinator_pending (cs_c s)"
    and "held_handoffs s' = held_handoffs s" "held_sockets s' = held_sockets s"
  shows "accounts s'"
  using assms
  by (simp add: accounts_def counted_def owned_sockets_def slot_sockets_def todo_sum_same[of s' s])

lemma accounts_left:
  assumes "accounts s" "cs_todo s th = []" "cs_cx s' = cs_cx s" "cs_todo s' = (cs_todo s)(th := ms)"
    and "cs_closed s' = cs_closed s" "cs_opened s' = cs_opened s"
    and "coordinator_pending (cs_c s) = coordinator_pending (cs_c s') + sum_list (map micro_pending ms)"
    and "held_handoffs s = held_handoffs s' + sum_list (map micro_handoffs ms)"
    and "held_sockets s = held_sockets s' + sum_list (map micro_sockets ms)"
  shows "accounts s'"
  by (rule accounts_kept[OF assms(1,2) _ assms(4,5,6)], unfold assms(3), rule balanced_drop)
     (use assms(7-9) in simp_all)

lemma accounts_operated:
  assumes "accounts s" "cs_todo s th = []" "balanced (cs_cx s) (0, 0, so) ms (0, 0, {#}) (cs_cx s')"
    and "cs_todo s' = (cs_todo s)(th := ms)" "cs_closed s' = cs_closed s" "cs_opened s' = cs_opened s"
    and "coordinator_pending (cs_c s') = coordinator_pending (cs_c s)"
    and "held_handoffs s' = held_handoffs s" "held_sockets s = held_sockets s' + so"
  shows "accounts s'"
  by (rule accounts_kept[OF assms(1-6)]) (use assms(7-9) in simp_all)

lemmas held_defs = held_handoffs_def held_sockets_def

lemma accounts_drain:
  assumes "accounts s" "cs_todo s Coordinator = []" "cs_c s = C_Drain"
  shows "accounts (coordinator_drain s)"
proof (cases "cs_results s")
  case Nil
  then show ?thesis
    using assms(2,3) by (auto simp: coordinator_drain_def held_defs intro!: accounts_moved[OF assms(1)])
next
  case (Cons r rs)
  obtain ms cx where r: "apply_worker_result r (cs_cx s) = (ms, cx)" by fastforce
  show ?thesis
    by (rule accounts_operated[OF assms(1,2), where so = "result_sockets r" and ms = ms])
       (use Cons r balanced_result[OF r] in \<open>simp_all add: coordinator_drain_def held_defs\<close>)
qed

lemma accounts_returned:
  assumes "accounts s" "cs_todo s Coordinator = []" "cs_c s = C_Returned x"
  shows "accounts (coordinator_returned x s)"
proof (cases "cx_accepted_generation (cs_cx s) \<noteq> 0 \<and> take_claimed (cx_accepted_generation (cs_cx s)) (cs_cx s) \<noteq> None")
  case True
  then obtain sl cx where t: "take_claimed (cx_accepted_generation (cs_cx s)) (cs_cx s) = Some (sl, cx)"
    by auto
  show ?thesis
    by (rule accounts_kept[OF assms(1,2), where ms = "[]" and k = 0 and h = 0 and so = "{#}"
          and k' = "slot_pending sl" and h' = 0 and so' = "prepared_sockets (sl_prepared sl)"])
       (use True t balanced_take[OF t] assms in \<open>simp_all add: coordinator_returned_def Let_def held_defs\<close>)
next
  case False
  then show ?thesis
    by (intro accounts_left[OF assms(1,2), where ms = "[M_Close x]"])
       (use assms in \<open>auto simp: coordinator_returned_def Let_def held_defs split: option.splits\<close>)
qed

lemma accounts_taken:
  assumes "accounts s" "cs_todo s Coordinator = []" "cs_c s = C_Taken sl x g"
  shows "accounts (coordinator_taken sl x g s)"
proof (cases "sl_prepared sl")
  case None
  then show ?thesis
    by (intro accounts_left[OF assms(1,2), where ms = "[M_Swap, M_Release (sl_attempt sl), M_Close x]"])
       (use assms(3) in \<open>simp_all add: coordinator_taken_def held_defs slot_pending_def\<close>)
next
  case (Some p)
  then show ?thesis
    by (intro accounts_left[OF assms(1,2), where ms = "[M_Release (sl_attempt sl)]"])
       (use assms(3) in \<open>simp_all add: coordinator_taken_def held_defs slot_pending_def\<close>)
qed

lemma accounts_transfer:
  assumes "accounts s" "cs_todo s Coordinator = []" "cs_c s = C_Transfer p x t g"
  shows "accounts (coordinator_transfer p x t g s)"
proof (cases "cx_handoff_reserved (cs_cx s)")
  case True
  show ?thesis
    by (rule accounts_kept[OF assms(1,2), where ms = "[]" and k = 0 and h = 0 and so = "{#}"
          and k' = 0 and h' = 1 and so' = "{#}"])
       (use True balanced_transfer[OF True] assms(2,3) in
         \<open>simp_all add: coordinator_transfer_def held_defs handoff_sockets_def\<close>)
next
  case False
  then show ?thesis
    by (intro accounts_left[OF assms(1,2), where ms = "[M_Close (ps_socket p), M_Close x]"])
       (use assms(3) in \<open>simp_all add: coordinator_transfer_def held_defs\<close>)
qed

lemma accounts_handoff:
  assumes "accounts s" "cs_todo s Coordinator = []" "cs_c s = C_Setup h \<or> cs_c s = C_Send h"
  shows "accounts (leave Coordinator (drop_handoff h) (s\<lparr>cs_c := C_Wait\<rparr>))"
    and "accounts (leave Coordinator (drop_handoff h) (s\<lparr>cs_c := C_Stop r\<rparr>))"
    and "accounts (s\<lparr>cs_c := C_Send h\<rparr>)"
    and "accounts (s\<lparr>cs_queue := cs_queue s @ [h], cs_c := C_Wait\<rparr>)"
  by (rule accounts_left[OF assms(1,2), where ms = "drop_handoff h"] accounts_moved[OF assms(1)];
      use assms(3) in \<open>auto simp: held_defs\<close>)+

lemma accounts_op:
  assumes "accounts s" "balanced (cs_cx s) (0, 0, {#}) ms (0, 0, {#}) cx"
  shows "\<lbrakk>cs_todo s Coordinator = []; coordinator_pending pc = coordinator_pending (cs_c s);
          coordinator_handoffs pc = coordinator_handoffs (cs_c s);
          coordinator_sockets pc = coordinator_sockets (cs_c s)\<rbrakk>
         \<Longrightarrow> accounts (leave Coordinator ms (s\<lparr>cs_cx := cx, cs_c := pc\<rparr>))"
    and "\<lbrakk>cs_todo s Worker = []; worker_sockets pw = worker_sockets (cs_w s)\<rbrakk>
         \<Longrightarrow> accounts (leave Worker ms (s\<lparr>cs_cx := cx, cs_w := pw\<rparr>))"
    and "\<lbrakk>cs_todo s Listener = []; listener_handoffs pt = listener_handoffs (cs_t s);
          listener_sockets pt = listener_sockets (cs_t s)\<rbrakk>
         \<Longrightarrow> accounts (leave Listener ms (s\<lparr>cs_cx := cx, cs_t := pt\<rparr>))"
  by (rule accounts_operated[OF assms(1), where ms = ms and so = "{#}"];
      use assms(2) in \<open>simp add: held_defs\<close>)+

lemma balanced_failed:
  "(if g \<noteq> 0 then reject_claimed_generation g cx
    else if \<not> is_transient_error e then reject_active_attempt cx else ([], cx)) = (ms, cx')
   \<Longrightarrow> balanced cx (0, 0, {#}) ms (0, 0, {#}) cx'"
  by (auto split: if_splits
      intro: balanced_reject_claimed balanced_reject_active balanced_same)

lemma accounts_stops:
  assumes "accounts s"
  shows "cs_todo s Coordinator = [] \<Longrightarrow> cs_c s = C_Stop r \<Longrightarrow> accounts (coordinator_stop r s)"
    and "cs_todo s Worker = [] \<Longrightarrow> cs_w s = W_Stop e \<Longrightarrow> accounts (worker_stop e s)"
    and "cs_todo s Listener = [] \<Longrightarrow> listener_handoffs pt = listener_handoffs (cs_t s)
         \<Longrightarrow> listener_sockets pt = listener_sockets (cs_t s) \<Longrightarrow> accounts (listener_stop pt s)"
  by (auto simp: coordinator_stop_def worker_stop_def listener_stop_def split: prod.splits
      intro!: accounts_op[OF assms balanced_stop])

lemma accounts_exit:
  assumes "accounts s" "cs_todo s Coordinator = []" "cs_c s = C_Exit r"
  shows "accounts (coordinator_exit r s)"
  by (rule accounts_left[OF assms(1,2), where ms = "concat (map drop_result (cs_results s)) @ drop_listener s"])
     (use assms(3) in \<open>simp_all add: coordinator_exit_def held_defs\<close>)

lemma accounts_accept:
  assumes "accounts s" "cs_todo s Coordinator = []" "cs_c s = C_Accept"
    and "coordinator_accept call r s = Some s'"
  shows "accounts s'"
proof -
  obtain answer cx where cb:
    "invoke_callback call ((cs_cx s)\<lparr>cx_accepted_generation := 0\<rparr>) = (answer, cx)" by fastforce
  note bal = balanced_callback[OF cb]
  show ?thesis
  proof (cases r)
    case (WsaReturned x)
    show ?thesis
      by (rule accounts_balanced[OF assms(1,2) bal, where new = "[x]"])
         (use assms(2-) cb WsaReturned in
           \<open>auto simp: coordinator_accept_def held_defs split: if_splits option.splits\<close>)
  next
    case (WsaFailed e m)
    then show ?thesis
      using accounts_op(1)[OF assms(1) bal assms(2), of "C_Failed e m"] assms(2-) cb
      by (simp add: coordinator_accept_def leave_def)
  qed
qed

lemma accounts_coordinator:
  assumes "accounts s" "cs_todo s Coordinator = []" "coordinator e s = Some s'"
  shows "accounts s'"
proof (cases e)
  case C_Go
  then show ?thesis
    using assms(3)
    by (auto split: coordinator_pc.splits prod.splits
        simp: coordinator_check_def coordinator_terminal_def coordinator_judge_def
          coordinator_send_def coordinator_unmatched_def coordinator_failed_def
          coordinator_reject_active_def Let_def held_defs
        intro: accounts_drain[OF assms(1,2)] accounts_returned[OF assms(1,2)]
          accounts_taken[OF assms(1,2)] accounts_transfer[OF assms(1,2)]
          accounts_handoff[OF assms(1,2)] accounts_exit[OF assms(1,2)]
          accounts_stops(1)[OF assms(1,2)] accounts_moved[OF assms(1)]
          accounts_op(1)[OF assms(1) balanced_failed assms(2)]
          accounts_op(1)[OF assms(1) balanced_reject_claimed assms(2)]
          accounts_op(1)[OF assms(1) balanced_reject_active assms(2)])
next
  case (C_WSAAccept call r)
  then show ?thesis
    using assms(3) accounts_accept[OF assms(1,2)] by (auto split: if_splits)
next
  case (C_Nonblocking ok)
  then show ?thesis
    using assms(3) accounts_handoff[OF assms(1,2)]
    by (auto simp: coordinator_setup_def split: coordinator_pc.splits if_splits)
next
  case (C_Waited r)
  then show ?thesis
    using assms(3)
    by (auto simp: coordinator_wait_def held_defs intro!: accounts_moved[OF assms(1)]
        split: if_splits wait_result.splits option.splits)
qed

lemma preconnect_socket:
  "preconnect_attempt now race answer connect i at = Inr p
   \<Longrightarrow> race = WorkFinished
     \<and> (\<exists>od. answer = Inr od \<and> connect = Inr (ps_socket p) \<and> ps_destination p = od_address od
             \<and> validate_tcp_mapping (ri_tuple i) od = Inr ())"
  by (auto simp: preconnect_attempt_def preconnect_work_def and_then_Inr_iff
      split: preconnect_race.splits)

lemma accounts_work:
  assumes "accounts s" "cs_todo s Worker = []" "cs_w s = W_Work i at"
    and "worker_work now race answer connect i at s = Some s'"
  shows "accounts s'"
proof (cases "preconnect_attempt now race answer connect i at")
  case (Inl e)
  then show ?thesis
    using assms(3,4)
    by (auto simp: worker_work_def Let_def held_defs intro!: accounts_moved[OF assms(1)]
        split: if_splits sum.splits)
next
  case (Inr p)
  from preconnect_socket[OF this] obtain od where od: "answer = Inr od" "connect = Inr (ps_socket p)"
    by blast
  show ?thesis
    by (rule accounts_balanced[OF assms(1,2) balanced_same, where new = "[ps_socket p]"])
       (use assms Inr od in \<open>auto simp: worker_work_def Let_def held_defs split: if_splits\<close>)
qed

lemma accounts_send:
  assumes "accounts s" "cs_todo s Worker = []" "cs_w s = W_Send r"
  shows "accounts (worker_send r s)"
proof (cases "cs_results_open s")
  case True
  then show ?thesis
    by (intro accounts_left[OF assms(1,2), where ms = "[M_Wake]"])
       (use assms(3) in \<open>simp_all add: worker_send_def held_defs\<close>)
next
  case False
  then show ?thesis
    by (intro accounts_left[OF assms(1,2), where ms = "drop_result r"])
       (use assms(3) in \<open>simp_all add: worker_send_def held_defs\<close>)
qed

lemma accounts_worker:
  assumes "accounts s" "cs_todo s Worker = []" "worker e s = Some s'"
  shows "accounts s'"
proof (cases e)
  case W_Go
  then show ?thesis
    using assms(3)
    by (auto split: worker_pc.splits prod.splits if_splits option.splits
        simp: worker_check_def worker_recv_def worker_got_def worker_snap_def worker_exit_def held_defs
        intro: accounts_send[OF assms(1,2)] accounts_stops(2)[OF assms(1,2)] accounts_moved[OF assms(1)])
qed (use assms(3) accounts_work[OF assms(1,2)] in
      \<open>auto simp: worker_start_def worker_panic_def held_defs intro: accounts_moved[OF assms(1)]
        split: if_splits worker_pc.splits option.splits\<close>)

lemma accounts_spawn:
  assumes "accounts s" "cs_todo s Listener = []"
  shows "cs_t s = T_Spawn_Worker \<Longrightarrow> cs_w s = W_Unstarted \<Longrightarrow> accounts (listener_spawn_worker f s)"
    and "cs_t s = T_Spawn_Coordinator \<Longrightarrow> cs_c s = C_Unstarted \<Longrightarrow> accounts (listener_spawn_coordinator f s)"
proof -
  assume "cs_t s = T_Spawn_Worker" "cs_w s = W_Unstarted"
  then show "accounts (listener_spawn_worker f s)"
    by (cases f; intro accounts_moved[OF assms(1)] accounts_operated[OF assms(1,2), where ms = "drop_listener s"])
       (auto simp: listener_spawn_worker_def held_defs balanced.simps counted_def slot_sockets_def)
next
  assume "cs_t s = T_Spawn_Coordinator" "cs_c s = C_Unstarted"
  then show "accounts (listener_spawn_coordinator f s)"
    by (cases f; intro accounts_moved[OF assms(1)]
        accounts_left[OF assms(1,2), where ms = "concat (map drop_result (cs_results s)) @ drop_listener s"])
       (auto simp: listener_spawn_coordinator_def held_defs)
qed

lemma accounts_convert:
  assumes "accounts s" "cs_todo s Listener = []" "cs_t s = T_Convert h"
  shows "accounts (listener_convert ok h s)"
proof (cases ok)
  case True
  then show ?thesis
    by (intro accounts_left[OF assms(1,2), where ms = "[M_Sub]"])
       (use assms(3) in \<open>simp_all add: listener_convert_def held_defs session_of_def session_sockets_def
          handoff_sockets_def\<close>)
next
  case False
  then show ?thesis
    by (intro accounts_left[OF assms(1,2), where ms = "drop_handoff h"])
       (use assms(3) in \<open>simp_all add: listener_convert_def held_defs\<close>)
qed

lemma accounts_wind_up:
  assumes "accounts s" "cs_todo s Listener = []"
  shows "cs_t s = T_Close \<Longrightarrow> accounts (listener_close s)"
    and "cs_t s = T_Abort \<Longrightarrow> accounts (listener_abort s)"
proof -
  show "cs_t s = T_Close \<Longrightarrow> accounts (listener_close s)"
    by (rule accounts_left[OF assms, where ms = "concat (map drop_handoff (cs_queue s))"])
       (simp_all add: listener_close_def held_defs)
  show "cs_t s = T_Abort \<Longrightarrow> accounts (listener_abort s)"
  proof (cases "cs_sessions s")
    case (Cons x xs)
    then show ?thesis
      by (intro accounts_left[OF assms, where ms = "drop_session x"])
         (simp_all add: listener_abort_def held_defs)
  qed (auto simp: listener_abort_def held_defs intro!: accounts_moved[OF assms(1)])
qed

text \<open>A thread is started only once.\<close>

definition unlaunched :: "conditional_state \<Rightarrow> bool" where
  "unlaunched s \<longleftrightarrow>
     (cs_t s = T_Spawn_Worker \<longrightarrow> cs_w s = W_Unstarted)
     \<and> (cs_t s = T_Spawn_Coordinator \<longrightarrow> cs_c s = C_Unstarted)"

lemma accounts_listener:
  assumes "accounts s" "cs_todo s Listener = []" "listener e s = Some s'" "unlaunched s"
  shows "accounts s'"
proof (cases e)
  case T_Go
  then show ?thesis
    using assms(3)
    by (auto split: listener_pc.splits option.splits sum.splits
        simp: listener_startup_join_def listener_join_def held_defs
        intro: accounts_wind_up[OF assms(1,2)] accounts_stops(3)[OF assms(1,2)] accounts_moved[OF assms(1)])
next
  case T_Receive
  then show ?thesis
    using assms(3)
    by (auto simp: listener_receive_def held_defs intro!: accounts_moved[OF assms(1)]
        split: if_splits list.splits coordinator_pc.splits)
qed (use assms(3,4) accounts_spawn[OF assms(1,2)] accounts_convert[OF assms(1,2)] in
      \<open>auto simp: unlaunched_def held_defs intro: accounts_moved[OF assms(1)]
        split: if_splits listener_pc.splits\<close>)

lemma accounts_session_end:
  assumes "accounts s" "session_end k s = Some s'"
  shows "accounts s'"
proof -
  let ?x = "cs_sessions s ! k"
  have k: "k < length (cs_sessions s)"
    and s': "s' = s\<lparr>cs_sessions := take k (cs_sessions s) @ drop (Suc k) (cs_sessions s),
                 cs_closed := [se_accepted ?x, se_outbound ?x] @ cs_closed s\<rparr>"
    using assms(2) by (auto simp: session_end_def split: if_splits)
  have "sum_list (map session_sockets (cs_sessions s)) =
      sum_list (map session_sockets (take k (cs_sessions s))) + session_sockets ?x
      + sum_list (map session_sockets (drop (Suc k) (cs_sessions s)))"
    using arg_cong[OF id_take_nth_drop[OF k], of "\<lambda>xs. sum_list (map session_sockets xs)"]
    by (simp only: map_append list.map sum_list.append sum_list.Cons add.assoc)
  then have "owned_sockets s = owned_sockets s' + session_sockets ?x"
    by (simp add: s' owned_sockets_def held_sockets_def ac_simps)
  then show ?thesis
    using assms(1) by (simp add: accounts_def s' held_handoffs_def session_sockets_def)
qed

lemma accounts_step:
  assumes "accounts s" "unlaunched s" "conditional_step e s = Some s'"
  shows "accounts s'"
proof (cases e)
  case (Micro th)
  then show ?thesis using assms(3) by (auto intro: accounts_micro[OF assms(1)])
next
  case (CoordinatorStep e)
  then show ?thesis using assms(3) accounts_coordinator[OF assms(1)] by (simp split: if_splits)
next
  case (WorkerStep e)
  then show ?thesis using assms(3) accounts_worker[OF assms(1)] by (simp split: if_splits)
next
  case (ListenerStep e)
  then show ?thesis
    using assms(3) accounts_listener[OF assms(1) _ _ assms(2)] by (simp split: if_splits)
next
  case (SessionEnd k)
  then show ?thesis using assms(3) by (auto intro: accounts_session_end[OF assms(1)])
qed

lemma accounts_init: "l \<noteq> INVALID_SOCKET \<Longrightarrow> accounts (conditional_init l)"
  by (simp add: accounts_def counted_def conditional_init_def context_new_def admissions_new_def
      owned_sockets_def held_defs slot_sockets_def todo_sum_def CONDITIONAL_ATTEMPT_CAPACITY_def)

end
