(* ===== verification/Conditional_Phases.thy ===== *)
theory Conditional_Phases
  imports Conditional_Accounts
begin

text \<open>
  The life cycle of the conditional-accept listener: which threads run when, that a stopped
  context never admits an attempt again, and that stopping ends every thread.
\<close>

section \<open>Phases\<close>

text \<open>Which threads run at which point of the listener task, and what a stopped context and a
  closed channel contain.\<close>

fun ended :: "listener_pc \<Rightarrow> bool" where
  "ended (T_End r) = True"
| "ended _ = False"

fun starting :: "listener_pc \<Rightarrow> bool" where
  "starting T_Spawn_Worker = True"
| "starting T_Spawn_Coordinator = True"
| "starting (T_Startup_Stop m) = True"
| "starting (T_Startup_Join m) = True"
| "starting _ = False"

fun stopped_listener :: "listener_pc \<Rightarrow> bool" where
  "stopped_listener (T_Startup_Join m) = True"
| "stopped_listener T_Close = True"
| "stopped_listener T_Abort = True"
| "stopped_listener T_Join = True"
| "stopped_listener _ = False"

fun coordinator_done :: "coordinator_pc \<Rightarrow> bool" where
  "coordinator_done (C_End r) = True"
| "coordinator_done _ = False"

fun worker_done :: "worker_pc \<Rightarrow> bool" where
  "worker_done (W_End r) = True"
| "worker_done _ = False"

fun worker_leaving :: "worker_pc \<Rightarrow> bool" where
  "worker_leaving (W_Exit r) = True"
| "worker_leaving (W_End r) = True"
| "worker_leaving _ = False"

fun worker_busy :: "worker_pc \<Rightarrow> bool" where
  "worker_busy W_Got = True"
| "worker_busy (W_Snap i at) = True"
| "worker_busy (W_Work i at) = True"
| "worker_busy (W_Send r) = True"
| "worker_busy _ = False"

fun startup_failed :: "listener_pc \<Rightarrow> bool" where
  "startup_failed (T_Startup_Stop m) = True"
| "startup_failed (T_Startup_Join m) = True"
| "startup_failed _ = False"

definition stopped_clean :: "conditional_state \<Rightarrow> bool" where
  "stopped_clean s \<longleftrightarrow>
     (\<not> cx_accepting (cs_cx s) \<longrightarrow> cx_attempt (cs_cx s) = None)
     \<and> (\<not> cs_results_open s \<longrightarrow> cs_results s = [])
     \<and> (\<not> cs_queue_open s \<longrightarrow> cs_queue s = [])
     \<and> (worker_leaving (cs_w s) \<longrightarrow> \<not> cx_accepting (cs_cx s))
     \<and> (stopped_listener (cs_t s) \<longrightarrow> \<not> cx_accepting (cs_cx s))
     \<and> (\<forall>r. cs_c s = C_Exit r \<longrightarrow> \<not> cx_accepting (cs_cx s))
     \<and> (coordinator_done (cs_c s) \<longrightarrow>
          \<not> cx_accepting (cs_cx s) \<and> \<not> cs_results_open s \<and> cs_listener s = None)
     \<and> (\<not> cs_results_open s \<longrightarrow> coordinator_done (cs_c s) \<or> cs_c s = C_Unstarted)"

definition phases :: "conditional_state \<Rightarrow> bool" where
  "phases s \<longleftrightarrow>
     (cs_t s = T_Spawn_Worker \<longrightarrow> cs_w s = W_Unstarted)
     \<and> (cs_t s = T_Spawn_Worker \<or> cs_t s = T_Spawn_Coordinator \<longrightarrow> cs_results_open s)
     \<and> (cs_w s = W_Unstarted \<longrightarrow> cs_t s = T_Spawn_Worker \<or> ended (cs_t s))
     \<and> (starting (cs_t s) \<longrightarrow> cs_c s = C_Unstarted)
     \<and> (cs_c s = C_Unstarted \<longrightarrow>
          (starting (cs_t s) \<or> ended (cs_t s)) \<and> cx_attempt (cs_cx s) = None
          \<and> cx_requests (cs_cx s) = 0 \<and> \<not> worker_busy (cs_w s)
          \<and> cs_results s = [] \<and> cs_queue s = [] \<and> cs_sessions s = [] \<and> cs_todo s Coordinator = [])
     \<and> (cs_t s = T_Abort \<or> cs_t s = T_Join \<longrightarrow> \<not> cs_queue_open s)
     \<and> (cs_t s = T_Join \<longrightarrow> cs_sessions s = [])
     \<and> (startup_failed (cs_t s) \<longrightarrow> cs_listener s = None \<and> \<not> cs_results_open s)
     \<and> (ended (cs_t s) \<longrightarrow>
          (cs_c s = C_Unstarted \<or> coordinator_done (cs_c s))
          \<and> (cs_w s = W_Unstarted \<or> worker_done (cs_w s))
          \<and> cs_todo s Coordinator = [] \<and> cs_todo s Worker = [] \<and> cs_sessions s = []
          \<and> cs_queue s = [] \<and> cs_results s = [] \<and> cs_listener s = None)
     \<and> (cs_w s = W_Unstarted \<longrightarrow> cs_todo s Worker = [])"

text \<open>What the operations do to the three fields that the phases read.\<close>

lemma callback_keeps:
  assumes "invoke_callback call cx = (answer, cx')"
  shows "cx_accepting cx' = cx_accepting cx"
    and "\<not> cx_accepting cx \<Longrightarrow> cx_attempt cx = None \<Longrightarrow> cx_attempt cx' = None"
proof -
  have revisit: "cx_accepting (snd (revisit_attempt sl t cx)) = cx_accepting cx" for sl t
    by (simp add: revisit_attempt_def reserve_handoff_def release_handoff_reservation_def
        swap_reservation_def release_handoff_def claim_ready_attempt_def
        split: attempt_state.split)
  have admit: "cx_accepting (snd (admit_attempt t now cx)) = cx_accepting cx"
      "\<not> cx_accepting cx \<Longrightarrow> snd (admit_attempt t now cx) = cx" for t now
    by (simp_all add: admit_attempt_def reserve_def try_send_request_def wake_def
        release_handoff_reservation_def swap_reservation_def release_handoff_def)
  show "cx_accepting cx' = cx_accepting cx"
    using assms revisit admit(1) by (auto simp: invoke_callback_def condition_callback_def
        split: option.splits if_splits) (metis snd_conv)+
  show "\<not> cx_accepting cx \<Longrightarrow> cx_attempt cx = None \<Longrightarrow> cx_attempt cx' = None"
    using assms admit(2) by (auto simp: invoke_callback_def condition_callback_def
        split: option.splits if_splits) (metis snd_conv)+
qed

lemma result_keeps:
  assumes "apply_worker_result r cx = (ms, cx')"
  shows "cx_accepting cx' = cx_accepting cx" "cx_requests cx' = cx_requests cx"
    and "cx_attempt cx' = None \<longleftrightarrow> cx_attempt cx = None"
  using assms by (auto simp: apply_worker_result_def complete_attempt_def
      split: option.splits if_splits worker_result.splits prod.splits bool.splits)

lemma reject_keeps:
  "reject_claimed_generation g cx = (ms, cx') \<Longrightarrow>
     cx_accepting cx' = cx_accepting cx \<and> cx_requests cx' = cx_requests cx
     \<and> (cx_attempt cx = None \<longrightarrow> cx_attempt cx' = None)"
  "reject_active_attempt cx = (ms, cx') \<Longrightarrow>
     cx_accepting cx' = cx_accepting cx \<and> cx_requests cx' = cx_requests cx \<and> cx_attempt cx' = None"
  "take_claimed g cx = Some (sl, cx') \<Longrightarrow>
     cx_accepting cx' = cx_accepting cx \<and> cx_requests cx' = cx_requests cx \<and> cx_attempt cx' = None"
  "stop_and_reject_pending cx = (ms, cx') \<Longrightarrow>
     \<not> cx_accepting cx' \<and> cx_requests cx' = cx_requests cx \<and> cx_attempt cx' = None"
  by (auto simp: reject_claimed_generation_def reject_active_attempt_def take_claimed_def
      stop_and_reject_pending_def split: option.splits if_splits)

lemma micro_keeps:
  "run_micro m cx = (further, closed, cx') \<Longrightarrow>
     cx_accepting cx' = cx_accepting cx \<and> cx_requests cx' = cx_requests cx
     \<and> cx_attempt cx' = cx_attempt cx"
  by (cases m) (auto simp: swap_reservation_def release_handoff_def wake_def split: if_splits)

lemmas coordinator_defs = coordinator_check_def coordinator_drain_def coordinator_returned_def
  coordinator_taken_def coordinator_transfer_def coordinator_unmatched_def coordinator_send_def
  coordinator_failed_def coordinator_terminal_def coordinator_reject_active_def coordinator_judge_def
  coordinator_stop_def coordinator_exit_def coordinator_setup_def coordinator_wait_def
  coordinator_accept_def Let_def

lemmas coordinator_splits = list.splits prod.splits option.splits if_splits wait_result.splits
  wsa_return.splits

lemma coordinator_frame:
  assumes "coordinator e s = Some s'"
  shows "cs_w s' = cs_w s" "cs_t s' = cs_t s" "cs_queue_open s' = cs_queue_open s"
    and "cs_sessions s' = cs_sessions s" "cs_todo s' Worker = cs_todo s Worker"
    and "cs_todo s' Listener = cs_todo s Listener"
    and "cs_c s \<noteq> C_Unstarted" "\<not> coordinator_done (cs_c s)" "cs_c s' \<noteq> C_Unstarted"
    and "cs_queue_open s \<or> cs_queue s' = cs_queue s"
  using assms
  by (cases e; cases "cs_c s"; simp add: coordinator_defs split: coordinator_splits; fastforce)+

definition settles :: "context_state \<Rightarrow> context_state \<Rightarrow> bool" where
  "settles cx cx' \<longleftrightarrow>
     (cx_accepting cx' \<longrightarrow> cx_accepting cx)
     \<and> (cx_accepting cx \<or> cx_attempt cx = None \<longrightarrow> cx_accepting cx' \<or> cx_attempt cx' = None)"

lemma settles_operations:
  "settles cx cx"
  "invoke_callback call (cx\<lparr>cx_accepted_generation := 0\<rparr>) = (answer, cx') \<Longrightarrow> settles cx cx'"
  "apply_worker_result r cx = (ms, cx') \<Longrightarrow> settles cx cx'"
  "reject_claimed_generation g cx = (ms, cx') \<Longrightarrow> settles cx cx'"
  "reject_active_attempt cx = (ms, cx') \<Longrightarrow> settles cx cx'"
  "take_claimed g cx = Some (sl, cx') \<Longrightarrow> settles cx cx'"
  "stop_and_reject_pending cx = (ms, cx') \<Longrightarrow> settles cx cx'"
  "run_micro m cx = (further, closed, cx') \<Longrightarrow> settles cx cx'"
  using callback_keeps[of call "cx\<lparr>cx_accepted_generation := 0\<rparr>" answer cx'] result_keeps[of r cx ms cx']
    reject_keeps[where cx = cx and cx' = cx'] micro_keeps[of m cx further closed cx']
  by (auto simp: settles_def)

lemma settles_updates:
  "settles cx (cx\<lparr>cx_handoff_reserved := b\<rparr>)" "settles cx (cx\<lparr>cx_wake_event := b\<rparr>)"
  "settles cx (cx\<lparr>cx_receiver := b\<rparr>)" "settles cx (cx\<lparr>cx_requests := n\<rparr>)"
  by (simp_all add: settles_def)

lemma coordinator_settles:
  assumes "coordinator e s = Some s'"
  shows "settles (cs_cx s) (cs_cx s')"
  using assms
  by (cases e; cases "cs_c s")
     (auto simp: coordinator_defs split: coordinator_splits intro: settles_operations settles_updates)

lemma coordinator_stops:
  assumes "coordinator e s = Some s'" "cs_c s' = C_Exit r"
  shows "\<not> cx_accepting (cs_cx s')"
proof -
  have "\<exists>r. s' = coordinator_stop r s"
    using assms
    by (cases e; cases "cs_c s")
       (simp_all add: coordinator_check_def coordinator_drain_def coordinator_returned_def
          coordinator_taken_def coordinator_transfer_def coordinator_unmatched_def coordinator_send_def
          coordinator_failed_def coordinator_terminal_def coordinator_reject_active_def
          coordinator_judge_def coordinator_exit_def coordinator_setup_def coordinator_wait_def
          coordinator_accept_def Let_def split: coordinator_splits, auto)
  then show ?thesis by (auto simp: coordinator_stop_def stop_and_reject_pending_def)
qed

lemma coordinator_exits:
  assumes "coordinator e s = Some s'"
  shows "coordinator_done (cs_c s') \<longleftrightarrow> (\<exists>r. cs_c s = C_Exit r)"
    and "coordinator_done (cs_c s') \<Longrightarrow> \<not> cs_results_open s' \<and> cs_results s' = [] \<and> cs_listener s' = None
           \<and> cs_cx s' = cs_cx s"
    and "\<not> coordinator_done (cs_c s') \<Longrightarrow> cs_results_open s' = cs_results_open s"
  using assms
  by (cases e; cases "cs_c s"; simp add: coordinator_defs split: coordinator_splits; fastforce)+

lemma stopped_clean_coordinator:
  assumes "stopped_clean s" "coordinator e s = Some s'"
  shows "stopped_clean s'"
proof -
  note ctx = coordinator_settles[OF assms(2)] coordinator_stops[OF assms(2)]
    and ex = coordinator_exits[OF assms(2)] and frame = coordinator_frame[OF assms(2)]
  show ?thesis
  proof (cases "coordinator_done (cs_c s')")
    case True
    then obtain r where "cs_c s = C_Exit r" using ex(1) by blast
    then show ?thesis
      using assms(1) ex(2)[OF True] frame True by (auto simp: stopped_clean_def)
  next
    case False
    then have "cs_results_open s' = cs_results_open s" "cs_results_open s"
      using ex(3) assms(1) frame(7,8) by (auto simp: stopped_clean_def)
    then show ?thesis
      using assms(1) ctx frame False by (auto simp: stopped_clean_def settles_def)
  qed
qed

lemmas worker_defs = worker_start_def worker_check_def worker_recv_def worker_got_def worker_snap_def
  worker_work_def worker_panic_def worker_send_def worker_stop_def worker_exit_def Let_def

lemma worker_frame:
  assumes "worker e s = Some s'"
  shows "cs_c s' = cs_c s" "cs_t s' = cs_t s" "cs_queue_open s' = cs_queue_open s"
    and "cs_queue s' = cs_queue s" "cs_sessions s' = cs_sessions s" "cs_listener s' = cs_listener s"
    and "cs_results_open s' = cs_results_open s" "cs_todo s' Coordinator = cs_todo s Coordinator"
    and "cs_todo s' Listener = cs_todo s Listener"
    and "cs_w s \<noteq> W_Unstarted" "\<not> worker_done (cs_w s)" "cs_w s' \<noteq> W_Unstarted"
    and "\<not> cs_results_open s \<Longrightarrow> cs_results s' = cs_results s"
    and "settles (cs_cx s) (cs_cx s')"
  using assms
  by (cases e; cases "cs_w s"; auto simp: worker_defs split: list.splits prod.splits option.splits if_splits sum.splits
      intro: settles_operations settles_updates)+

lemma worker_leaves:
  assumes "worker e s = Some s'" "worker_leaving (cs_w s')" "stopped_clean s" "phases s"
  shows "\<not> cx_accepting (cs_cx s')"
proof -
  have "\<not> cx_accepting (cs_cx s')
      \<or> (worker_busy (cs_w s) \<and> \<not> cs_results_open s \<and> cx_accepting (cs_cx s') = cx_accepting (cs_cx s))
      \<or> (worker_leaving (cs_w s) \<and> cx_accepting (cs_cx s') = cx_accepting (cs_cx s))"
    using assms(1,2)
    by (cases e; cases "cs_w s"; simp add: worker_defs stop_and_reject_pending_def
        split: option.splits if_splits sum.splits; auto)
  then show ?thesis
    using assms(3,4) by (auto simp: stopped_clean_def phases_def)
qed

lemma worker_starts:
  assumes "worker e s = Some s'" "\<not> worker_busy (cs_w s)" "cx_requests (cs_cx s) = 0"
  shows "\<not> worker_busy (cs_w s')" "cx_requests (cs_cx s') = 0" "cs_results s' = cs_results s"
    and "cx_attempt (cs_cx s) = None \<Longrightarrow> cx_attempt (cs_cx s') = None"
proof -
  have "s' \<in> {worker_check s, s\<lparr>cs_w := W_Check\<rparr>} \<or> (\<exists>f. s' = worker_start f s)
      \<or> (\<exists>x. s' = worker_stop x s) \<or> (\<exists>r. s' = worker_exit r s)"
  proof (cases "cs_w s")
    case W_Recv
    then show ?thesis using assms by (cases e) (auto simp: worker_recv_def)
  qed (use assms in \<open>cases e; auto\<close>)+
  then show "\<not> worker_busy (cs_w s')" "cx_requests (cs_cx s') = 0" "cs_results s' = cs_results s"
    "cx_attempt (cs_cx s) = None \<Longrightarrow> cx_attempt (cs_cx s') = None"
    using assms(3)
    by (auto simp: worker_check_def worker_start_def worker_stop_def worker_exit_def
        stop_and_reject_pending_def split: option.splits if_splits)
qed

lemma phased_coordinator:
  assumes "phases s" "coordinator e s = Some s'" "cs_todo s Coordinator = []"
  shows "phases s'"
proof -
  note frame = coordinator_frame[OF assms(2)]
  have "\<not> starting (cs_t s)" "\<not> ended (cs_t s)" "\<not> startup_failed (cs_t s)"
    using assms(1) frame(7,8) by (cases "cs_t s"; auto simp: phases_def)+
  then show ?thesis
    using assms(1) frame by (auto simp: phases_def)
qed

lemma phased_worker:
  assumes "phases s" "stopped_clean s" "worker e s = Some s'" "cs_todo s Worker = []"
  shows "phases s'" "stopped_clean s'"
proof -
  note frame = worker_frame[OF assms(3)] and leaves = worker_leaves[OF assms(3) _ assms(2,1)]
  have "\<not> ended (cs_t s)" using assms(1) frame(10,11) by (auto simp: phases_def)
  moreover have "cs_c s = C_Unstarted \<Longrightarrow> \<not> worker_busy (cs_w s) \<and> cx_requests (cs_cx s) = 0"
    using assms(1) by (simp add: phases_def)
  ultimately show "phases s'"
    using assms(1) frame worker_starts[OF assms(3)] by (auto simp: phases_def)
  show "stopped_clean s'"
    using assms(2) frame leaves by (auto simp: stopped_clean_def settles_def)
qed

lemma phased_micro:
  assumes "phases s" "stopped_clean s" "micro_step th s = Some s'"
  shows "phases s'" "stopped_clean s'"
proof -
  obtain m ms further closed cx where todo: "cs_todo s th = m # ms"
    and m: "run_micro m (cs_cx s) = (further, closed, cx)"
    and s': "s' = leave th (further @ ms) (s\<lparr>cs_cx := cx, cs_closed := closed @ cs_closed s\<rparr>)"
    using assms(3) by (auto simp: micro_step_def split: list.splits prod.splits)
  show "stopped_clean s'"
    using assms(2) micro_keeps[OF m] by (simp add: s' stopped_clean_def)
  have "cs_c s \<noteq> C_Unstarted \<and> \<not> ended (cs_t s)" if "th = Coordinator"
    using that todo assms(1) by (auto simp: phases_def)
  moreover have "cs_w s \<noteq> W_Unstarted \<and> \<not> ended (cs_t s)" if "th = Worker"
    using that todo assms(1) by (auto simp: phases_def)
  ultimately show "phases s'"
    using assms(1) micro_keeps[OF m] by (cases th) (auto simp: s' phases_def)
qed

lemma phased_session_end:
  assumes "phases s" "stopped_clean s" "session_end k s = Some s'"
  shows "phases s'" "stopped_clean s'"
proof -
  have "\<exists>ss cl. s' = s\<lparr>cs_sessions := ss, cs_closed := cl\<rparr>" and "cs_sessions s \<noteq> []"
    using assms(3) by (auto simp: session_end_def split: if_splits)
  then obtain ss cl where s': "s' = s\<lparr>cs_sessions := ss, cs_closed := cl\<rparr>" by blast
  from \<open>cs_sessions s \<noteq> []\<close> have "cs_c s \<noteq> C_Unstarted" "\<not> ended (cs_t s)" "cs_t s \<noteq> T_Join"
    using assms(1) by (auto simp: phases_def)
  then show "phases s'" "stopped_clean s'"
    using assms(1,2) by (simp_all add: s' phases_def stopped_clean_def)
qed

lemma phased_spawn:
  assumes "phases s" "stopped_clean s" "cs_todo s Listener = []"
  shows "cs_t s = T_Spawn_Worker \<Longrightarrow>
           phases (listener_spawn_worker f s) \<and> stopped_clean (listener_spawn_worker f s)"
    and "cs_t s = T_Spawn_Coordinator \<Longrightarrow>
           phases (listener_spawn_coordinator f s) \<and> stopped_clean (listener_spawn_coordinator f s)"
proof -
  assume "cs_t s = T_Spawn_Worker"
  moreover from this have "cs_w s = W_Unstarted" "cs_c s = C_Unstarted"
    using assms(1) by (simp_all add: phases_def)
  ultimately show "phases (listener_spawn_worker f s) \<and> stopped_clean (listener_spawn_worker f s)"
    using assms by (cases f) (simp_all add: listener_spawn_worker_def phases_def stopped_clean_def)
next
  assume "cs_t s = T_Spawn_Coordinator"
  moreover from this have "cs_c s = C_Unstarted" "cs_w s \<noteq> W_Unstarted"
    using assms(1) by (auto simp: phases_def)
  ultimately show "phases (listener_spawn_coordinator f s) \<and> stopped_clean (listener_spawn_coordinator f s)"
    using assms by (cases f) (auto simp: listener_spawn_coordinator_def phases_def stopped_clean_def)
qed

lemma phased_listener_move:
  assumes "phases s" "stopped_clean s" "\<not> starting (cs_t s)" "\<not> ended (cs_t s)"
    and "\<not> starting pt" "\<not> ended pt" "cs_t s \<noteq> T_Abort" "cs_t s \<noteq> T_Join"
    and "pt \<noteq> T_Abort" "pt \<noteq> T_Join" "\<not> stopped_listener pt" "\<not> startup_failed pt"
  shows "phases (s\<lparr>cs_t := pt\<rparr>)" "stopped_clean (s\<lparr>cs_t := pt\<rparr>)"
  using assms by (auto simp: phases_def stopped_clean_def)

lemma phased_listener_stop:
  assumes "phases s" "stopped_clean s" "cs_todo s Listener = []"
  shows "cs_t s = T_Stop \<Longrightarrow> phases (listener_stop T_Close s) \<and> stopped_clean (listener_stop T_Close s)"
    and "cs_t s = T_Startup_Stop m \<Longrightarrow>
           phases (listener_stop (T_Startup_Join m) s) \<and> stopped_clean (listener_stop (T_Startup_Join m) s)"
  using assms by (auto simp: listener_stop_def stop_and_reject_pending_def phases_def stopped_clean_def)

lemma thread_outcome_done:
  "thread_outcome s Coordinator = Some r \<Longrightarrow> coordinator_done (cs_c s) \<and> cs_todo s Coordinator = []"
  "thread_outcome s Worker = Some r \<Longrightarrow> worker_done (cs_w s) \<and> cs_todo s Worker = []"
  by (auto simp: thread_outcome_def split: if_splits coordinator_pc.splits worker_pc.splits)

lemma phased_join:
  assumes "phases s" "stopped_clean s"
  shows "cs_t s = T_Join \<Longrightarrow> listener_join s = Some s' \<Longrightarrow> phases s' \<and> stopped_clean s'"
    and "cs_t s = T_Startup_Join m \<Longrightarrow> listener_startup_join m s = Some s' \<Longrightarrow> phases s' \<and> stopped_clean s'"
proof -
  assume t: "cs_t s = T_Join" "listener_join s = Some s'"
  then obtain rc rw where "thread_outcome s Coordinator = Some rc" "thread_outcome s Worker = Some rw"
      "s' = s\<lparr>cs_t := T_End (and_then rc (\<lambda>_. rw))\<rparr>"
    by (auto simp: listener_join_def split: option.splits)
  then show "phases s' \<and> stopped_clean s'"
    using assms t(1) by (auto simp: phases_def stopped_clean_def dest!: thread_outcome_done)
next
  assume t: "cs_t s = T_Startup_Join m" "listener_startup_join m s = Some s'"
  then obtain rw r where "thread_outcome s Worker = Some rw"
      "s' = s\<lparr>cs_queue_open := False, cs_t := T_End r\<rparr>"
    by (auto simp: listener_startup_join_def split: option.splits sum.splits)
  then show "phases s' \<and> stopped_clean s'"
    using assms t(1) by (auto simp: phases_def stopped_clean_def dest!: thread_outcome_done)
qed

lemma phased_wind_up:
  assumes "phases s" "stopped_clean s" "cs_todo s Listener = []"
  shows "cs_t s = T_Close \<Longrightarrow> phases (listener_close s) \<and> stopped_clean (listener_close s)"
    and "cs_t s = T_Abort \<Longrightarrow> phases (listener_abort s) \<and> stopped_clean (listener_abort s)"
    and "cs_t s = T_Convert h \<Longrightarrow> phases (listener_convert ok h s) \<and> stopped_clean (listener_convert ok h s)"
    and "cs_t s = T_Loop \<Longrightarrow> listener_receive s = Some s' \<Longrightarrow> phases s' \<and> stopped_clean s'"
    and "cs_t s = T_Loop \<Longrightarrow> phases (s\<lparr>cs_t := T_Stop\<rparr>) \<and> stopped_clean (s\<lparr>cs_t := T_Stop\<rparr>)"
  using assms
  by (auto simp: listener_close_def listener_abort_def listener_convert_def listener_receive_def
      phases_def stopped_clean_def split: list.splits coordinator_pc.splits)

lemma phased_listener:
  assumes "phases s" "stopped_clean s" "cs_todo s Listener = []" "listener e s = Some s'"
  shows "phases s' \<and> stopped_clean s'"
proof (cases e)
  case T_Go
  then show ?thesis
    using assms(4) phased_wind_up(1,2)[OF assms(1-3)] phased_join[OF assms(1,2)]
      phased_listener_stop[OF assms(1-3)]
    by (cases "cs_t s") auto
next
  case (T_Spawned f)
  then show ?thesis
    using assms(4) phased_spawn[OF assms(1-3), of f] by (cases "cs_t s") auto
next
  case (T_Converted ok)
  then show ?thesis
    using assms(4) phased_wind_up(3)[OF assms(1-3), where ok = ok] by (cases "cs_t s") auto
qed (use assms(4) phased_wind_up(4,5)[OF assms(1-3)] in \<open>auto split: if_splits\<close>)

lemma phased_step:
  assumes "phases s" "stopped_clean s" "conditional_step e s = Some s'"
  shows "phases s' \<and> stopped_clean s'"
proof (cases e)
  case (Micro th)
  then show ?thesis using assms(3) phased_micro[OF assms(1,2)] by simp
next
  case (CoordinatorStep e)
  then show ?thesis
    using assms(3) phased_coordinator[OF assms(1)] stopped_clean_coordinator[OF assms(2)]
    by (simp split: if_splits)
next
  case (WorkerStep e)
  then show ?thesis using assms(3) phased_worker[OF assms(1,2)] by (simp split: if_splits)
next
  case (ListenerStep e)
  then show ?thesis using assms(3) phased_listener[OF assms(1,2)] by (simp split: if_splits)
next
  case (SessionEnd k)
  then show ?thesis using assms(3) phased_session_end[OF assms(1,2)] by simp
qed

lemma run_invariant:
  assumes "conditional_run es s = Some s'" "P s"
    and "\<And>e s s'. P s \<Longrightarrow> conditional_step e s = Some s' \<Longrightarrow> P s'"
  shows "P s'"
  using assms(1,2)
  by (induction es arbitrary: s) (auto split: option.splits intro: assms(3))

definition orderly :: "conditional_state \<Rightarrow> bool" where
  "orderly s \<longleftrightarrow> accounts s \<and> phases s \<and> stopped_clean s"

lemma orderly_step:
  assumes "orderly s" "conditional_step e s = Some s'"
  shows "orderly s'"
proof -
  have inv: "accounts s" "phases s" "stopped_clean s" using assms(1) by (simp_all add: orderly_def)
  then have "unlaunched s" by (simp add: phases_def unlaunched_def)
  from accounts_step[OF inv(1) this assms(2)] phased_step[OF inv(2,3) assms(2)]
  show ?thesis by (simp add: orderly_def)
qed

lemma orderly_init: "l \<noteq> INVALID_SOCKET \<Longrightarrow> orderly (conditional_init l)"
  using accounts_init
  by (simp add: orderly_def phases_def stopped_clean_def conditional_init_def context_new_def)

lemma orderly_reachable: "conditional_reachable s \<Longrightarrow> orderly s"
  by (auto simp: conditional_reachable_def intro: run_invariant[where P = orderly] orderly_step orderly_init)

end
