(* ===== verification/Conditional_Shutdown.thy ===== *)
theory Conditional_Shutdown
  imports Conditional_Phases
begin

text \<open>
  Shutdown of the conditional-accept listener: once the context has stopped accepting, every
  schedule of the three threads and the sessions is finite, and it can only end with the
  listener task returned, every socket closed and both counters at zero.
\<close>

section \<open>A measure on stopped states\<close>

fun micro_rank :: "micro \<Rightarrow> nat" where
  "micro_rank M_Swap = 2"
| "micro_rank _ = 1"

fun coordinator_rank :: "coordinator_pc \<Rightarrow> nat" where
  "coordinator_rank C_Unstarted = 0"
| "coordinator_rank (C_End r) = 0"
| "coordinator_rank (C_Exit r) = 10"
| "coordinator_rank (C_Stop r) = 20"
| "coordinator_rank C_Check = 30"
| "coordinator_rank C_Wait = 40"
| "coordinator_rank (C_Judge e m) = 50"
| "coordinator_rank (C_RejectActive e m) = 60"
| "coordinator_rank (C_Terminal e m) = 70"
| "coordinator_rank (C_Failed e m) = 80"
| "coordinator_rank (C_Unmatched g) = 50"
| "coordinator_rank (C_Send h) = 80"
| "coordinator_rank (C_Setup h) = 90"
| "coordinator_rank (C_Transfer p x t g) = 100"
| "coordinator_rank (C_Taken sl x g) = 110"
| "coordinator_rank (C_Returned x) = 120"
| "coordinator_rank C_Accept = 130"
| "coordinator_rank C_Drain = 140"

fun worker_rank :: "worker_pc \<Rightarrow> nat" where
  "worker_rank W_Unstarted = 0"
| "worker_rank (W_End r) = 0"
| "worker_rank (W_Exit r) = 10"
| "worker_rank (W_Stop e) = 20"
| "worker_rank W_Check = 30"
| "worker_rank (W_Send r) = 40"
| "worker_rank (W_Work i at) = 50"
| "worker_rank (W_Snap i at) = 60"
| "worker_rank W_Got = 70"
| "worker_rank W_Recv = 80"
| "worker_rank W_Start = 90"

fun listener_rank :: "listener_pc \<Rightarrow> nat" where
  "listener_rank (T_End r) = 0"
| "listener_rank T_Join = 10"
| "listener_rank T_Abort = 20"
| "listener_rank T_Close = 30"
| "listener_rank T_Stop = 40"
| "listener_rank T_Loop = 50"
| "listener_rank (T_Convert h) = 60"
| "listener_rank (T_Startup_Join m) = 10"
| "listener_rank (T_Startup_Stop m) = 20"
| "listener_rank T_Spawn_Coordinator = 200"
| "listener_rank T_Spawn_Worker = 400"

definition conditional_rank :: "conditional_state \<Rightarrow> nat" where
  "conditional_rank s =
     coordinator_rank (cs_c s) + worker_rank (cs_w s) + listener_rank (cs_t s)
     + 2 * length (cs_results s) + 20 * length (cs_queue s) + 3 * length (cs_sessions s)
     + todo_sum micro_rank s"

lemma micro_rank_drops:
  "sum_list (map micro_rank (drop_prepared p)) \<le> 1" "sum_list (map micro_rank (drop_result r)) \<le> 1"
  "sum_list (map micro_rank (drop_handoff h)) = 3" "sum_list (map micro_rank (drop_session x)) = 2"
  "sum_list (map micro_rank (drop_listener s)) \<le> 1"
  "sum_list (map micro_rank (concat (map drop_result rs))) \<le> length rs"
  "sum_list (map micro_rank (concat (map drop_handoff hs))) = 3 * length hs"
proof -
  show drop: "sum_list (map micro_rank (drop_result r)) \<le> 1" for r by (cases r) simp_all
  show "sum_list (map micro_rank (concat (map drop_result rs))) \<le> length rs"
  proof (induction rs)
    case (Cons r rs)
    then show ?case using drop[of r] by simp
  qed simp
  show "sum_list (map micro_rank (concat (map drop_handoff hs))) = 3 * length hs"
    by (induction hs) (simp_all add: drop_handoff_def)
qed (auto simp: drop_prepared_def drop_handoff_def drop_session_def drop_listener_def split: option.splits)

lemma rank_reject:
  "reject_claimed_generation g cx = (ms, cx') \<Longrightarrow> sum_list (map micro_rank ms) \<le> 4"
  "reject_active_attempt cx = (ms, cx') \<Longrightarrow> sum_list (map micro_rank ms) \<le> 4"
  "stop_and_reject_pending cx = (ms, cx') \<Longrightarrow> sum_list (map micro_rank ms) \<le> 5"
  using micro_rank_drops(1)
  by (auto simp: reject_claimed_generation_def reject_active_attempt_def reject_and_release_def
      stop_and_reject_pending_def split: option.splits if_splits)

lemma rank_micro:
  assumes "micro_step th s = Some s'"
  shows "conditional_rank s' < conditional_rank s"
proof -
  obtain m ms further closed cx where todo: "cs_todo s th = m # ms"
    and m: "run_micro m (cs_cx s) = (further, closed, cx)"
    and s': "s' = leave th (further @ ms) (s\<lparr>cs_cx := cx, cs_closed := closed @ cs_closed s\<rparr>)"
    using assms by (auto simp: micro_step_def split: list.splits prod.splits)
  have "sum_list (map micro_rank further) < micro_rank m"
    using m by (cases m) (auto simp: swap_reservation_def split: if_splits)
  moreover have "todo_sum micro_rank s' = todo_sum micro_rank (leave th ms s) + sum_list (map micro_rank further)"
    and "todo_sum micro_rank s = todo_sum micro_rank (leave th ms s) + micro_rank m"
    using todo_sum_micro[OF todo, of micro_rank] by (simp_all add: s' todo_sum_def)
  ultimately show ?thesis by (simp add: conditional_rank_def s')
qed

text \<open>A step of a thread that leaves operations behind gains at most their weight.\<close>

lemma rank_left:
  assumes "cs_todo s th = []" "cs_todo s' = (cs_todo s)(th := ms)"
    and "coordinator_rank (cs_c s') + worker_rank (cs_w s') + listener_rank (cs_t s')
           + 2 * length (cs_results s') + 20 * length (cs_queue s') + 3 * length (cs_sessions s')
           + sum_list (map micro_rank ms)
         < coordinator_rank (cs_c s) + worker_rank (cs_w s) + listener_rank (cs_t s)
           + 2 * length (cs_results s) + 20 * length (cs_queue s) + 3 * length (cs_sessions s)"
  shows "conditional_rank s' < conditional_rank s"
proof -
  have "todo_sum micro_rank s' = todo_sum micro_rank s + sum_list (map micro_rank ms)"
    using todo_sum_leave[OF assms(1), of micro_rank ms] assms(2) by (simp add: todo_sum_def)
  then show ?thesis using assms(3) by (simp add: conditional_rank_def)
qed

lemma stopped_operations:
  assumes "cx_attempt cx = None"
  shows "reject_claimed_generation g cx = ([], cx)" "reject_active_attempt cx = ([], cx)"
    and "take_claimed g cx = None" "apply_worker_result r cx = (drop_result r, cx)"
    and "stop_and_reject_pending cx = ([M_Swap, M_Wake], cx\<lparr>cx_accepting := False\<rparr>)"
  using assms
  by (simp_all add: reject_claimed_generation_def reject_active_attempt_def take_claimed_def
      apply_worker_result_def stop_and_reject_pending_def)

lemma rank_coordinator:
  assumes "coordinator e s = Some s'" "cs_todo s Coordinator = []"
    and "\<not> cx_accepting (cs_cx s)" "cx_attempt (cs_cx s) = None"
  shows "conditional_rank s' < conditional_rank s"
proof -
  have todo: "cs_todo s' = (cs_todo s)(Coordinator := cs_todo s' Coordinator)"
  proof
    fix th show "cs_todo s' th = ((cs_todo s)(Coordinator := cs_todo s' Coordinator)) th"
      using coordinator_frame(5,6)[OF assms(1)] by (cases th) simp_all
  qed
  have "coordinator_rank (cs_c s') + 2 * length (cs_results s') + 20 * length (cs_queue s')
      + sum_list (map micro_rank (cs_todo s' Coordinator))
      < coordinator_rank (cs_c s) + 2 * length (cs_results s) + 20 * length (cs_queue s)"
  proof (cases e)
    case C_Go
    show ?thesis
    proof (cases "cs_c s")
      case C_Drain
      then show ?thesis
        using assms C_Go micro_rank_drops(2)[of "hd (cs_results s)"]
        by (cases "cs_results s") (auto simp: coordinator_drain_def stopped_operations less_Suc_eq_le)
    next
      case (C_Exit r)
      then show ?thesis
        using assms C_Go micro_rank_drops(5)[of s] micro_rank_drops(6)[of "cs_results s"]
        by (auto simp: coordinator_exit_def)
    qed (use assms C_Go micro_rank_drops(3) in \<open>auto simp: coordinator_defs stopped_operations split: option.splits if_splits\<close>)
  next
    case (C_WSAAccept call r)
    then show ?thesis
      using assms by (auto simp: coordinator_accept_def split: if_splits wsa_return.splits prod.splits)
  next
    case (C_Nonblocking ok)
    then show ?thesis
      using assms micro_rank_drops(3) by (auto simp: coordinator_setup_def split: coordinator_pc.splits if_splits)
  next
    case (C_Waited r)
    then show ?thesis
      using assms by (auto simp: coordinator_wait_def split: if_splits wait_result.splits option.splits)
  qed
  then show ?thesis
    using coordinator_frame(1,2,4)[OF assms(1)] by (intro rank_left[OF assms(2) todo]) simp
qed

lemma rank_worker:
  assumes "worker e s = Some s'" "cs_todo s Worker = []"
    and "\<not> cx_accepting (cs_cx s)" "cx_attempt (cs_cx s) = None"
  shows "conditional_rank s' < conditional_rank s"
proof -
  have todo: "cs_todo s' = (cs_todo s)(Worker := cs_todo s' Worker)"
  proof
    fix th show "cs_todo s' th = ((cs_todo s)(Worker := cs_todo s' Worker)) th"
      using worker_frame(8,9)[OF assms(1)] by (cases th) simp_all
  qed
  have "worker_rank (cs_w s') + 2 * length (cs_results s') + sum_list (map micro_rank (cs_todo s' Worker))
      < worker_rank (cs_w s) + 2 * length (cs_results s)"
  proof (cases "cs_w s")
    case (W_Send r)
    then show ?thesis
      using assms micro_rank_drops(2)[of r] by (cases e) (auto simp: worker_send_def)
  next
    case (W_Work i at)
    then show ?thesis
      using assms by (cases e) (auto simp: worker_work_def worker_panic_def Let_def split: if_splits sum.splits)
  qed (use assms in \<open>cases e; auto simp: worker_start_def worker_check_def worker_recv_def worker_got_def
      worker_snap_def worker_stop_def worker_exit_def stopped_operations deferred_attempt_def
      split: option.splits if_splits\<close>)+
  then show ?thesis
    using worker_frame(1,2,4,5)[OF assms(1)] by (intro rank_left[OF assms(2) todo]) simp
qed

lemma listener_frame:
  assumes "listener e s = Some s'"
  shows "cs_todo s' Coordinator = cs_todo s Coordinator" "cs_todo s' Worker = cs_todo s Worker"
    and "settles (cs_cx s) (cs_cx s')"
  using assms
  by (cases e; cases "cs_t s"; auto simp: listener_spawn_worker_def listener_spawn_coordinator_def
      listener_stop_def listener_startup_join_def listener_receive_def listener_convert_def
      listener_close_def listener_abort_def listener_join_def
      split: option.splits if_splits list.splits sum.splits prod.splits coordinator_pc.splits
      intro: settles_operations settles_updates)+

lemma rank_listener:
  assumes "listener e s = Some s'" "cs_todo s Listener = []"
    and "cx_attempt (cs_cx s) = None" "unlaunched s"
  shows "conditional_rank s' < conditional_rank s"
proof -
  have todo: "cs_todo s' = (cs_todo s)(Listener := cs_todo s' Listener)"
  proof
    fix th show "cs_todo s' th = ((cs_todo s)(Listener := cs_todo s' Listener)) th"
      using listener_frame[OF assms(1)] by (cases th) simp_all
  qed
  show ?thesis
  proof (intro rank_left[OF assms(2) todo], cases "cs_t s")
    case T_Spawn_Coordinator
    then show "coordinator_rank (cs_c s') + worker_rank (cs_w s') + listener_rank (cs_t s')
           + 2 * length (cs_results s') + 20 * length (cs_queue s') + 3 * length (cs_sessions s')
           + sum_list (map micro_rank (cs_todo s' Listener))
         < coordinator_rank (cs_c s) + worker_rank (cs_w s) + listener_rank (cs_t s)
           + 2 * length (cs_results s) + 20 * length (cs_queue s) + 3 * length (cs_sessions s)"
      using assms micro_rank_drops(5)[of s] micro_rank_drops(6)[of "cs_results s"]
      by (cases e) (auto simp: listener_spawn_coordinator_def unlaunched_def split: option.splits)
  qed (use assms micro_rank_drops(5)[of s] micro_rank_drops(3,4,7) in
      \<open>cases e; auto simp: listener_spawn_worker_def unlaunched_def
        listener_stop_def listener_startup_join_def listener_receive_def listener_convert_def
        listener_close_def listener_abort_def listener_join_def stopped_operations
        split: option.splits if_splits list.splits sum.splits coordinator_pc.splits\<close>)+
qed

lemma rank_session_end:
  assumes "session_end k s = Some s'"
  shows "conditional_rank s' < conditional_rank s"
  using assms by (auto simp: session_end_def conditional_rank_def split: if_splits)

lemma rank_step:
  assumes "orderly s" "\<not> cx_accepting (cs_cx s)" "conditional_step e s = Some s'"
  shows "conditional_rank s' < conditional_rank s"
proof -
  have none: "cx_attempt (cs_cx s) = None" and "unlaunched s"
    using assms(1,2) by (simp_all add: orderly_def stopped_clean_def phases_def unlaunched_def)
  then show ?thesis
    using assms(3) rank_micro rank_coordinator[OF _ _ assms(2) none] rank_worker[OF _ _ assms(2) none]
      rank_listener[OF _ _ none] rank_session_end
    by (cases e) (simp_all split: if_splits)
qed

lemma settles_step:
  assumes "conditional_step e s = Some s'"
  shows "settles (cs_cx s) (cs_cx s')"
proof (cases e)
  case (Micro th)
  then show ?thesis
    using assms by (auto simp: micro_step_def split: list.splits prod.splits intro: settles_operations(8))
qed (use assms coordinator_settles worker_frame(14) listener_frame(3) settles_operations(1) in
      \<open>auto simp: session_end_def split: if_splits\<close>)

lemma stopped_run:
  assumes "orderly s" "\<not> cx_accepting (cs_cx s)" "conditional_run es s = Some s'"
  shows "length es + conditional_rank s' \<le> conditional_rank s"
  using assms
proof (induction es arbitrary: s)
  case (Cons e es)
  then obtain u where u: "conditional_step e s = Some u" "conditional_run es u = Some s'"
    by (auto split: option.splits)
  have "length es + conditional_rank s' \<le> conditional_rank u"
    using Cons.IH[OF orderly_step[OF Cons.prems(1) u(1)] _ u(2)] settles_step[OF u(1)] Cons.prems(2)
    by (auto simp: settles_def)
  with rank_step[OF Cons.prems(1,2) u(1)] show ?case by simp
qed simp

section \<open>The last reservation\<close>

text \<open>After a stop nothing sets the reservation again, and the swap that the stop left behind
  takes it.\<close>

definition swap_due :: "conditional_state \<Rightarrow> bool" where
  "swap_due s \<longleftrightarrow> (\<exists>th. M_Swap \<in> set (cs_todo s th))"

definition reservation_due :: "conditional_state \<Rightarrow> bool" where
  "reservation_due s \<longleftrightarrow>
     (cx_handoff_reserved (cs_cx s) \<longrightarrow>
        cs_c s \<noteq> C_Unstarted \<and> (cx_accepting (cs_cx s) \<or> swap_due s))"

lemma callback_cases:
  assumes "invoke_callback call cx = (answer, cx')"
  obtains (same) "answer = CF_REJECT" "cx' = cx"
    | (revisit) sl t where "presented call = Some t" "cx_attempt cx = Some sl"
        "revisit_attempt sl t cx = (answer, cx')"
    | (admit) t now where "presented call = Some t" "cx_attempt cx = None"
        "admit_attempt t now cx = (answer, cx')"
proof (cases "presented call = None \<or> (\<exists>c. call = Some c \<and> cb_busy c)")
  case True
  then have "answer = CF_REJECT \<and> cx' = cx"
    using assms by (auto simp: invoke_callback_def condition_callback_def presented_def
        split: option.splits if_splits)
  then show ?thesis using same by blast
next
  case False
  then obtain t c where t: "presented call = Some t" and c: "call = Some c" "\<not> cb_busy c"
    by (cases call) (auto simp: presented_def)
  show ?thesis
  proof (cases "cx_attempt cx")
    case None
    then show ?thesis
      using assms t c by (intro admit[of t "cb_now c"])
        (simp_all add: invoke_callback_def condition_callback_def presented_def)
  next
    case (Some sl)
    then show ?thesis
      using assms t c by (intro revisit[of t sl])
        (simp_all add: invoke_callback_def condition_callback_def presented_def)
  qed
qed

lemma callback_reserves:
  assumes "invoke_callback call (cx\<lparr>cx_accepted_generation := 0\<rparr>) = (answer, cx')"
    and "cx_handoff_reserved cx'"
  shows "cx_handoff_reserved cx \<or> cx_accepting cx'"
  using assms(1)
proof (cases rule: callback_cases)
  case (revisit sl t)
  then show ?thesis
    using assms(2)
    by (auto simp: revisit_attempt_def reserve_handoff_def claim_ready_attempt_def
        release_handoff_reservation_def swap_reservation_def release_handoff_def
        split: attempt_state.splits if_splits)
next
  case (admit t now)
  then show ?thesis
    using assms(2)
    by (auto simp: admit_attempt_def reserve_def try_send_request_def wake_def
        release_handoff_reservation_def swap_reservation_def release_handoff_def split: if_splits)
qed (use assms(2) in simp)

lemma context_reserves:
  "apply_worker_result r cx = (ms, cx') \<Longrightarrow>
     cx_handoff_reserved cx' = cx_handoff_reserved cx \<and> cx_accepting cx' = cx_accepting cx"
  "reject_claimed_generation g cx = (ms, cx') \<Longrightarrow>
     cx_handoff_reserved cx' = cx_handoff_reserved cx \<and> cx_accepting cx' = cx_accepting cx"
  "reject_active_attempt cx = (ms, cx') \<Longrightarrow>
     cx_handoff_reserved cx' = cx_handoff_reserved cx \<and> cx_accepting cx' = cx_accepting cx"
  "take_claimed g cx = Some (sl, cx') \<Longrightarrow>
     cx_handoff_reserved cx' = cx_handoff_reserved cx \<and> cx_accepting cx' = cx_accepting cx"
  "stop_and_reject_pending cx = (ms, cx') \<Longrightarrow>
     cx_handoff_reserved cx' = cx_handoff_reserved cx \<and> M_Swap \<in> set ms"
  by (auto simp: apply_worker_result_def complete_attempt_def reject_claimed_generation_def
      reject_active_attempt_def take_claimed_def stop_and_reject_pending_def
      split: option.splits if_splits worker_result.splits prod.splits bool.splits)

text \<open>A thread's step does not set the reservation without accepting, and when it stops accepting
  it leaves a swap.\<close>

definition reserves :: "thread \<Rightarrow> conditional_state \<Rightarrow> conditional_state \<Rightarrow> bool" where
  "reserves th s s' \<longleftrightarrow>
     (cx_handoff_reserved (cs_cx s') \<longrightarrow> cx_handoff_reserved (cs_cx s) \<or> cx_accepting (cs_cx s'))
     \<and> (cx_accepting (cs_cx s') = cx_accepting (cs_cx s) \<or> M_Swap \<in> set (cs_todo s' th))"

lemma reserves_same:
  "\<lbrakk>cx_handoff_reserved (cs_cx s') = cx_handoff_reserved (cs_cx s);
    cx_accepting (cs_cx s') = cx_accepting (cs_cx s)\<rbrakk> \<Longrightarrow> reserves th s s'"
  by (simp add: reserves_def)

lemma reservation_due_left:
  assumes "reservation_due s" "reserves th s s'" "cs_todo s th = []"
    and "\<forall>th'. th' \<noteq> th \<longrightarrow> cs_todo s' th' = cs_todo s th'"
    and "cs_c s' = C_Unstarted \<Longrightarrow> cs_c s = C_Unstarted \<and> cx_handoff_reserved (cs_cx s') = cx_handoff_reserved (cs_cx s)"
  shows "reservation_due s'"
proof -
  have "swap_due s'" if "swap_due s"
  proof -
    from that obtain th' where th': "M_Swap \<in> set (cs_todo s th')" by (auto simp: swap_due_def)
    then have "th' \<noteq> th" using assms(3) by auto
    with assms(4) have "cs_todo s' th' = cs_todo s th'" by blast
    with th' show ?thesis unfolding swap_due_def by metis
  qed
  then show ?thesis
    using assms(1,2,5) by (auto simp: reservation_due_def reserves_def swap_due_def)
qed

lemma reserves_coordinator:
  assumes "coordinator e s = Some s'"
  shows "reserves Coordinator s s'"
proof (cases "\<exists>call r. e = C_WSAAccept call r")
  case True
  then obtain call r where e: "e = C_WSAAccept call r" by blast
  obtain answer cx where cb:
    "invoke_callback call ((cs_cx s)\<lparr>cx_accepted_generation := 0\<rparr>) = (answer, cx)" by fastforce
  show ?thesis
    using assms e cb callback_reserves[OF cb] callback_keeps(1)[OF cb]
    by (auto simp: reserves_def coordinator_accept_def split: if_splits wsa_return.splits)
next
  case False
  then show ?thesis
    using assms
    by (cases e; cases "cs_c s")
       (auto simp: reserves_def coordinator_defs split: coordinator_splits
          dest!: context_reserves)
qed

lemma reserves_worker:
  assumes "worker e s = Some s'"
  shows "reserves Worker s s'"
  using assms
  by (cases e; cases "cs_w s")
     (auto simp: reserves_def worker_defs split: list.splits prod.splits option.splits if_splits sum.splits
        dest!: context_reserves(5))

lemma reserves_listener:
  assumes "listener e s = Some s'"
  shows "reserves Listener s s'" "cx_handoff_reserved (cs_cx s') = cx_handoff_reserved (cs_cx s)"
    and "cs_c s' = C_Unstarted \<Longrightarrow> cs_c s = C_Unstarted"
  using assms
  by (cases e; cases "cs_t s"; auto simp: reserves_def listener_spawn_worker_def listener_spawn_coordinator_def
      listener_stop_def listener_startup_join_def listener_receive_def listener_convert_def
      listener_close_def listener_abort_def listener_join_def
      split: option.splits if_splits list.splits sum.splits prod.splits coordinator_pc.splits
      dest!: context_reserves(5))+

lemma reservation_due_step:
  assumes "reservation_due s" "conditional_step e s = Some s'"
  shows "reservation_due s'"
proof (cases e)
  case (Micro th)
  obtain m ms further closed cx where todo: "cs_todo s th = m # ms"
    and m: "run_micro m (cs_cx s) = (further, closed, cx)"
    and s': "s' = leave th (further @ ms) (s\<lparr>cs_cx := cx, cs_closed := closed @ cs_closed s\<rparr>)"
    using Micro assms(2) by (auto simp: micro_step_def split: list.splits prod.splits)
  have "cx_handoff_reserved cx = cx_handoff_reserved (cs_cx s) \<and> m \<noteq> M_Swap \<or> \<not> cx_handoff_reserved cx"
    using m by (cases m) (auto simp: swap_reservation_def release_handoff_def wake_def split: if_splits)
  moreover have "swap_due s'" if "swap_due s" "m \<noteq> M_Swap"
  proof -
    from that(1) obtain th' where th': "M_Swap \<in> set (cs_todo s th')" by (auto simp: swap_due_def)
    then have "M_Swap \<in> set (cs_todo s' th')" using todo that(2) by (auto simp: s')
    then show ?thesis unfolding swap_due_def by blast
  qed
  ultimately show ?thesis
    using assms(1) micro_keeps[OF m] by (auto simp: reservation_due_def s')
next
  case (CoordinatorStep e)
  then have c: "coordinator e s = Some s'" "cs_todo s Coordinator = []"
    using assms(2) by (auto split: if_splits)
  have "\<forall>th'. th' \<noteq> Coordinator \<longrightarrow> cs_todo s' th' = cs_todo s th'"
    using coordinator_frame(5,6)[OF c(1)] by (metis thread.exhaust)
  then show ?thesis
    using reservation_due_left[OF assms(1) reserves_coordinator[OF c(1)] c(2)]
      coordinator_frame(9)[OF c(1)] by blast
next
  case (WorkerStep e)
  then have w: "worker e s = Some s'" "cs_todo s Worker = []"
    using assms(2) by (auto split: if_splits)
  have "\<forall>th'. th' \<noteq> Worker \<longrightarrow> cs_todo s' th' = cs_todo s th'"
    using worker_frame(8,9)[OF w(1)] by (metis thread.exhaust)
  moreover have "cx_handoff_reserved (cs_cx s') = cx_handoff_reserved (cs_cx s)"
    using w(1)
    by (cases e; cases "cs_w s") (auto simp: worker_defs
      split: list.splits prod.splits option.splits if_splits sum.splits dest!: context_reserves(5))
  ultimately show ?thesis
    using reservation_due_left[OF assms(1) reserves_worker[OF w(1)] w(2)] worker_frame(1)[OF w(1)] by auto
next
  case (ListenerStep e)
  then have l: "listener e s = Some s'" "cs_todo s Listener = []"
    using assms(2) by (auto split: if_splits)
  have "\<forall>th'. th' \<noteq> Listener \<longrightarrow> cs_todo s' th' = cs_todo s th'"
    using listener_frame(1,2)[OF l(1)] by (metis thread.exhaust)
  then show ?thesis
    using reservation_due_left[OF assms(1) reserves_listener(1)[OF l(1)] l(2)]
      reserves_listener(2,3)[OF l(1)] by blast
next
  case (SessionEnd k)
  then show ?thesis
    using assms(1,2) by (auto simp: session_end_def reservation_due_def swap_due_def split: if_splits)
qed

lemma reservation_due_reachable: "conditional_reachable s \<Longrightarrow> reservation_due s"
proof -
  have "reservation_due (conditional_init l)" for l
    by (simp add: reservation_due_def conditional_init_def context_new_def)
  then show "conditional_reachable s \<Longrightarrow> reservation_due s"
    unfolding conditional_reachable_def using run_invariant reservation_due_step by metis
qed

section \<open>Some thread can always go on\<close>

lemma coordinator_can_step:
  assumes "cs_c s \<noteq> C_Unstarted" "\<not> coordinator_done (cs_c s)"
  shows "\<exists>e s'. coordinator e s = Some s'"
proof (cases "cs_c s")
  case C_Accept
  then have "coordinator (C_WSAAccept None (WsaFailed 0 [])) s
      = Some (s\<lparr>cs_cx := (cs_cx s)\<lparr>cx_accepted_generation := 0\<rparr>, cs_c := C_Failed 0 []\<rparr>)"
    by (simp add: coordinator_accept_def invoke_callback_def)
  then show ?thesis by blast
next
  case (C_Setup h)
  then have "coordinator (C_Nonblocking True) s = Some (coordinator_setup True h s)" by simp
  then show ?thesis by blast
next
  case C_Wait
  then have "coordinator (C_Waited WaitTimeout) s = Some (s\<lparr>cs_c := C_Check\<rparr>)"
    by (simp add: coordinator_wait_def)
  then show ?thesis by blast
qed (use assms in \<open>auto intro!: exI[of _ C_Go]\<close>)

lemma worker_can_step:
  assumes "cs_w s \<noteq> W_Unstarted" "\<not> worker_done (cs_w s)"
  shows "\<exists>e s'. worker e s = Some s'"
proof (cases "cs_w s")
  case W_Start
  then have "worker (W_Built None) s = Some (worker_start None s)" by simp
  then show ?thesis by blast
next
  case W_Recv
  then have "worker W_Timeout s = Some (s\<lparr>cs_w := W_Check\<rparr>)" by simp
  then show ?thesis by blast
next
  case (W_Work i at)
  then have "worker W_Panic s = Some (worker_panic s)" by simp
  then show ?thesis by blast
qed (use assms in \<open>auto intro!: exI[of _ W_Go]\<close>)

lemma listener_can_step:
  assumes "phases s" "cs_c s = C_Unstarted \<or> coordinator_done (cs_c s)"
    and "cs_w s = W_Unstarted \<or> worker_done (cs_w s)" "\<forall>th. cs_todo s th = []" "\<not> ended (cs_t s)"
  shows "\<exists>e s'. listener e s = Some s'"
proof (cases "cs_t s")
  case T_Spawn_Worker
  then have "listener (T_Spawned None) s = Some (listener_spawn_worker None s)" by simp
  then show ?thesis by blast
next
  case T_Spawn_Coordinator
  then have "listener (T_Spawned None) s = Some (listener_spawn_coordinator None s)" by simp
  then show ?thesis by blast
next
  case (T_Startup_Join m)
  then have "worker_done (cs_w s)" using assms(1,3) by (auto simp: phases_def)
  then obtain r where "thread_outcome s Worker = Some r"
    using assms(4) by (cases "cs_w s") (auto simp: thread_outcome_def)
  then have "\<exists>s'. listener_startup_join m s = Some s'"
    by (cases r) (auto simp: listener_startup_join_def)
  then show ?thesis using T_Startup_Join by (auto intro!: exI[of _ T_Go])
next
  case T_Loop
  then have "listener T_Shutdown s = Some (s\<lparr>cs_t := T_Stop\<rparr>)" by simp
  then show ?thesis by blast
next
  case (T_Convert h)
  then have "listener (T_Converted True) s = Some (listener_convert True h s)" by simp
  then show ?thesis by blast
next
  case T_Join
  then have "coordinator_done (cs_c s)" "worker_done (cs_w s)" using assms(1-3) by (auto simp: phases_def)
  then obtain rc rw where "thread_outcome s Coordinator = Some rc" "thread_outcome s Worker = Some rw"
    using assms(4) by (cases "cs_c s"; cases "cs_w s") (auto simp: thread_outcome_def)
  then have "\<exists>s'. listener_join s = Some s'" by (auto simp: listener_join_def)
  then show ?thesis using T_Join by (auto intro!: exI[of _ T_Go])
qed (use assms(5) in \<open>auto intro!: exI[of _ T_Go]\<close>)

lemma stuck_ended:
  assumes "phases s" "\<forall>e. conditional_step e s = None"
  shows "ended (cs_t s)" "cs_todo s th = []"
proof -
  have todo: "cs_todo s th = []" for th
  proof (cases "cs_todo s th")
    case (Cons m ms)
    then have "micro_step th s \<noteq> None" by (simp add: micro_step_def split: prod.splits)
    then show ?thesis using assms(2)[rule_format, of "Micro th"] by simp
  qed
  then show "cs_todo s th = []" .
  have "coordinator e s = None" "worker f s = None" "listener g s = None" for e f g
    using assms(2)[rule_format, of "CoordinatorStep e"] assms(2)[rule_format, of "WorkerStep f"]
      assms(2)[rule_format, of "ListenerStep g"] todo by simp_all
  then show "ended (cs_t s)"
    using coordinator_can_step[of s] worker_can_step[of s] listener_can_step[OF assms(1)] todo
    by (metis option.distinct(1))
qed

lemma ended_clean:
  assumes "orderly s" "reservation_due s" "ended (cs_t s)" "\<And>th. cs_todo s th = []"
  shows "mset (cs_closed s) = mset (cs_opened s)" "ad_pending (cx_admissions (cs_cx s)) = 0"
    and "cx_handoffs (cs_cx s) = 0"
proof -
  have ph: "phases s" "stopped_clean s" "accounts s" using assms(1) by (simp_all add: orderly_def)
  have slot: "cx_attempt (cs_cx s) = None"
    using ph(1,2) assms(3) by (auto simp: phases_def stopped_clean_def)
  have c: "cs_c s = C_Unstarted \<or> coordinator_done (cs_c s)" and w: "cs_w s = W_Unstarted \<or> worker_done (cs_w s)"
    and lists: "cs_sessions s = []" "cs_queue s = []" "cs_results s = []" "cs_listener s = None"
    using ph(1) assms(3) by (simp_all add: phases_def)
  have "\<not> cx_handoff_reserved (cs_cx s)"
    using assms(2,4) c ph(2) by (auto simp: reservation_due_def swap_due_def stopped_clean_def)
  moreover have "coordinator_pending (cs_c s) = 0" "coordinator_handoffs (cs_c s) = 0" "coordinator_sockets (cs_c s) = {#}"
    using c by (cases "cs_c s"; simp)+
  moreover have "worker_sockets (cs_w s) = {#}" using w by (cases "cs_w s") simp_all
  moreover have "listener_handoffs (cs_t s) = 0" "listener_sockets (cs_t s) = {#}"
    using assms(3) by (cases "cs_t s"; simp)+
  moreover have "todo_sum f s = 0" for f :: "micro \<Rightarrow> 'm::comm_monoid_add"
    using assms(4) by (simp add: todo_sum_def)
  ultimately show "mset (cs_closed s) = mset (cs_opened s)" "ad_pending (cx_admissions (cs_cx s)) = 0"
      "cx_handoffs (cs_cx s) = 0"
    using ph(3) slot lists
    by (simp_all add: accounts_def counted_def owned_sockets_def held_defs slot_sockets_def)
qed

section \<open>A sample schedule\<close>

text \<open>Thread start, a deferred connection, its preconnect, its acceptance and its handoff to a
  session; then a shutdown that begins while the session runs.\<close>

definition sample_call :: callback_call where
  "sample_call =
     \<lparr>cb_busy = False, cb_now = 0,
      cb_caller = Some (Some ([2, 0, 0x0F, 0xA0, 10, 0, 0, 2] @ replicate 8 0)),
      cb_callee = Some (Some ([2, 0, 0x1F, 0x90, 127, 0, 0, 1] @ replicate 8 0))\<rparr>"

definition sample_mapping :: original_destination where
  "sample_mapping = \<lparr>od_address = SocketAddrV4 0x08080808 80, od_protocol = 6\<rparr>"

definition sample_deferral :: "event list" where
  "sample_deferral =
     [ListenerStep (T_Spawned None), ListenerStep (T_Spawned None), WorkerStep (W_Built None),
      WorkerStep W_Go, CoordinatorStep C_Go, CoordinatorStep C_Go,
      CoordinatorStep (C_WSAAccept (Some sample_call) (WsaFailed WSATRY_AGAIN []))]"

definition sample_preconnect :: "event list" where
  "sample_preconnect =
     [CoordinatorStep C_Go, CoordinatorStep C_Go, CoordinatorStep C_Go, WorkerStep W_Go,
      WorkerStep W_Go, WorkerStep W_Go,
      WorkerStep (W_Worked 0 WorkFinished (Inr sample_mapping) (Inr 5)), WorkerStep W_Go,
      Micro Worker, CoordinatorStep (C_Waited WaitTimeout), CoordinatorStep C_Go,
      CoordinatorStep C_Go, CoordinatorStep C_Go]"

definition sample_handoff :: "event list" where
  "sample_handoff =
     [CoordinatorStep (C_WSAAccept (Some sample_call) (WsaReturned 7)), CoordinatorStep C_Go,
      CoordinatorStep C_Go, Micro Coordinator, CoordinatorStep C_Go,
      CoordinatorStep (C_Nonblocking True), CoordinatorStep C_Go, ListenerStep T_Receive,
      ListenerStep (T_Converted True), Micro Listener]"

definition sample_stop :: "event list" where
  "sample_stop = [ListenerStep T_Shutdown, ListenerStep T_Go]"

definition sample_events :: "event list" where
  "sample_events = sample_deferral @ sample_preconnect @ sample_handoff"

lemma sample_valid: "(3::socket) \<noteq> INVALID_SOCKET"
  by (simp add: INVALID_SOCKET_def usize_max_def)

lemma sample_reachable:
  "conditional_run es (conditional_init 3) = Some s \<Longrightarrow> conditional_reachable s"
  unfolding conditional_reachable_def using sample_valid by blast

lemmas sample_simps = conditional_init_def context_new_def admissions_new_def coordinator_defs worker_defs
  listener_spawn_worker_def listener_spawn_coordinator_def listener_stop_def listener_receive_def
  listener_convert_def micro_step_def invoke_callback_def condition_callback_def callback_tuple_def
  presented_def socket_addr_from_wsa_buf_def revisit_attempt_def admit_attempt_def reserve_def
  attempt_new_def slot_new_def try_send_request_def wake_def reserve_handoff_def
  claim_ready_attempt_def store_state_def attempt_state_of_def from_raw.simps take_claimed_def
  apply_worker_result_def complete_attempt_def mark_attempt_ready_def drop_prepared_def
  deferred_attempt_def attempt_state_for_def withdrawn_in_time_def preconnect_attempt_def
  conditional_preconnect_budget_def preconnect_work_def validate_tcp_mapping_def and_then_def
  stop_and_reject_pending_def attempt_terminal_def is_transient_error_def
  is_conditional_client_error_def release_def release_handoff_def fetch_sub_one_def session_of_def
  fresh_socket_def INVALID_SOCKET_def usize_max_def CONDITIONAL_ATTEMPT_CAPACITY_def
  WSATRY_AGAIN_def leave_def slice_def from_ne_bytes_def from_be_bytes_def TCP_PROTOCOL_def
  sample_call_def sample_mapping_def

definition sample_session :: session where
  "sample_session =
     \<lparr>se_accepted = 7, se_outbound = 5,
      se_tuple = \<lparr>ht_source = SocketAddrV4 0x0A000002 4000,
                  ht_destination = SocketAddrV4 0x7F000001 8080, ht_protocol = 6\<rparr>,
      se_destination = SocketAddrV4 0x08080808 80\<rparr>"

lemma sample_run:
  "map_option cs_sessions (conditional_run sample_events (conditional_init 3)) = Some [sample_session]"
  by (simp add: sample_events_def sample_deferral_def sample_preconnect_def sample_handoff_def
      sample_session_def sample_simps)

lemma sample_stopped:
  "map_option (\<lambda>s. cx_accepting (cs_cx s)) (conditional_run (sample_events @ sample_stop) (conditional_init 3))
     = Some False"
  by (simp add: sample_events_def sample_deferral_def sample_preconnect_def sample_handoff_def
      sample_stop_def sample_simps)

lemma distinct_split:
  assumes "distinct xs" "mset xs = mset ys + M"
  shows "distinct ys \<and> set ys \<subseteq> set xs \<and> set_mset M = set xs - set ys \<and> (\<forall>x. count M x \<le> 1)"
proof -
  obtain zs where M: "M = mset zs" using ex_mset by metis
  with assms have "distinct (ys @ zs)" "set xs = set (ys @ zs)"
    by (metis mset_append mset_eq_imp_distinct_iff, metis mset_append mset_eq_setD)
  moreover from this have "distinct zs" by simp
  then have "count (mset zs) x \<le> 1" for x
    by (cases "x \<in> set zs") (simp_all add: distinct_count_atmost_1)
  ultimately show ?thesis by (auto simp: M)
qed

section \<open>Theorems\<close>

text \<open>C6: Shutdown of the conditional-accept listener terminates and leaves nothing behind. From
  any reachable state in which the context has stopped accepting, every schedule of the
  coordinator, the worker, the listener task and the sessions has at most conditional_rank steps;
  and a schedule that cannot be continued has ended with the listener task returned, every
  socket that was ever opened closed exactly once, and both capacity counters at zero.\<close>

theorem conditional_shutdown_terminates:
  assumes "conditional_reachable s" "\<not> cx_accepting (cs_cx s)" "conditional_run es s = Some s'"
  shows "length es \<le> conditional_rank s
    \<and> ((\<forall>e. conditional_step e s' = None) \<longrightarrow>
         (\<exists>r. cs_t s' = T_End r) \<and> mset (cs_closed s') = mset (cs_opened s')
         \<and> distinct (cs_closed s')
         \<and> ad_pending (cx_admissions (cs_cx s')) = 0 \<and> cx_handoffs (cs_cx s') = 0)"
proof (intro conjI impI)
  have inv: "orderly s" using assms(1) by (rule orderly_reachable)
  from stopped_run[OF this assms(2,3)] show "length es \<le> conditional_rank s" by simp
  assume stuck: "\<forall>e. conditional_step e s' = None"
  have s': "orderly s'" "reservation_due s'"
    by (rule run_invariant[where P = orderly, OF assms(3) inv], erule (1) orderly_step)
       (rule run_invariant[where P = reservation_due, OF assms(3) reservation_due_reachable[OF assms(1)]],
        erule (1) reservation_due_step)
  then have "phases s'" by (simp add: orderly_def)
  note ended = stuck_ended[OF this stuck]
  show "\<exists>r. cs_t s' = T_End r" using ended(1) by (cases "cs_t s'") auto
  show closed: "mset (cs_closed s') = mset (cs_opened s')"
    and "ad_pending (cx_admissions (cs_cx s')) = 0" "cx_handoffs (cs_cx s') = 0"
    using ended_clean[OF s' ended] by simp_all
  have "distinct (cs_opened s')" using s'(1) by (simp add: orderly_def accounts_def)
  then show "distinct (cs_closed s')" using closed mset_eq_imp_distinct_iff by blast
qed

theorem conditional_shutdown_terminates_witness:
  "\<exists>s. conditional_run (sample_events @ sample_stop) (conditional_init 3) = Some s
     \<and> \<not> cx_accepting (cs_cx s)
     \<and> (\<forall>es s'. conditional_run es s = Some s' \<longrightarrow> length es \<le> conditional_rank s)"
proof -
  obtain s where s: "conditional_run (sample_events @ sample_stop) (conditional_init 3) = Some s"
      "\<not> cx_accepting (cs_cx s)"
    using sample_stopped by auto
  then show ?thesis
    using conditional_shutdown_terminates[OF sample_reachable[OF s(1)] s(2)] by blast
qed

text \<open>C8: No socket of the conditional-accept listener is leaked or closed twice. In every
  reachable state a socket that was opened is either closed or owned, exactly one of the two,
  by exactly one owner: the slot, a thread, a queued result or handoff, a session, or a close
  that a thread has still to perform.\<close>

theorem conditional_socket_ownership:
  assumes "conditional_reachable s"
  shows "distinct (cs_closed s) \<and> set (cs_closed s) \<subseteq> set (cs_opened s)
    \<and> set_mset (owned_sockets s) = set (cs_opened s) - set (cs_closed s)
    \<and> (\<forall>x. count (owned_sockets s) x \<le> 1)"
proof -
  have eq: "mset (cs_opened s) = mset (cs_closed s) + owned_sockets s" and dist: "distinct (cs_opened s)"
    using orderly_reachable[OF assms] by (simp_all add: orderly_def accounts_def)
  from distinct_split[OF dist eq] show ?thesis by blast
qed

theorem conditional_socket_ownership_witness:
  "\<exists>s. conditional_run sample_events (conditional_init 3) = Some s
     \<and> cs_sessions s = [sample_session] \<and> distinct (cs_closed s)
     \<and> set_mset (owned_sockets s) = set (cs_opened s) - set (cs_closed s)"
proof -
  obtain s where s: "conditional_run sample_events (conditional_init 3) = Some s" "cs_sessions s = [sample_session]"
    using sample_run by auto
  then show ?thesis using conditional_socket_ownership[OF sample_reachable[OF s(1)]] by blast
qed

text \<open>C10: Capacity of the conditional-accept listener. In every reachable state at most one attempt
  is admitted and at most one handoff is reserved or under way; the decrements of the two
  counters never wrap; and the bounded handoff channel is empty whenever the coordinator is
  about to send, so a handoff is never dropped for lack of room.\<close>

theorem conditional_capacity:
  assumes "conditional_reachable s"
  shows "ad_pending (cx_admissions (cs_cx s)) \<le> CONDITIONAL_ATTEMPT_CAPACITY
    \<and> cx_handoffs (cs_cx s) \<le> CONDITIONAL_ATTEMPT_CAPACITY
    \<and> (\<forall>th a ms. cs_todo s th = M_Release a # ms \<and> \<not> at_released a
         \<longrightarrow> 0 < ad_pending (cx_admissions (cs_cx s)))
    \<and> (\<forall>th ms. cs_todo s th = M_Sub # ms \<longrightarrow> 0 < cx_handoffs (cs_cx s))
    \<and> (\<forall>h. cs_c s = C_Send h \<longrightarrow> cs_queue s = [])"
proof -
  have c: "counted (coordinator_pending (cs_c s) + todo_sum micro_pending s)
       (held_handoffs s + todo_sum micro_handoffs s) (cs_cx s)"
    using orderly_reachable[OF assms] by (simp add: orderly_def accounts_def)
  have "0 < todo_sum micro_pending s" if "cs_todo s th = M_Release a # ms" "\<not> at_released a" for th a ms
    using todo_sum_micro(1)[OF that(1), of micro_pending] that(2) by simp
  moreover have "0 < todo_sum micro_handoffs s" if "cs_todo s th = M_Sub # ms" for th ms
    using todo_sum_micro(1)[OF that, of micro_handoffs] by simp
  moreover have "cs_queue s = []" if "cs_c s = C_Send h" for h
    using c that by (auto simp: counted_def held_handoffs_def)
  ultimately show ?thesis
    using c by (fastforce simp: counted_def CONDITIONAL_ATTEMPT_CAPACITY_def)
qed

theorem conditional_capacity_witness:
  "\<exists>s. conditional_run sample_events (conditional_init 3) = Some s
     \<and> cs_sessions s = [sample_session] \<and> cx_handoffs (cs_cx s) \<le> CONDITIONAL_ATTEMPT_CAPACITY"
proof -
  obtain s where s: "conditional_run sample_events (conditional_init 3) = Some s" "cs_sessions s = [sample_session]"
    using sample_run by auto
  then show ?thesis using conditional_capacity[OF sample_reachable[OF s(1)]] by blast
qed

end
