(* ===== verification/Conditional_Pairing.thy ===== *)
theory Conditional_Pairing
  imports Conditional_Shutdown
begin

text \<open>
  What the conditional-accept listener promises about connections: a session joins an accepted
  client with the outbound socket prepared for that client's own tuple; a deferred attempt is
  always on its way to an answer; and the attempt slot refines the life cycle of one attempt at
  a time.
\<close>

section \<open>Pairing\<close>

text \<open>An outbound socket is answered for a request when it is connected to the address that the
  control client returned for that request and the address passed the TCP checks. A handoff is
  vouched for when its client socket was presented with the handoff's tuple and its outbound
  socket is answered for a request with that tuple.\<close>

definition answered :: "conditional_state \<Rightarrow> request_id \<Rightarrow> prepared_socket \<Rightarrow> bool" where
  "answered s i p \<longleftrightarrow>
     (ps_socket p, ps_destination p) \<in> set (cs_connected s)
     \<and> (\<exists>od. (i, od) \<in> set (cs_answers s) \<and> od_address od = ps_destination p
             \<and> validate_tcp_mapping (ri_tuple i) od = Inr ())"

definition vouched :: "conditional_state \<Rightarrow> handoff \<Rightarrow> bool" where
  "vouched s h \<longleftrightarrow>
     (ho_client h, ho_tuple h) \<in> set (cs_peers s)
     \<and> (\<exists>i. ri_tuple i = ho_tuple h \<and> answered s i (ho_outbound h))"

definition slot_ready :: "context_state \<Rightarrow> (request_id \<times> prepared_socket) set" where
  "slot_ready cx = {(slot_id sl, p) |sl p. cx_attempt cx = Some sl \<and> sl_prepared sl = Some p}"

fun worker_ready :: "worker_pc \<Rightarrow> (request_id \<times> prepared_socket) set" where
  "worker_ready (W_Send (WorkerReady i p)) = {(i, p)}"
| "worker_ready _ = {}"

definition readies :: "conditional_state \<Rightarrow> (request_id \<times> prepared_socket) set" where
  "readies s =
     slot_ready (cs_cx s) \<union> worker_ready (cs_w s)
     \<union> {(i, p). WorkerReady i p \<in> set (cs_results s)}"

fun coordinator_match :: "coordinator_pc \<Rightarrow> handoff set" where
  "coordinator_match (C_Taken sl x g) =
     {\<lparr>ho_client = x, ho_outbound = p, ho_tuple = ri_tuple (slot_id sl)\<rparr> |p. sl_prepared sl = Some p}"
| "coordinator_match (C_Transfer p x t g) = {\<lparr>ho_client = x, ho_outbound = p, ho_tuple = t\<rparr>}"
| "coordinator_match (C_Setup h) = {h}"
| "coordinator_match (C_Send h) = {h}"
| "coordinator_match _ = {}"

fun listener_match :: "listener_pc \<Rightarrow> handoff set" where
  "listener_match (T_Convert h) = {h}"
| "listener_match _ = {}"

definition handoff_of :: "session \<Rightarrow> handoff" where
  "handoff_of x =
     \<lparr>ho_client = se_accepted x,
      ho_outbound = \<lparr>ps_socket = se_outbound x, ps_destination = se_destination x\<rparr>,
      ho_tuple = se_tuple x\<rparr>"

definition matches :: "conditional_state \<Rightarrow> handoff set" where
  "matches s =
     coordinator_match (cs_c s) \<union> listener_match (cs_t s) \<union> set (cs_queue s)
     \<union> handoff_of ` set (cs_sessions s)"

definition claim_known :: "conditional_state \<Rightarrow> bool" where
  "claim_known s \<longleftrightarrow>
     (\<forall>x sl. cs_c s = C_Returned x \<and> cx_accepted_generation (cs_cx s) \<noteq> 0
        \<and> cx_attempt (cs_cx s) = Some sl \<and> slot_state sl = Claimed
        \<and> ri_generation (slot_id sl) = cx_accepted_generation (cs_cx s)
        \<longrightarrow> (x, ri_tuple (slot_id sl)) \<in> set (cs_peers s))"

definition paired :: "conditional_state \<Rightarrow> bool" where
  "paired s \<longleftrightarrow>
     (\<forall>(i, p) \<in> readies s. answered s i p) \<and> (\<forall>h \<in> matches s. vouched s h) \<and> claim_known s"

lemma session_handoff [simp]: "handoff_of (session_of h) = h"
  by (simp add: handoff_of_def session_of_def)

text \<open>The logs only grow, so what was answered or vouched for stays so.\<close>

definition logs_kept :: "conditional_state \<Rightarrow> conditional_state \<Rightarrow> bool" where
  "logs_kept s s' \<longleftrightarrow>
     set (cs_peers s) \<subseteq> set (cs_peers s') \<and> set (cs_connected s) \<subseteq> set (cs_connected s')
     \<and> set (cs_answers s) \<subseteq> set (cs_answers s')"

lemma logs_kept_mono:
  "logs_kept s s' \<Longrightarrow> answered s i p \<Longrightarrow> answered s' i p"
  "logs_kept s s' \<Longrightarrow> vouched s h \<Longrightarrow> vouched s' h"
  by (fastforce simp: logs_kept_def answered_def vouched_def)+

lemma pairedI:
  assumes "paired s" "logs_kept s s'"
    and "\<And>i p. (i, p) \<in> readies s' \<Longrightarrow> (i, p) \<in> readies s \<or> answered s' i p"
    and "\<And>h. h \<in> matches s' \<Longrightarrow> h \<in> matches s \<or> vouched s' h"
    and "claim_known s'"
  shows "paired s'"
  using assms(1,3,4,5) logs_kept_mono[OF assms(2)] by (fastforce simp: paired_def)

lemma slot_ready_operations:
  "invoke_callback call (cx\<lparr>cx_accepted_generation := 0\<rparr>) = (answer, cx') \<Longrightarrow> slot_ready cx' \<subseteq> slot_ready cx"
  "reject_claimed_generation g cx = (ms, cx') \<Longrightarrow> slot_ready cx' \<subseteq> slot_ready cx"
  "reject_active_attempt cx = (ms, cx') \<Longrightarrow> slot_ready cx' \<subseteq> slot_ready cx"
  "take_claimed g cx = Some (sl, cx') \<Longrightarrow> slot_ready cx' \<subseteq> slot_ready cx"
  "stop_and_reject_pending cx = (ms, cx') \<Longrightarrow> slot_ready cx' \<subseteq> slot_ready cx"
  "apply_worker_result r cx = (ms, cx') \<Longrightarrow>
     slot_ready cx' \<subseteq> slot_ready cx \<union> {(i, p). r = WorkerReady i p}"
proof -
  assume "invoke_callback call (cx\<lparr>cx_accepted_generation := 0\<rparr>) = (answer, cx')"
  then show "slot_ready cx' \<subseteq> slot_ready cx"
  proof (cases rule: callback_cases)
    case (revisit sl t)
    then show ?thesis
      by (auto simp: slot_ready_def revisit_attempt_def reserve_handoff_def claim_ready_attempt_def
        release_handoff_reservation_def swap_reservation_def release_handoff_def
        split: attempt_state.splits if_splits)
  next
    case (admit t now)
    then show ?thesis
      by (auto simp: slot_ready_def admit_attempt_def reserve_def try_send_request_def wake_def slot_new_def
        release_handoff_reservation_def swap_reservation_def release_handoff_def split: if_splits)
  qed (auto simp: slot_ready_def)
qed (auto simp: slot_ready_def reject_claimed_generation_def reject_active_attempt_def take_claimed_def
      stop_and_reject_pending_def apply_worker_result_def complete_attempt_def mark_attempt_ready_def
      split: option.splits if_splits worker_result.splits)


lemma slot_ready_update [simp]:
  "slot_ready (cx\<lparr>cx_handoff_reserved := b\<rparr>) = slot_ready cx"
  "slot_ready (cx\<lparr>cx_wake_event := b\<rparr>) = slot_ready cx"
  "slot_ready (cx\<lparr>cx_receiver := b\<rparr>) = slot_ready cx"
  "slot_ready (cx\<lparr>cx_requests := n\<rparr>) = slot_ready cx"
  by (simp_all add: slot_ready_def)

lemma coordinator_readies:
  assumes "coordinator e s = Some s'"
  shows "readies s' \<subseteq> readies s"
proof -
  have "slot_ready (cs_cx s') \<subseteq> slot_ready (cs_cx s) \<union> {(i, p). WorkerReady i p \<in> set (cs_results s)}"
    using assms
    by (cases e; cases "cs_c s") (auto simp: coordinator_defs split: coordinator_splits
        dest!: slot_ready_operations)
  moreover have "set (cs_results s') \<subseteq> set (cs_results s)"
    using assms
    by (cases e; cases "cs_c s") (auto simp: coordinator_defs split: coordinator_splits)
  ultimately show ?thesis
    using coordinator_frame(1)[OF assms] by (auto simp: readies_def)
qed

lemma coordinator_matches:
  assumes "coordinator e s = Some s'" "\<nexists>x. cs_c s = C_Returned x"
  shows "matches s' \<subseteq> matches s" "cs_connected s' = cs_connected s" "cs_answers s' = cs_answers s"
proof -
  have "coordinator_match (cs_c s') \<union> set (cs_queue s') \<subseteq> coordinator_match (cs_c s) \<union> set (cs_queue s)"
    using assms
    by (cases e; cases "cs_c s") (auto simp: coordinator_defs split: coordinator_splits)
  then show "matches s' \<subseteq> matches s"
    using coordinator_frame(2,4)[OF assms(1)] by (auto simp: matches_def)
  show "cs_connected s' = cs_connected s" "cs_answers s' = cs_answers s"
    using assms
    by (cases e; cases "cs_c s"; auto simp: coordinator_defs split: coordinator_splits)+
qed


lemma claimed_presented:
  assumes "invoke_callback call (cx\<lparr>cx_accepted_generation := 0\<rparr>) = (answer, cx')"
    and "cx_accepted_generation cx' \<noteq> 0" "cx_attempt cx' = Some sl"
  shows "presented call = Some (ri_tuple (slot_id sl))"
  using assms(1)
proof (cases rule: callback_cases)
  case (revisit sl' t)
  then show ?thesis
    using assms(2,3)
    by (auto simp: revisit_attempt_def reserve_handoff_def claim_ready_attempt_def
        release_handoff_reservation_def swap_reservation_def release_handoff_def
        split: attempt_state.splits if_splits)
next
  case (admit t now)
  then show ?thesis
    using assms(2,3)
    by (auto simp: admit_attempt_def reserve_def try_send_request_def wake_def
        release_handoff_reservation_def swap_reservation_def release_handoff_def split: if_splits)
qed (use assms(2) in simp)

lemma paired_accept:
  assumes "paired s" "cs_c s = C_Accept" "coordinator (C_WSAAccept call r) s = Some s'"
  shows "paired s'"
proof -
  obtain answer cx where cb:
    "invoke_callback call ((cs_cx s)\<lparr>cx_accepted_generation := 0\<rparr>) = (answer, cx)" by fastforce
  show ?thesis
  proof (rule pairedI[OF assms(1)])
    show "logs_kept s s'"
      using assms(2,3) cb
      by (auto simp: logs_kept_def coordinator_accept_def split: wsa_return.splits if_splits option.splits)
    show "claim_known s'"
      using assms(2,3) cb claimed_presented[OF cb]
      by (auto simp: claim_known_def coordinator_accept_def split: wsa_return.splits if_splits option.splits)
  qed (use coordinator_readies[OF assms(3)] coordinator_matches(1)[OF assms(3)] assms(2) in auto)
qed

lemma paired_returned:
  assumes "paired s" "cs_c s = C_Returned x"
  shows "paired (coordinator_returned x s)"
proof (rule pairedI[OF assms(1)])
  let ?g = "cx_accepted_generation (cs_cx s)" and ?s = "coordinator_returned x s"
  have go: "coordinator C_Go s = Some ?s" using assms(2) by simp
  show kept: "logs_kept s ?s"
    by (auto simp: logs_kept_def coordinator_returned_def Let_def split: option.splits)
  show "claim_known ?s"
    by (auto simp: claim_known_def coordinator_returned_def Let_def split: option.splits if_splits)
  show "(i, p) \<in> readies s \<or> answered ?s i p" if "(i, p) \<in> readies ?s" for i p
    using coordinator_readies[OF go] that by blast
  show "h \<in> matches s \<or> vouched ?s h" if h: "h \<in> matches ?s" for h
  proof (cases "?g \<noteq> 0 \<and> (\<exists>sl cx. take_claimed ?g (cs_cx s) = Some (sl, cx))")
    case True
    then obtain sl cx where g: "?g \<noteq> 0" and sl: "take_claimed ?g (cs_cx s) = Some (sl, cx)" by blast
    then have slot: "cx_attempt (cs_cx s) = Some sl" "slot_state sl = Claimed"
        "ri_generation (slot_id sl) = ?g"
      by (auto simp: take_claimed_def split: option.splits if_splits)
    then have "(x, ri_tuple (slot_id sl)) \<in> set (cs_peers s)"
      using assms g by (auto simp: paired_def claim_known_def)
    moreover have "answered s (slot_id sl) p" if "sl_prepared sl = Some p" for p
      using assms(1) slot(1) that by (fastforce simp: paired_def readies_def slot_ready_def)
    ultimately have "h \<in> coordinator_match (C_Taken sl x ?g) \<Longrightarrow> vouched s h"
      by (auto simp: vouched_def)
    then show ?thesis
      using h g sl logs_kept_mono(2)[OF kept] by (auto simp: matches_def coordinator_returned_def)
  next
    case False
    then show ?thesis
      using h by (auto simp: matches_def coordinator_returned_def Let_def split: option.splits)
  qed
qed

lemma paired_coordinator:
  assumes "paired s" "coordinator e s = Some s'"
  shows "paired s'"
proof (cases "(\<exists>x. cs_c s = C_Returned x) \<or> (\<exists>call r. e = C_WSAAccept call r)")
  case True
  then show ?thesis
    using assms paired_returned paired_accept by (cases e) (auto split: if_splits)
next
  case False
  have moved: "cs_peers s' = cs_peers s \<and> (\<forall>x. cs_c s' \<noteq> C_Returned x)"
    using assms(2) False
    by (cases e; cases "cs_c s") (auto simp: coordinator_defs split: coordinator_splits)
  have nr: "\<nexists>x. cs_c s = C_Returned x" using False by blast
  show ?thesis
  proof (rule pairedI[OF assms(1)])
    show "logs_kept s s'"
      using moved coordinator_matches(2,3)[OF assms(2) nr] by (simp add: logs_kept_def)
    show "claim_known s'" using moved by (simp add: claim_known_def)
  qed (use coordinator_readies[OF assms(2)] coordinator_matches(1)[OF assms(2) nr] in auto)
qed


definition slot_kept :: "context_state \<Rightarrow> context_state \<Rightarrow> bool" where
  "slot_kept cx cx' \<longleftrightarrow>
     cx_accepted_generation cx' = cx_accepted_generation cx
     \<and> (cx_attempt cx' = cx_attempt cx \<or> cx_attempt cx' = None)"

lemma slot_kept_simps:
  "slot_kept cx cx" "slot_kept cx (cx\<lparr>cx_receiver := b\<rparr>)" "slot_kept cx (cx\<lparr>cx_requests := n\<rparr>)"
  "stop_and_reject_pending cx = (ms, cx') \<Longrightarrow> slot_kept cx cx'"
  "run_micro m cx = (further, closed, cx') \<Longrightarrow> slot_kept cx cx'"
  by (auto simp: slot_kept_def stop_and_reject_pending_def)
     (cases m; auto simp: swap_reservation_def release_handoff_def wake_def split: if_splits)+

lemma paired_elsewhere:
  assumes "paired s" "logs_kept s s'" "slot_kept (cs_cx s) (cs_cx s')"
    and "cs_c s' = cs_c s \<or> (\<forall>x. cs_c s' \<noteq> C_Returned x)"
    and "\<And>i p. (i, p) \<in> worker_ready (cs_w s') \<or> WorkerReady i p \<in> set (cs_results s')
           \<Longrightarrow> (i, p) \<in> readies s \<or> answered s' i p"
    and "matches s' \<subseteq> matches s"
  shows "paired s'"
proof (rule pairedI[OF assms(1,2)])
  show "(i, p) \<in> readies s \<or> answered s' i p" if "(i, p) \<in> readies s'" for i p
    using that assms(3,5) by (auto simp: readies_def slot_ready_def slot_kept_def)
  show "claim_known s'"
    using assms(1,2,3,4) by (auto simp: paired_def claim_known_def slot_kept_def logs_kept_def)
qed (use assms(6) in auto)

lemma paired_work:
  assumes "paired s" "cs_w s = W_Work i at" "worker_work now race answer connect i at s = Some s'"
  shows "paired s'"
proof (cases "preconnect_attempt now race answer connect i at")
  case (Inl e)
  then show ?thesis
    using assms(2,3)
    by (intro paired_elsewhere[OF assms(1)])
       (auto simp: worker_work_def Let_def logs_kept_def matches_def slot_kept_def readies_def
          split: if_splits sum.splits)
next
  case (Inr p)
  from preconnect_socket[OF this] obtain od where od: "answer = Inr od" "connect = Inr (ps_socket p)"
      "ps_destination p = od_address od" "validate_tcp_mapping (ri_tuple i) od = Inr ()"
    by blast
  then have s': "s' = s\<lparr>cs_answers := (i, od) # cs_answers s, cs_w := W_Send (WorkerReady i p),
      cs_opened := ps_socket p # cs_opened s,
      cs_connected := (ps_socket p, od_address od) # cs_connected s\<rparr>"
    using assms(3) Inr by (auto simp: worker_work_def split: if_splits)
  then have "answered s' i p" using od by (auto simp: answered_def)
  then show ?thesis
    using s' by (intro paired_elsewhere[OF assms(1)])
       (auto simp: logs_kept_def matches_def slot_kept_def readies_def)
qed

lemma paired_worker:
  assumes "paired s" "worker e s = Some s'"
  shows "paired s'"
proof (cases "\<exists>now race answer connect. e = W_Worked now race answer connect")
  case True
  then show ?thesis using assms paired_work by (auto split: worker_pc.splits)
next
  case False
  show ?thesis
  proof (rule paired_elsewhere[OF assms(1)])
    show "logs_kept s s'" "slot_kept (cs_cx s) (cs_cx s')"
      using assms(2) False
      by (cases e; cases "cs_w s"; auto simp: worker_defs logs_kept_def
          split: option.splits if_splits prod.splits intro: slot_kept_simps)+
    show "cs_c s' = cs_c s \<or> (\<forall>x. cs_c s' \<noteq> C_Returned x)" using worker_frame(1)[OF assms(2)] ..
    show "(i, p) \<in> readies s \<or> answered s' i p"
      if "(i, p) \<in> worker_ready (cs_w s') \<or> WorkerReady i p \<in> set (cs_results s')" for i p
      using that assms(2) False
      by (cases e; cases "cs_w s") (auto simp: worker_defs readies_def
          split: option.splits if_splits prod.splits)
    show "matches s' \<subseteq> matches s"
      using worker_frame(1,2,4,5)[OF assms(2)] by (simp add: matches_def)
  qed
qed

lemma paired_listener:
  assumes "paired s" "listener e s = Some s'"
  shows "paired s'"
proof (rule paired_elsewhere[OF assms(1)])
  note defs = listener_spawn_worker_def listener_spawn_coordinator_def listener_stop_def
    listener_startup_join_def listener_receive_def listener_convert_def listener_close_def
    listener_abort_def listener_join_def
  show "logs_kept s s'" "slot_kept (cs_cx s) (cs_cx s')"
    using assms(2)
    by (cases e; cases "cs_t s"; auto simp: defs logs_kept_def
        split: option.splits if_splits list.splits sum.splits prod.splits coordinator_pc.splits
        intro: slot_kept_simps)+
  show "cs_c s' = cs_c s \<or> (\<forall>x. cs_c s' \<noteq> C_Returned x)"
    using assms(2)
    by (cases e; cases "cs_t s"; auto simp: defs
        split: option.splits if_splits list.splits sum.splits prod.splits coordinator_pc.splits)
  show "(i, p) \<in> readies s \<or> answered s' i p"
    if "(i, p) \<in> worker_ready (cs_w s') \<or> WorkerReady i p \<in> set (cs_results s')" for i p
    using that assms(2)
    by (cases e; cases "cs_t s"; auto simp: defs readies_def
        split: option.splits if_splits list.splits sum.splits prod.splits coordinator_pc.splits)
  show "matches s' \<subseteq> matches s"
    using assms(2)
    by (cases e; cases "cs_t s"; auto simp: defs matches_def
        split: option.splits if_splits list.splits sum.splits prod.splits coordinator_pc.splits)
qed


lemma paired_step:
  assumes "paired s" "conditional_step e s = Some s'"
  shows "paired s'"
proof (cases e)
  case (Micro th)
  then obtain m ms further closed cx where m: "run_micro m (cs_cx s) = (further, closed, cx)"
    and s': "s' = leave th (further @ ms) (s\<lparr>cs_cx := cx, cs_closed := closed @ cs_closed s\<rparr>)"
    using assms(2) by (auto simp: micro_step_def split: list.splits prod.splits)
  show ?thesis
    by (rule paired_elsewhere[OF assms(1)])
       (use slot_kept_simps(5)[OF m] in \<open>auto simp: s' logs_kept_def matches_def readies_def\<close>)
next
  case (SessionEnd k)
  then have "set (cs_sessions s') \<subseteq> set (cs_sessions s)"
    using assms(2) by (auto simp: session_end_def split: if_splits dest: in_set_takeD in_set_dropD)
  with SessionEnd show ?thesis
    using assms(2)
    by (intro paired_elsewhere[OF assms(1)])
       (auto simp: session_end_def logs_kept_def matches_def readies_def slot_kept_def split: if_splits)
qed (use assms(2) paired_coordinator[OF assms(1)] paired_worker[OF assms(1)] paired_listener[OF assms(1)] in
      \<open>simp split: if_splits\<close>)+

lemma paired_reachable: "conditional_reachable s \<Longrightarrow> paired s"
proof -
  have "paired (conditional_init l)" for l
    by (simp add: paired_def readies_def slot_ready_def matches_def claim_known_def conditional_init_def
        context_new_def)
  then show "conditional_reachable s \<Longrightarrow> paired s"
    unfolding conditional_reachable_def using run_invariant[where P = paired] paired_step by metis
qed

text \<open>C5: A session of the conditional-accept listener joins the right two connections. Under every
  interleaving of the coordinator, the worker, the callback and the listener task, the accepted
  socket of a session is one that Winsock presented with the session's tuple, and the outbound
  socket is connected to the session's destination, which is the address the control client
  returned for a request with exactly that tuple and which passed the TCP mapping checks. An
  answer for another tuple is never used for the client.\<close>

theorem conditional_session_pairing:
  assumes "conditional_reachable s" "x \<in> set (cs_sessions s)"
  shows "(se_accepted x, se_tuple x) \<in> set (cs_peers s)
    \<and> (se_outbound x, se_destination x) \<in> set (cs_connected s)
    \<and> (\<exists>i od. (i, od) \<in> set (cs_answers s) \<and> ri_tuple i = se_tuple x
          \<and> od_address od = se_destination x \<and> validate_tcp_mapping (se_tuple x) od = Inr ())"
proof -
  have "vouched s (handoff_of x)"
    using paired_reachable[OF assms(1)] assms(2) by (auto simp: paired_def matches_def)
  then show ?thesis unfolding vouched_def answered_def handoff_of_def by auto metis
qed

theorem conditional_session_pairing_witness:
  "\<exists>s. conditional_run sample_events (conditional_init 3) = Some s
     \<and> cs_sessions s = [sample_session]
     \<and> (se_accepted sample_session, se_tuple sample_session) \<in> set (cs_peers s)"
proof -
  obtain s where s: "conditional_run sample_events (conditional_init 3) = Some s" "cs_sessions s = [sample_session]"
    using sample_run by auto
  then show ?thesis
    using conditional_session_pairing[OF sample_reachable[OF s(1)], of sample_session] by simp
qed

section \<open>Deferred attempts\<close>

fun worker_serves :: "worker_pc \<Rightarrow> request_id \<Rightarrow> bool" where
  "worker_serves W_Got i = True"
| "worker_serves (W_Snap j at) i = (j = i)"
| "worker_serves (W_Work j at) i = (j = i)"
| "worker_serves (W_Send r) i = (result_id r = i)"
| "worker_serves (W_Stop e) i = True"
| "worker_serves _ i = False"

definition attended :: "conditional_state \<Rightarrow> request_id \<Rightarrow> bool" where
  "attended s i \<longleftrightarrow>
     0 < cx_requests (cs_cx s) \<or> worker_serves (cs_w s) i \<or> i \<in> result_id ` set (cs_results s)"

definition deferred_attended :: "conditional_state \<Rightarrow> bool" where
  "deferred_attended s \<longleftrightarrow>
     (\<forall>sl. cx_attempt (cs_cx s) = Some sl \<and> slot_state sl = Deferred \<longrightarrow> attended s (slot_id sl))"

lemma deferred_attendedI:
  assumes "deferred_attended s"
    and "\<And>sl. cx_attempt (cs_cx s') = Some sl \<Longrightarrow> slot_state sl = Deferred \<Longrightarrow>
           attended s' (slot_id sl)
           \<or> cx_attempt (cs_cx s) = Some sl \<and> (attended s (slot_id sl) \<longrightarrow> attended s' (slot_id sl))"
  shows "deferred_attended s'"
  using assms by (auto simp: deferred_attended_def)

lemma callback_deferred:
  assumes "invoke_callback call (cx\<lparr>cx_accepted_generation := 0\<rparr>) = (answer, cx')"
    and "cx_attempt cx' = Some sl" "slot_state sl = Deferred"
  shows "0 < cx_requests cx' \<or> cx_attempt cx = Some sl \<and> cx_requests cx' = cx_requests cx"
  using assms(1)
proof (cases rule: callback_cases)
  case (revisit sl' t)
  then show ?thesis
    using assms(2,3)
    by (auto simp: revisit_attempt_def reserve_handoff_def claim_ready_attempt_def
        release_handoff_reservation_def swap_reservation_def release_handoff_def
        split: attempt_state.splits if_splits)
next
  case (admit t now)
  then show ?thesis
    using assms(2,3)
    by (auto simp: admit_attempt_def reserve_def try_send_request_def wake_def
        release_handoff_reservation_def swap_reservation_def release_handoff_def split: if_splits)
qed (use assms(2) in simp)

lemma result_deferred:
  assumes "apply_worker_result r cx = (ms, cx')" "cx_attempt cx' = Some sl" "slot_state sl = Deferred"
  shows "cx_attempt cx = Some sl" "slot_id sl \<noteq> result_id r"
  using assms
  by (auto simp: apply_worker_result_def complete_attempt_def mark_attempt_ready_def state_raw_iff
      split: option.splits if_splits worker_result.splits)

definition sheds :: "context_state \<Rightarrow> context_state \<Rightarrow> bool" where
  "sheds cx cx' \<longleftrightarrow>
     cx_requests cx' = cx_requests cx \<and> (cx_attempt cx' = cx_attempt cx \<or> cx_attempt cx' = None)"

lemma sheds_operations:
  "sheds cx cx" "sheds cx (cx\<lparr>cx_handoff_reserved := b\<rparr>)" "sheds cx (cx\<lparr>cx_wake_event := b\<rparr>)"
  "sheds cx (cx\<lparr>cx_receiver := b\<rparr>)"
  "reject_claimed_generation g cx = (ms, cx') \<Longrightarrow> sheds cx cx'"
  "reject_active_attempt cx = (ms, cx') \<Longrightarrow> sheds cx cx'"
  "take_claimed g cx = Some (sl, cx') \<Longrightarrow> sheds cx cx'"
  "stop_and_reject_pending cx = (ms, cx') \<Longrightarrow> sheds cx cx'"
  by (auto simp: sheds_def reject_claimed_generation_def reject_active_attempt_def take_claimed_def
      stop_and_reject_pending_def split: option.splits if_splits)

lemma coordinator_sheds:
  assumes "coordinator e s = Some s'" "\<nexists>call r. e = C_WSAAccept call r" "cs_c s \<noteq> C_Drain"
    "\<nexists>r. cs_c s = C_Exit r"
  shows "sheds (cs_cx s) (cs_cx s')" "cs_results s' = cs_results s"
  using assms
  by (cases e; cases "cs_c s"; auto simp: coordinator_defs split: coordinator_splits
      intro: sheds_operations)+

lemma attended_coordinator:
  assumes "deferred_attended s" "stopped_clean s" "coordinator e s = Some s'"
  shows "deferred_attended s'"
proof -
  consider (accept) call r where "e = C_WSAAccept call r" "cs_c s = C_Accept"
    | (drain) "e = C_Go" "cs_c s = C_Drain" | (exit) r where "e = C_Go" "cs_c s = C_Exit r"
    | (other) "\<nexists>call r. e = C_WSAAccept call r" "cs_c s \<noteq> C_Drain" "\<nexists>r. cs_c s = C_Exit r"
    using assms(3) by (cases e; cases "cs_c s"; simp)
  then show ?thesis
  proof cases
    case (accept call r)
    obtain answer cx where cb:
      "invoke_callback call ((cs_cx s)\<lparr>cx_accepted_generation := 0\<rparr>) = (answer, cx)" by fastforce
    have s': "cs_cx s' = cx" "cs_results s' = cs_results s" "cs_w s' = cs_w s"
      using accept assms(3) cb by (auto simp: coordinator_accept_def split: wsa_return.splits if_splits)
    show ?thesis
      by (rule deferred_attendedI[OF assms(1)]) (use s' callback_deferred[OF cb] in \<open>auto simp: attended_def\<close>)
  next
    case drain
    then show ?thesis
    proof (cases "cs_results s")
      case Nil
      then show ?thesis
        using drain assms(1,3) by (auto simp: coordinator_drain_def deferred_attended_def attended_def)
    next
      case (Cons r rs)
      obtain ms cx where ap: "apply_worker_result r (cs_cx s) = (ms, cx)" by fastforce
      have s': "cs_cx s' = cx" "cs_results s' = rs" "cs_w s' = cs_w s" "cx_requests cx = cx_requests (cs_cx s)"
        using drain assms(3) ap Cons result_keeps(2)[OF ap] by (auto simp: coordinator_drain_def)
      show ?thesis
        by (rule deferred_attendedI[OF assms(1)])
           (use s' Cons result_deferred[OF ap] in \<open>auto simp: attended_def\<close>)
    qed
  next
    case (exit r)
    then have "cx_attempt (cs_cx s') = None"
      using assms(2,3) by (auto simp: coordinator_exit_def stopped_clean_def)
    then show ?thesis by (simp add: deferred_attended_def)
  next
    case other
    from coordinator_sheds[OF assms(3) this] show ?thesis
      using assms(1) coordinator_frame(1)[OF assms(3)]
      by (auto simp: sheds_def deferred_attended_def attended_def)
  qed
qed


lemma attended_worker:
  assumes "deferred_attended s" "phases s" "stopped_clean s" "worker e s = Some s'"
  shows "deferred_attended s'"
proof (rule deferred_attendedI[OF assms(1)])
  fix sl
  assume sl: "cx_attempt (cs_cx s') = Some sl" "slot_state sl = Deferred"
  have same: "cx_attempt (cs_cx s) = Some sl"
    using assms(4) sl(1)
    by (cases e; cases "cs_w s") (auto simp: worker_defs stop_and_reject_pending_def
        split: option.splits if_splits sum.splits)
  then have live: "cx_accepting (cs_cx s)" "cs_results_open s"
    using assms(2,3) by (auto simp: stopped_clean_def phases_def)
  have "attended s (slot_id sl) \<Longrightarrow> attended s' (slot_id sl)"
  proof (cases "cs_w s")
    case W_Got
    then show ?thesis
      using assms(4) same sl(2) by (cases e) (auto simp: worker_got_def deferred_attempt_def attended_def)
  next
    case (W_Snap i at)
    then show "attended s (slot_id sl) \<Longrightarrow> attended s' (slot_id sl)"
      using assms(4) same sl(2) by (cases e) (auto simp: worker_snap_def attempt_state_for_def attended_def)
  next
    case (W_Work i at)
    then show "attended s (slot_id sl) \<Longrightarrow> attended s' (slot_id sl)"
      using assms(4)
      by (cases e) (auto simp: worker_work_def worker_panic_def attended_def Let_def split: if_splits sum.splits)
  next
    case (W_Send r)
    then show "attended s (slot_id sl) \<Longrightarrow> attended s' (slot_id sl)"
      using assms(4) live by (cases e) (auto simp: worker_send_def attended_def)
  qed (use assms(4) live sl(1) in \<open>cases e; auto simp: worker_start_def worker_check_def worker_recv_def
      worker_stop_def worker_exit_def stop_and_reject_pending_def attended_def split: if_splits option.splits\<close>)+
  with same show "attended s' (slot_id sl)
      \<or> cx_attempt (cs_cx s) = Some sl \<and> (attended s (slot_id sl) \<longrightarrow> attended s' (slot_id sl))"
    by blast
qed

lemma attended_listener:
  assumes "deferred_attended s" "phases s" "listener e s = Some s'"
  shows "deferred_attended s'"
proof (cases "cs_c s = C_Unstarted")
  case True
  then have "cx_attempt (cs_cx s) = None" using assms(2) by (simp add: phases_def)
  then have "cx_attempt (cs_cx s') = None"
    using assms(3)
    by (cases e; cases "cs_t s"; auto simp: listener_spawn_worker_def listener_spawn_coordinator_def
      listener_stop_def listener_startup_join_def listener_receive_def listener_convert_def
      listener_close_def listener_abort_def listener_join_def stop_and_reject_pending_def
      split: option.splits if_splits list.splits sum.splits coordinator_pc.splits)
  then show ?thesis by (simp add: deferred_attended_def)
next
  case False
  then have "\<not> starting (cs_t s)" using assms(2) by (auto simp: phases_def)
  then have "sheds (cs_cx s) (cs_cx s') \<and> cs_w s' = cs_w s \<and> cs_results s' = cs_results s"
    using assms(3)
    by (cases e; cases "cs_t s"; auto simp: listener_stop_def listener_receive_def listener_convert_def
      listener_close_def listener_abort_def listener_join_def
      split: option.splits if_splits list.splits prod.splits coordinator_pc.splits
      intro: sheds_operations)
  then show ?thesis
    using assms(1) by (auto simp: sheds_def deferred_attended_def attended_def)
qed

lemma attended_step:
  assumes "deferred_attended s" "orderly s" "conditional_step e s = Some s'"
  shows "deferred_attended s'"
proof -
  have inv: "phases s" "stopped_clean s" using assms(2) by (simp_all add: orderly_def)
  show ?thesis
  proof (cases e)
    case (Micro th)
    then obtain m ms further closed cx where m: "run_micro m (cs_cx s) = (further, closed, cx)"
      and s': "s' = leave th (further @ ms) (s\<lparr>cs_cx := cx, cs_closed := closed @ cs_closed s\<rparr>)"
      using assms(3) by (auto simp: micro_step_def split: list.splits prod.splits)
    show ?thesis
      using assms(1) micro_keeps[OF m] by (simp add: s' deferred_attended_def attended_def)
  next
    case (SessionEnd k)
    then show ?thesis
      using assms(1,3) by (auto simp: session_end_def deferred_attended_def attended_def split: if_splits)
  qed (use assms(3) attended_coordinator[OF assms(1) inv(2)] attended_worker[OF assms(1) inv]
        attended_listener[OF assms(1) inv(1)] in \<open>simp split: if_splits\<close>)+
qed

text \<open>C9: A deferred connection attempt is never forgotten. Under every interleaving, while the slot
  holds a deferred attempt the context is still accepting and its completion is under way: a
  request is queued for the worker, the worker is between reading a request and sending the
  result of this very attempt (or is about to stop and reject it), or that result is queued for
  the coordinator. And the worker that has to serve the queue is running.\<close>

theorem deferred_attempt_attended:
  assumes "conditional_reachable s" "cx_attempt (cs_cx s) = Some sl" "slot_state sl = Deferred"
  shows "cx_accepting (cs_cx s) \<and> attended s (slot_id sl)
    \<and> cs_w s \<noteq> W_Unstarted \<and> \<not> worker_leaving (cs_w s)"
proof -
  obtain l es where l: "l \<noteq> INVALID_SOCKET" "conditional_run es (conditional_init l) = Some s"
    using assms(1) by (auto simp: conditional_reachable_def)
  have "deferred_attended (conditional_init l)"
    by (simp add: deferred_attended_def conditional_init_def context_new_def)
  then have "(\<lambda>s. orderly s \<and> deferred_attended s) s"
    by (intro run_invariant[where P = "\<lambda>s. orderly s \<and> deferred_attended s", OF l(2)])
       (use orderly_init[OF l(1)] orderly_step attended_step in blast)+
  then show ?thesis
    using assms(2,3) by (auto simp: deferred_attended_def orderly_def phases_def stopped_clean_def)
qed

theorem deferred_attempt_attended_witness:
  "\<exists>s sl. conditional_run sample_deferral (conditional_init 3) = Some s
     \<and> cx_attempt (cs_cx s) = Some sl \<and> slot_state sl = Deferred \<and> attended s (slot_id sl)"
proof -
  have "map_option (\<lambda>s. map_option (\<lambda>sl. slot_state sl) (cx_attempt (cs_cx s)))
      (conditional_run sample_deferral (conditional_init 3)) = Some (Some Deferred)"
    by (simp add: sample_deferral_def sample_simps)
  then obtain s sl where s: "conditional_run sample_deferral (conditional_init 3) = Some s"
      "cx_attempt (cs_cx s) = Some sl" "slot_state sl = Deferred"
    by auto
  then show ?thesis using deferred_attempt_attended[OF sample_reachable[OF s(1)] s(2,3)] by blast
qed

end
