(* ===== verification/Conditional_Lifecycle.thy ===== *)
theory Conditional_Lifecycle
  imports Conditional_Shutdown
begin

text \<open>
  The attempt slot of the conditional-accept listener against an abstract specification: the
  life cycle of a single attempt, as a transition system. Every step of the three threads is
  matched by steps of the specification.
\<close>

section \<open>Specification\<close>

text \<open>The specification: one attempt at a time, with a fresh generation each, that waits for its
  outbound connection, is prepared, and is then admitted or given up; once the listener is closed
  no attempt begins.\<close>

datatype lifecycle_phase =
    Idle
  | Waiting request_id
  | Prepared request_id
  | Admitted request_id
  | Doomed request_id

record lifecycle =
  lc_phase :: lifecycle_phase
  lc_next :: u64
  lc_open :: bool

definition lifecycle_init :: lifecycle where
  "lifecycle_init = \<lparr>lc_phase = Idle, lc_next = 1, lc_open = True\<rparr>"

inductive lifecycle_step :: "lifecycle \<Rightarrow> lifecycle \<Rightarrow> bool" where
  arrive: "\<lbrakk>lc_open x; lc_phase x = Idle; ri_generation i = lc_next x\<rbrakk>
     \<Longrightarrow> lifecycle_step x (x\<lparr>lc_phase := Waiting i, lc_next := lc_next x + 1\<rparr>)"
| refuse: "\<lbrakk>lc_open x; lc_phase x = Idle\<rbrakk> \<Longrightarrow> lifecycle_step x (x\<lparr>lc_next := lc_next x + 1\<rparr>)"
| prepare: "\<lbrakk>lc_open x; lc_phase x = Waiting i\<rbrakk> \<Longrightarrow> lifecycle_step x (x\<lparr>lc_phase := Prepared i\<rparr>)"
| admit: "\<lbrakk>lc_open x; lc_phase x = Prepared i\<rbrakk> \<Longrightarrow> lifecycle_step x (x\<lparr>lc_phase := Admitted i\<rparr>)"
| give_up: "\<lbrakk>lc_open x; lc_phase x \<in> {Waiting i, Prepared i}\<rbrakk>
     \<Longrightarrow> lifecycle_step x (x\<lparr>lc_phase := Doomed i\<rparr>)"
| finish: "\<lbrakk>lc_open x; lc_phase x \<noteq> Idle\<rbrakk> \<Longrightarrow> lifecycle_step x (x\<lparr>lc_phase := Idle\<rparr>)"
| shut: "lc_open x \<Longrightarrow> lifecycle_step x (x\<lparr>lc_phase := Idle, lc_open := False\<rparr>)"

fun phase_of :: "attempt_slot option \<Rightarrow> lifecycle_phase" where
  "phase_of None = Idle"
| "phase_of (Some sl) =
     (case slot_state sl of
        Deferred \<Rightarrow> Waiting (slot_id sl)
      | Ready \<Rightarrow> Prepared (slot_id sl)
      | Claimed \<Rightarrow> Admitted (slot_id sl)
      | Rejected \<Rightarrow> Doomed (slot_id sl)
      | AttemptCancelled \<Rightarrow> Doomed (slot_id sl))"

definition lifecycle_of :: "context_state \<Rightarrow> lifecycle" where
  "lifecycle_of cx =
     \<lparr>lc_phase = phase_of (cx_attempt cx), lc_next = ad_next_generation (cx_admissions cx),
      lc_open = cx_accepting cx\<rparr>"

abbreviation lifecycle_moves :: "context_state \<Rightarrow> context_state \<Rightarrow> bool" where
  "lifecycle_moves cx cx' \<equiv> lifecycle_step\<^sup>*\<^sup>* (lifecycle_of cx) (lifecycle_of cx')"

lemma moves_same:
  "\<lbrakk>cx_attempt cx' = cx_attempt cx; cx_accepting cx' = cx_accepting cx;
    ad_next_generation (cx_admissions cx') = ad_next_generation (cx_admissions cx)\<rbrakk>
   \<Longrightarrow> lifecycle_moves cx cx'"
  by (simp add: lifecycle_of_def)

lemma moves_finish:
  assumes "cx_attempt cx' = None" "cx_accepting cx' = cx_accepting cx"
    and "cx_admissions cx' = cx_admissions cx" "cx_accepting cx \<or> cx_attempt cx = None"
  shows "lifecycle_moves cx cx'"
proof (cases "phase_of (cx_attempt cx) = Idle")
  case True
  then have "lifecycle_of cx' = lifecycle_of cx" using assms by (simp add: lifecycle_of_def)
  then show ?thesis by simp
next
  case False
  then have "lifecycle_step (lifecycle_of cx) ((lifecycle_of cx)\<lparr>lc_phase := Idle\<rparr>)"
    using assms(4) by (intro finish) (auto simp: lifecycle_of_def)
  moreover have "(lifecycle_of cx)\<lparr>lc_phase := Idle\<rparr> = lifecycle_of cx'"
    using assms by (simp add: lifecycle_of_def)
  ultimately show ?thesis by (metis r_into_rtranclp)
qed

lemma moves_operations:
  assumes "cx_accepting cx \<or> cx_attempt cx = None"
  shows "reject_claimed_generation g cx = (ms, cx') \<Longrightarrow> lifecycle_moves cx cx'"
    and "reject_active_attempt cx = (ms, cx') \<Longrightarrow> lifecycle_moves cx cx'"
    and "take_claimed g cx = Some (sl, cx') \<Longrightarrow> lifecycle_moves cx cx'"
  by (auto simp: reject_claimed_generation_def reject_active_attempt_def take_claimed_def
      split: option.splits if_splits intro: moves_finish[OF _ _ _ assms])

lemma moves_stop:
  assumes "stop_and_reject_pending cx = (ms, cx')" "cx_accepting cx \<or> cx_attempt cx = None"
  shows "lifecycle_moves cx cx'"
proof (cases "cx_accepting cx")
  case True
  then have "lifecycle_step (lifecycle_of cx) ((lifecycle_of cx)\<lparr>lc_phase := Idle, lc_open := False\<rparr>)"
    by (intro shut) (simp add: lifecycle_of_def)
  moreover have "(lifecycle_of cx)\<lparr>lc_phase := Idle, lc_open := False\<rparr> = lifecycle_of cx'"
    using assms(1) by (auto simp: lifecycle_of_def stop_and_reject_pending_def)
  ultimately show ?thesis by (metis r_into_rtranclp)
next
  case False
  then show ?thesis
    using assms by (intro moves_same) (auto simp: stop_and_reject_pending_def)
qed

lemma moves_phase:
  assumes "cx_accepting cx" "cx_accepting cx'" "ad_next_generation (cx_admissions cx') = ad_next_generation (cx_admissions cx)"
    and "cx_attempt cx = Some sl" "cx_attempt cx' = Some sl'" "slot_id sl' = slot_id sl"
    and "slot_state sl' = slot_state sl \<or> slot_state sl = Deferred \<and> slot_state sl' \<in> {Ready, Rejected}
         \<or> slot_state sl = Ready \<and> slot_state sl' \<in> {Claimed, Rejected}"
  shows "lifecycle_moves cx cx'"
proof (cases "slot_state sl' = slot_state sl")
  case True
  then have "lifecycle_of cx' = lifecycle_of cx" using assms by (simp add: lifecycle_of_def split: attempt_state.split)
  then show ?thesis by simp
next
  case False
  have eq: "lifecycle_of cx' = (lifecycle_of cx)\<lparr>lc_phase := phase_of (Some sl')\<rparr>"
    using assms by (simp add: lifecycle_of_def)
  have "lc_open (lifecycle_of cx)" "lc_phase (lifecycle_of cx) = phase_of (Some sl)"
    using assms(1,4) by (simp_all add: lifecycle_of_def)
  then have "lifecycle_step (lifecycle_of cx) (lifecycle_of cx')"
    unfolding eq using assms(6,7) False
    by (auto intro: lifecycle_step.intros)
  then show ?thesis by blast
qed

lemma moves_result:
  assumes "apply_worker_result r cx = (ms, cx')" "cx_accepting cx \<or> cx_attempt cx = None"
  shows "lifecycle_moves cx cx'"
proof (cases "cx' = cx")
  case False
  then obtain sl where sl: "cx_attempt cx = Some sl" "slot_state sl = Deferred" "complete_attempt r sl cx = (ms, cx')"
    using assms(1) by (auto simp: apply_worker_result_def split: option.splits if_splits)
  then obtain sl' where "cx_attempt cx' = Some sl'" "slot_id sl' = slot_id sl" "slot_state sl' \<in> {Ready, Rejected}"
      "cx_admissions cx' = cx_admissions cx" "cx_accepting cx' = cx_accepting cx"
    by (cases r) (auto simp: complete_attempt_def mark_attempt_ready_def state_raw_iff split: if_splits)
  then show ?thesis using assms(2) sl by (intro moves_phase[of cx cx' sl sl']) auto
qed simp

lemma moves_revisit:
  assumes "revisit_attempt sl t cx = (answer, cx')" "cx_attempt cx = Some sl" "cx_accepting cx"
  shows "lifecycle_moves cx cx'"
proof -
  obtain sl' where "cx_attempt cx' = Some sl'" "slot_id sl' = slot_id sl" "cx_accepting cx'"
      "cx_admissions cx' = cx_admissions cx"
      "slot_state sl' = slot_state sl \<or> slot_state sl = Ready \<and> slot_state sl' \<in> {Claimed, Rejected}"
    using assms
    by (auto simp: revisit_attempt_def reserve_handoff_def claim_ready_attempt_def
        release_handoff_reservation_def swap_reservation_def release_handoff_def
        split: attempt_state.splits if_splits)
  then show ?thesis using assms(2,3) by (intro moves_phase[of cx cx' sl sl']) auto
qed

lemma moves_admit:
  assumes "admit_attempt t now cx = (answer, cx')" "cx_attempt cx = None"
  shows "lifecycle_moves cx cx'"
proof (cases "cx' = cx")
  case False
  then have "open": "cx_accepting cx" "cx_accepting cx'"
    and "next": "ad_next_generation (cx_admissions cx') = ad_next_generation (cx_admissions cx) + 1"
    and "cx_attempt cx' = None
        \<or> cx_attempt cx' = Some (slot_new (attempt_new \<lparr>ri_tuple = t,
                              ri_generation = ad_next_generation (cx_admissions cx)\<rparr> now))"
    using assms
    by (auto simp: admit_attempt_def reserve_def try_send_request_def wake_def release_def
        release_handoff_reservation_def swap_reservation_def release_handoff_def split: if_splits)
  then have slot: "cx_attempt cx' = None \<or> (\<exists>sl. cx_attempt cx' = Some sl \<and> slot_state sl = Deferred
                  \<and> ri_generation (slot_id sl) = ad_next_generation (cx_admissions cx))"
    by (auto simp: slot_new_def) (simp add: attempt_new_def)
  from slot show ?thesis
  proof
    assume none: "cx_attempt cx' = None"
    have "lifecycle_step (lifecycle_of cx) ((lifecycle_of cx)\<lparr>lc_next := lc_next (lifecycle_of cx) + 1\<rparr>)"
      using "open" assms(2) by (intro refuse) (simp_all add: lifecycle_of_def)
    moreover have "(lifecycle_of cx)\<lparr>lc_next := lc_next (lifecycle_of cx) + 1\<rparr> = lifecycle_of cx'"
      using "open" "next" none assms(2) by (simp add: lifecycle_of_def)
    ultimately show ?thesis by (metis r_into_rtranclp)
  next
    assume "\<exists>sl. cx_attempt cx' = Some sl \<and> slot_state sl = Deferred
                  \<and> ri_generation (slot_id sl) = ad_next_generation (cx_admissions cx)"
    then obtain sl where sl: "cx_attempt cx' = Some sl" "slot_state sl = Deferred"
        "ri_generation (slot_id sl) = ad_next_generation (cx_admissions cx)" by blast
    have "lifecycle_step (lifecycle_of cx)
        ((lifecycle_of cx)\<lparr>lc_phase := Waiting (slot_id sl), lc_next := lc_next (lifecycle_of cx) + 1\<rparr>)"
      using "open" assms(2) sl by (intro arrive) (simp_all add: lifecycle_of_def)
    moreover have "(lifecycle_of cx)\<lparr>lc_phase := Waiting (slot_id sl), lc_next := lc_next (lifecycle_of cx) + 1\<rparr>
        = lifecycle_of cx'"
      using "open" "next" sl by (simp add: lifecycle_of_def)
    ultimately show ?thesis by (metis r_into_rtranclp)
  qed
qed simp

lemma moves_callback:
  assumes "invoke_callback call (cx\<lparr>cx_accepted_generation := 0\<rparr>) = (answer, cx')"
    and "cx_accepting cx \<or> cx_attempt cx = None"
  shows "lifecycle_moves cx cx'"
proof -
  let ?cx = "cx\<lparr>cx_accepted_generation := 0\<rparr>"
  have "lifecycle_moves ?cx cx'"
    using assms(1)
  proof (cases rule: callback_cases)
    case (revisit sl t)
    then show ?thesis using assms(2) by (intro moves_revisit) auto
  next
    case (admit t now)
    then show ?thesis by (intro moves_admit) auto
  qed simp
  then show ?thesis by (simp add: lifecycle_of_def)
qed

lemma moves_micro:
  assumes "run_micro m cx = (further, closed, cx')"
  shows "lifecycle_moves cx cx'"
  using assms
  by (intro moves_same) (cases m; auto simp: swap_reservation_def release_handoff_def wake_def release_def
      split: if_splits)+

section \<open>Refinement\<close>

lemma moves_coordinator:
  assumes "coordinator e s = Some s'" "cx_accepting (cs_cx s) \<or> cx_attempt (cs_cx s) = None"
  shows "lifecycle_moves (cs_cx s) (cs_cx s')"
  using assms(1)
  by (cases e; cases "cs_c s") (auto simp: coordinator_defs split: coordinator_splits
      intro: moves_callback[OF _ assms(2)] moves_operations[OF assms(2)] moves_stop[OF _ assms(2)]
        moves_result[OF _ assms(2)] moves_same)

lemma moves_worker:
  assumes "worker e s = Some s'" "cx_accepting (cs_cx s) \<or> cx_attempt (cs_cx s) = None"
  shows "lifecycle_moves (cs_cx s) (cs_cx s')"
  using assms(1)
  by (cases e; cases "cs_w s") (auto simp: worker_defs
      split: list.splits prod.splits option.splits if_splits sum.splits
      intro: moves_stop[OF _ assms(2)] moves_same)

lemma moves_listener:
  assumes "listener e s = Some s'" "cx_accepting (cs_cx s) \<or> cx_attempt (cs_cx s) = None"
  shows "lifecycle_moves (cs_cx s) (cs_cx s')"
  using assms(1)
  by (cases e; cases "cs_t s") (auto simp: listener_spawn_worker_def listener_spawn_coordinator_def
      listener_stop_def listener_startup_join_def listener_receive_def listener_convert_def
      listener_close_def listener_abort_def listener_join_def
      split: option.splits if_splits list.splits sum.splits prod.splits coordinator_pc.splits
      intro: moves_stop[OF _ assms(2)] moves_same)

lemma moves_step:
  assumes "orderly s" "conditional_step e s = Some s'"
  shows "lifecycle_moves (cs_cx s) (cs_cx s')"
proof -
  have "open": "cx_accepting (cs_cx s) \<or> cx_attempt (cs_cx s) = None"
    using assms(1) by (auto simp: orderly_def stopped_clean_def)
  show ?thesis
  proof (cases e)
    case (Micro th)
    then show ?thesis
      using assms(2) by (auto simp: micro_step_def split: list.splits prod.splits intro: moves_micro)
  next
    case (SessionEnd k)
    then show ?thesis using assms(2) by (auto simp: session_end_def split: if_splits)
  qed (use assms(2) moves_coordinator[OF _ "open"] moves_worker[OF _ "open"] moves_listener[OF _ "open"] in
      \<open>simp split: if_splits\<close>)+
qed



end
