(* ===== verification/Tcp_Sessions.thy ===== *)
theory Tcp_Sessions
  imports Host_Types "HOL-Library.Multiset"
begin

text \<open>
  TCP forwarding outside Windows (\<open>run_tcp_tokio\<close>, \<open>bridge_tcp\<close>, \<open>bridge_tcp_streams\<close> and
  \<open>TcpForwardingGuard\<close> in \<open>crates/host-proxy/src/lib.rs\<close>). The accept loop and the sessions it
  spawned interleave; a step runs one task from one await point to the next. What an await
  yields is the step's event. \<open>abort_all\<close> asks every session to stop: an aborted task may
  still finish the step it is in, and otherwise is dropped at its next await point, which
  runs the destructor of the forwarding guard. The bytes copied between the two streams are
  the library's business; the log events of a forwarding are recorded.
\<close>

section \<open>State\<close>

datatype forwarding_log =
    Forwarding_started host_tuple socket_addr
  | Forwarding_terminated host_tuple socket_addr string

datatype session_pc =
    S_start
  | S_lookup host_tuple
  | S_connect host_tuple socket_addr
  | S_copy host_tuple socket_addr
  | S_done

record tcp_session =
  ts_pc :: session_pc
  ts_peer :: "string + socket_addr"
  ts_local :: "string + socket_addr"
  ts_aborted :: bool
  ts_joined :: bool

datatype tcp_loop = Accepting | Draining_sessions | Loop_done

text \<open>\<open>tt_found\<close> and \<open>tt_connected\<close> record the answers of the mapping client and the outbound
  connections made, by session.\<close>

record tcp_state =
  tt_loop :: tcp_loop
  tt_sessions :: "tcp_session list"
  tt_log :: "forwarding_log list"
  tt_found :: "(nat \<times> host_tuple \<times> original_destination) list"
  tt_connected :: "(nat \<times> host_tuple \<times> socket_addr) list"

definition tcp_new :: tcp_state where
  "tcp_new = \<lparr>tt_loop = Accepting, tt_sessions = [], tt_log = [], tt_found = [], tt_connected = []\<rparr>"

definition set_pc :: "nat \<Rightarrow> session_pc \<Rightarrow> tcp_state \<Rightarrow> tcp_state" where
  "set_pc i pc s = s\<lparr>tt_sessions := (tt_sessions s)[i := (tt_sessions s ! i)\<lparr>ts_pc := pc\<rparr>]\<rparr>"

definition log_forwarding :: "forwarding_log \<Rightarrow> tcp_state \<Rightarrow> tcp_state" where
  "log_forwarding e s = s\<lparr>tt_log := tt_log s @ [e]\<rparr>"

section \<open>A session\<close>

datatype session_event =
    Begin
  | Looked_up "proxy_error + original_destination"
  | Connected "string + unit"
  | Copied "string + u64 \<times> u64"
  | Dropped

text \<open>\<open>bridge_tcp\<close> up to the connection, then \<open>bridge_tcp_streams\<close>. An error ends the session; the
  spawned task only logs it. \<open>Dropped\<close> is the cancellation of an aborted task: the guard exists
  from the start of the forwarding on.\<close>

fun session_step :: "nat \<Rightarrow> session_event \<Rightarrow> session_pc \<Rightarrow> tcp_state \<Rightarrow> tcp_state option" where
  "session_step i Begin S_start s =
     (case and_then (ts_peer (tt_sessions s ! i)) (\<lambda>peer.
           and_then (ts_local (tt_sessions s ! i)) (\<lambda>loc.
             Inr \<lparr>ht_source = peer, ht_destination = loc, ht_protocol = TCP_PROTOCOL\<rparr>)) of
        Inl _ \<Rightarrow> Some (set_pc i S_done s)
      | Inr t \<Rightarrow> Some (set_pc i (S_lookup t) s))"
| "session_step i (Looked_up r) (S_lookup t) s =
     (case r of
        Inl _ \<Rightarrow> Some (set_pc i S_done s)
      | Inr original \<Rightarrow>
          let s = s\<lparr>tt_found := tt_found s @ [(i, t, original)]\<rparr>
          in case validate_tcp_mapping t original of
               Inl _ \<Rightarrow> Some (set_pc i S_done s)
             | Inr _ \<Rightarrow> Some (set_pc i (S_connect t (od_address original)) s))"
| "session_step i (Connected r) (S_connect t a) s =
     (case r of
        Inl _ \<Rightarrow> Some (set_pc i S_done s)
      | Inr _ \<Rightarrow>
          Some (log_forwarding (Forwarding_started t a)
            (set_pc i (S_copy t a) (s\<lparr>tt_connected := tt_connected s @ [(i, t, a)]\<rparr>))))"
| "session_step i (Copied r) (S_copy t a) s =
     (case r of
        Inr _ \<Rightarrow> Some (log_forwarding (Forwarding_terminated t a ''stream_closed'') (set_pc i S_done s))
      | Inl _ \<Rightarrow> Some (log_forwarding (Forwarding_terminated t a ''stream_error'') (set_pc i S_done s)))"
| "session_step i Dropped pc s =
     (if \<not> ts_aborted (tt_sessions s ! i) then None
      else case pc of
        S_copy t a \<Rightarrow> Some (log_forwarding (Forwarding_terminated t a ''cancelled'') (set_pc i S_done s))
      | S_done \<Rightarrow> None
      | _ \<Rightarrow> Some (set_pc i S_done s))"
| "session_step i _ _ s = None"

section \<open>The accept loop\<close>

datatype loop_event =
    Accepted "string + (string + socket_addr) \<times> (string + socket_addr)"
  | Join_next nat
  | Shutdown_changed
  | Joined_all

definition join_session :: "nat \<Rightarrow> tcp_state \<Rightarrow> tcp_state option" where
  "join_session i s =
     (if i < length (tt_sessions s) \<and> ts_pc (tt_sessions s ! i) = S_done \<and> \<not> ts_joined (tt_sessions s ! i)
      then Some (s\<lparr>tt_sessions := (tt_sessions s)[i := (tt_sessions s ! i)\<lparr>ts_joined := True\<rparr>]\<rparr>)
      else None)"

fun run_tcp_tokio_step :: "loop_event \<Rightarrow> tcp_loop \<Rightarrow> tcp_state \<Rightarrow> tcp_state option" where
  "run_tcp_tokio_step Shutdown_changed Accepting s =
     Some (s\<lparr>tt_loop := Draining_sessions, tt_sessions := map (\<lambda>x. x\<lparr>ts_aborted := True\<rparr>) (tt_sessions s)\<rparr>)"
| "run_tcp_tokio_step (Join_next i) Accepting s = join_session i s"
| "run_tcp_tokio_step (Accepted r) Accepting s =
     (case r of
        Inl _ \<Rightarrow> Some s
      | Inr (peer, loc) \<Rightarrow>
          Some (s\<lparr>tt_sessions := tt_sessions s @
            [\<lparr>ts_pc = S_start, ts_peer = peer, ts_local = loc, ts_aborted = False, ts_joined = False\<rparr>]\<rparr>))"
| "run_tcp_tokio_step (Join_next i) Draining_sessions s = join_session i s"
| "run_tcp_tokio_step Joined_all Draining_sessions s =
     (if \<forall>x \<in> set (tt_sessions s). ts_joined x then Some (s\<lparr>tt_loop := Loop_done\<rparr>) else None)"
| "run_tcp_tokio_step _ _ s = None"

datatype tcp_event = Loop loop_event | Session nat session_event

fun tcp_step :: "tcp_event \<Rightarrow> tcp_state \<Rightarrow> tcp_state option" where
  "tcp_step (Loop e) s = run_tcp_tokio_step e (tt_loop s) s"
| "tcp_step (Session i e) s =
     (if i < length (tt_sessions s) then session_step i e (ts_pc (tt_sessions s ! i)) s else None)"

fun tcp_run :: "tcp_event list \<Rightarrow> tcp_state \<Rightarrow> tcp_state option" where
  "tcp_run [] s = Some s"
| "tcp_run (e # es) s = (case tcp_step e s of None \<Rightarrow> None | Some s' \<Rightarrow> tcp_run es s')"

section \<open>The invariant\<close>

definition accepted_tuple :: "tcp_session \<Rightarrow> host_tuple \<Rightarrow> bool" where
  "accepted_tuple x t \<longleftrightarrow>
     ts_peer x = Inr (ht_source t) \<and> ts_local x = Inr (ht_destination t) \<and> ht_protocol t = TCP_PROTOCOL"

definition checked :: "tcp_state \<Rightarrow> nat \<Rightarrow> host_tuple \<Rightarrow> socket_addr \<Rightarrow> bool" where
  "checked s i t a \<longleftrightarrow>
     (\<exists>od. (i, t, od) \<in> set (tt_found s) \<and> a = od_address od \<and> validate_tcp_mapping t od = Inr ())"

fun session_ok :: "tcp_state \<Rightarrow> nat \<Rightarrow> tcp_session \<Rightarrow> session_pc \<Rightarrow> bool" where
  "session_ok s i x S_start = True"
| "session_ok s i x (S_lookup t) = accepted_tuple x t"
| "session_ok s i x (S_connect t a) = (accepted_tuple x t \<and> checked s i t a)"
| "session_ok s i x (S_copy t a) = (accepted_tuple x t \<and> checked s i t a)"
| "session_ok s i x S_done = True"

fun copying :: "session_pc \<Rightarrow> (host_tuple \<times> socket_addr) option" where
  "copying (S_copy t a) = Some (t, a)"
| "copying _ = None"

fun started :: "forwarding_log \<Rightarrow> (host_tuple \<times> socket_addr) option" where
  "started (Forwarding_started t a) = Some (t, a)"
| "started _ = None"

fun terminated :: "forwarding_log \<Rightarrow> (host_tuple \<times> socket_addr) option" where
  "terminated (Forwarding_terminated t a _) = Some (t, a)"
| "terminated _ = None"

definition select :: "('a \<Rightarrow> 'b option) \<Rightarrow> 'a list \<Rightarrow> 'b multiset" where
  "select f xs = mset (List.map_filter f xs)"

definition pairing_inv :: "tcp_state \<Rightarrow> bool" where
  "pairing_inv s \<longleftrightarrow>
     (\<forall>i < length (tt_sessions s). session_ok s i (tt_sessions s ! i) (ts_pc (tt_sessions s ! i)))
     \<and> (\<forall>i t a. (i, t, a) \<in> set (tt_connected s) \<longrightarrow>
          i < length (tt_sessions s) \<and> accepted_tuple (tt_sessions s ! i) t \<and> checked s i t a)"

definition balance_inv :: "tcp_state \<Rightarrow> bool" where
  "balance_inv s \<longleftrightarrow>
     select started (tt_log s) = select terminated (tt_log s) + select (copying \<circ> ts_pc) (tt_sessions s)"

definition phase_inv :: "tcp_state \<Rightarrow> bool" where
  "phase_inv s \<longleftrightarrow>
     (\<forall>x \<in> set (tt_sessions s). (ts_joined x \<longrightarrow> ts_pc x = S_done) \<and> (tt_loop s \<noteq> Accepting \<longrightarrow> ts_aborted x)
        \<and> (tt_loop s = Loop_done \<longrightarrow> ts_joined x))"

lemmas tcp_defs = set_pc_def log_forwarding_def join_session_def

lemma select_simps [simp]:
  "select f [] = {#}" "select f (x # xs) = (case f x of None \<Rightarrow> {#} | Some y \<Rightarrow> {#y#}) + select f xs"
  "select f (xs @ ys) = select f xs + select f ys"
  by (simp_all add: select_def List.map_filter_def split: option.split)

lemma select_update:
  "i < length xs \<Longrightarrow>
   select f (xs[i := x]) + (case f (xs ! i) of None \<Rightarrow> {#} | Some y \<Rightarrow> {#y#}) =
   select f xs + (case f x of None \<Rightarrow> {#} | Some y \<Rightarrow> {#y#})"
proof (induction xs arbitrary: i)
  case (Cons y ys)
  then show ?case by (cases i) (auto split: option.splits simp: ac_simps)
qed simp

lemma select_map: "select f xs = select id (map f xs)"
  by (induction xs) simp_all

text \<open>A step of session \<open>i\<close> writes that session only, and only its program counter.\<close>

lemma session_step_frame:
  assumes "session_step i e pc s = Some s'" "i < length (tt_sessions s)" "pc = ts_pc (tt_sessions s ! i)"
  shows "tt_sessions s' = (tt_sessions s)[i := (tt_sessions s ! i)\<lparr>ts_pc := ts_pc (tt_sessions s' ! i)\<rparr>]"
    "tt_loop s' = tt_loop s" "set (tt_found s) \<subseteq> set (tt_found s')" "pc \<noteq> S_done"
  using assms
  by (cases "(i, e, pc, s)" rule: session_step.cases;
      auto simp: tcp_defs Let_def split: sum.splits if_splits session_pc.splits)+

text \<open>What the step does to the session itself and to the outbound connections.\<close>

lemma session_step_ok:
  assumes "session_step i e pc s = Some s'" "i < length (tt_sessions s)" "pc = ts_pc (tt_sessions s ! i)"
    "session_ok s i (tt_sessions s ! i) pc"
  shows "session_ok s' i (tt_sessions s' ! i) (ts_pc (tt_sessions s' ! i))"
    "(j, t, a) \<in> set (tt_connected s') \<Longrightarrow> (j, t, a) \<in> set (tt_connected s)
      \<or> j = i \<and> accepted_tuple (tt_sessions s ! i) t \<and> checked s i t a"
  using assms
  by (cases "(i, e, pc, s)" rule: session_step.cases;
      auto simp: tcp_defs Let_def accepted_tuple_def checked_def and_then_Inr_iff
        split: sum.splits if_splits session_pc.splits)+

lemma session_step_balance:
  assumes "session_step i e pc s = Some s'" "i < length (tt_sessions s)" "pc = ts_pc (tt_sessions s ! i)"
  shows "select started (tt_log s') + select terminated (tt_log s)
      + (case copying (ts_pc (tt_sessions s ! i)) of None \<Rightarrow> {#} | Some y \<Rightarrow> {#y#}) =
    select started (tt_log s) + select terminated (tt_log s')
      + (case copying (ts_pc (tt_sessions s' ! i)) of None \<Rightarrow> {#} | Some y \<Rightarrow> {#y#})"
  using assms
  by (cases "(i, e, pc, s)" rule: session_step.cases;
      auto simp: tcp_defs Let_def split: sum.splits if_splits session_pc.splits)

lemma session_ok_mono:
  assumes "session_ok s i x pc" "set (tt_found s) \<subseteq> set (tt_found s')"
  shows "session_ok s' i x pc"
  using assms by (cases pc) (auto simp: checked_def)

lemma accepted_tuple_pc [simp]: "accepted_tuple (x\<lparr>ts_pc := pc\<rparr>) t = accepted_tuple x t"
  by (simp add: accepted_tuple_def)

lemma session_step_pairing:
  assumes "session_step i e (ts_pc (tt_sessions s ! i)) s = Some s'" "i < length (tt_sessions s)" "pairing_inv s"
  shows "pairing_inv s'"
  unfolding pairing_inv_def
proof (intro conjI allI impI)
  note frame = session_step_frame [OF assms(1,2) refl]
  have ok: "session_ok s i (tt_sessions s ! i) (ts_pc (tt_sessions s ! i))"
    using assms(2,3) by (simp add: pairing_inv_def)
  note step = session_step_ok [OF assms(1,2) refl ok]
  have len: "length (tt_sessions s') = length (tt_sessions s)" using frame(1) by (metis length_list_update)
  have other: "tt_sessions s' ! j = tt_sessions s ! j" if "j \<noteq> i" for j
    using frame(1) that by (metis nth_list_update_neq)
  have tuple: "accepted_tuple (tt_sessions s' ! j) t = accepted_tuple (tt_sessions s ! j) t" for j t
    using frame(1) assms(2) other by (metis accepted_tuple_pc nth_list_update_eq)
  show "session_ok s' j (tt_sessions s' ! j) (ts_pc (tt_sessions s' ! j))" if "j < length (tt_sessions s')" for j
    using assms(3) step(1) other session_ok_mono [OF _ frame(3)] that len
    by (cases "j = i") (auto simp: pairing_inv_def)
  fix j t a assume c: "(j, t, a) \<in> set (tt_connected s')"
  have "j < length (tt_sessions s) \<and> accepted_tuple (tt_sessions s ! j) t \<and> checked s j t a"
    using step(2) [OF c] assms(2,3) by (auto simp: pairing_inv_def)
  moreover have "checked s j t a \<Longrightarrow> checked s' j t a" using frame(3) by (auto simp: checked_def)
  ultimately show "j < length (tt_sessions s')" "accepted_tuple (tt_sessions s' ! j) t" "checked s' j t a"
    using len tuple by auto
qed

lemma session_step_inv:
  assumes "session_step i e (ts_pc (tt_sessions s ! i)) s = Some s'" "i < length (tt_sessions s)"
  shows "balance_inv s \<Longrightarrow> balance_inv s'" "phase_inv s \<Longrightarrow> phase_inv s'"
proof -
  note frame = session_step_frame [OF assms refl]
  define p where "p = ts_pc (tt_sessions s' ! i)"
  let ?A = "case copying (ts_pc (tt_sessions s ! i)) of None \<Rightarrow> {#} | Some y \<Rightarrow> {#y#}"
  let ?B = "case copying p of None \<Rightarrow> {#} | Some y \<Rightarrow> {#y#}"
  let ?C = "\<lambda>s. select (copying \<circ> ts_pc) (tt_sessions s)"
  have sessions: "tt_sessions s' = (tt_sessions s)[i := (tt_sessions s ! i)\<lparr>ts_pc := p\<rparr>]"
    unfolding p_def by (rule frame(1))
  have moved: "?C s' + ?A = ?C s + ?B"
    using select_update [OF assms(2), of "copying \<circ> ts_pc" "(tt_sessions s ! i)\<lparr>ts_pc := p\<rparr>"]
    by (simp add: sessions)
  show "balance_inv s'" if "balance_inv s"
  proof -
    have "select started (tt_log s') + (select terminated (tt_log s) + ?A)
        = select started (tt_log s) + select terminated (tt_log s') + ?B"
      using session_step_balance [OF assms refl] by (simp add: p_def ac_simps)
    also have "\<dots> = select terminated (tt_log s) + select terminated (tt_log s') + (?C s + ?B)"
      using that by (simp add: balance_inv_def ac_simps)
    also have "\<dots> = (select terminated (tt_log s') + ?C s') + (select terminated (tt_log s) + ?A)"
      unfolding moved [symmetric] by (simp add: ac_simps)
    finally show ?thesis by (simp add: balance_inv_def)
  qed
  show "phase_inv s'" if "phase_inv s"
    unfolding phase_inv_def
  proof
    fix x assume "x \<in> set (tt_sessions s')"
    then consider "x \<in> set (tt_sessions s)" | "x = (tt_sessions s ! i)\<lparr>ts_pc := ts_pc (tt_sessions s' ! i)\<rparr>"
      using frame(1) by (metis in_set_conv_nth length_list_update nth_list_update_eq nth_list_update_neq nth_mem)
    moreover have "tt_sessions s ! i \<in> set (tt_sessions s)" using assms(2) by simp
    ultimately show "(ts_joined x \<longrightarrow> ts_pc x = S_done) \<and> (tt_loop s' \<noteq> Accepting \<longrightarrow> ts_aborted x)
        \<and> (tt_loop s' = Loop_done \<longrightarrow> ts_joined x)"
      using that frame(2,4) by (cases) (auto simp: phase_inv_def)
  qed
qed

text \<open>Updating a session without touching its program counter or addresses, as joining and aborting
  do, keeps the first two invariants.\<close>

definition same_sessions :: "tcp_state \<Rightarrow> tcp_state \<Rightarrow> bool" where
  "same_sessions s s' \<longleftrightarrow>
     map (\<lambda>x. (ts_pc x, ts_peer x, ts_local x)) (tt_sessions s') = map (\<lambda>x. (ts_pc x, ts_peer x, ts_local x)) (tt_sessions s)
     \<and> tt_found s' = tt_found s \<and> tt_connected s' = tt_connected s \<and> tt_log s' = tt_log s"

lemma same_sessions_nth:
  assumes "same_sessions s s'"
  shows "length (tt_sessions s') = length (tt_sessions s)"
    "i < length (tt_sessions s) \<Longrightarrow> ts_pc (tt_sessions s' ! i) = ts_pc (tt_sessions s ! i)"
    "i < length (tt_sessions s) \<Longrightarrow> accepted_tuple (tt_sessions s' ! i) = accepted_tuple (tt_sessions s ! i)"
proof -
  let ?f = "\<lambda>x. (ts_pc x, ts_peer x, ts_local x)"
  have m: "map ?f (tt_sessions s') = map ?f (tt_sessions s)" using assms by (simp add: same_sessions_def)
  show len: "length (tt_sessions s') = length (tt_sessions s)" using map_eq_imp_length_eq [OF m] .
  assume i: "i < length (tt_sessions s)"
  have "?f (tt_sessions s' ! i) = ?f (tt_sessions s ! i)"
    using arg_cong [OF m, of "\<lambda>xs. xs ! i"] i len by simp
  then show "ts_pc (tt_sessions s' ! i) = ts_pc (tt_sessions s ! i)"
    "accepted_tuple (tt_sessions s' ! i) = accepted_tuple (tt_sessions s ! i)"
    by (auto simp: accepted_tuple_def)
qed

lemma session_ok_cong:
  assumes "accepted_tuple x = accepted_tuple y" "tt_found s = tt_found s'"
  shows "session_ok s i x pc = session_ok s' i y pc"
  using assms by (cases pc) (auto simp: checked_def)

lemma same_sessions_inv:
  assumes "same_sessions s s'"
  shows "pairing_inv s \<Longrightarrow> pairing_inv s'" "balance_inv s \<Longrightarrow> balance_inv s'"
proof -
  note nth = same_sessions_nth [OF assms]
  have same: "tt_found s = tt_found s'" "tt_connected s' = tt_connected s" "tt_log s' = tt_log s"
    using assms by (auto simp: same_sessions_def)
  have "session_ok s' i (tt_sessions s' ! i) pc = session_ok s i (tt_sessions s ! i) pc"
    if "i < length (tt_sessions s)" for i pc
    using session_ok_cong [OF nth(3) [OF that, symmetric] same(1)] by simp
  then show "pairing_inv s \<Longrightarrow> pairing_inv s'"
    using nth same by (auto simp: pairing_inv_def checked_def)
  have "map ts_pc (tt_sessions s') = map ts_pc (tt_sessions s)"
    using nth by (intro nth_equalityI) auto
  then have "select (copying \<circ> ts_pc) (tt_sessions s') = select (copying \<circ> ts_pc) (tt_sessions s)"
    by (simp add: select_map [of "copying \<circ> ts_pc"] flip: map_map)
  then show "balance_inv s \<Longrightarrow> balance_inv s'"
    using same by (simp add: balance_inv_def)
qed

lemma map_update_same: "f y = f (xs ! i) \<Longrightarrow> map f (xs[i := y]) = map f xs"
  by (cases "i < length xs") (simp_all add: map_update list_update_same_conv list_update_beyond)

lemma join_session_same: "join_session i s = Some s' \<Longrightarrow> same_sessions s s'"
  by (auto simp: join_session_def same_sessions_def map_update_same split: if_splits)

lemma loop_step_inv:
  assumes "run_tcp_tokio_step e (tt_loop s) s = Some s'"
  shows "pairing_inv s \<Longrightarrow> pairing_inv s'" "balance_inv s \<Longrightarrow> balance_inv s'" "phase_inv s \<Longrightarrow> phase_inv s'"
proof -
  define x where "x = last (tt_sessions s')"
  have "same_sessions s s' \<or> ts_pc x = S_start \<and> s' = s\<lparr>tt_sessions := tt_sessions s @ [x]\<rparr>"
    using assms
    by (cases "(e, tt_loop s, s)" rule: run_tcp_tokio_step.cases)
       (auto dest: join_session_same simp: x_def same_sessions_def split: sum.splits prod.splits if_splits)
  moreover have "(pairing_inv s \<longrightarrow> pairing_inv s') \<and> (balance_inv s \<longrightarrow> balance_inv s')"
    if x: "ts_pc x = S_start" "s' = s\<lparr>tt_sessions := tt_sessions s @ [x]\<rparr>"
  proof -
    have "session_ok s' i y pc = session_ok s i y pc" for i y pc
      using x(2) by (intro session_ok_cong) simp_all
    then show ?thesis
      using x by (auto simp: pairing_inv_def balance_inv_def nth_append checked_def less_Suc_eq)
  qed
  ultimately show "pairing_inv s \<Longrightarrow> pairing_inv s'" "balance_inv s \<Longrightarrow> balance_inv s'"
    using same_sessions_inv by blast+
  show "phase_inv s \<Longrightarrow> phase_inv s'"
    using assms
    by (cases "(e, tt_loop s, s)" rule: run_tcp_tokio_step.cases)
       (auto simp: phase_inv_def join_session_def split: sum.splits prod.splits if_splits dest!: set_update_subset_insert [THEN subsetD])
qed

lemma tcp_step_inv:
  assumes "tcp_step e s = Some s'" "pairing_inv s \<and> balance_inv s \<and> phase_inv s"
  shows "pairing_inv s' \<and> balance_inv s' \<and> phase_inv s'"
proof (cases e)
  case (Loop l)
  then show ?thesis using assms loop_step_inv [of l s s'] by simp
next
  case (Session i l)
  then have "session_step i l (ts_pc (tt_sessions s ! i)) s = Some s'" "i < length (tt_sessions s)"
    using assms(1) by (auto split: if_splits)
  then show ?thesis using assms(2) session_step_pairing session_step_inv by blast
qed

lemma tcp_run_inv:
  "tcp_run es s = Some s' \<Longrightarrow> pairing_inv s \<and> balance_inv s \<and> phase_inv s \<Longrightarrow>
   pairing_inv s' \<and> balance_inv s' \<and> phase_inv s'"
  by (induction es arbitrary: s) (auto dest: tcp_step_inv split: option.splits)

lemma tcp_new_inv: "pairing_inv tcp_new \<and> balance_inv tcp_new \<and> phase_inv tcp_new"
  by (simp add: tcp_new_def pairing_inv_def balance_inv_def phase_inv_def)

section \<open>Forwarding\<close>

text \<open>C15: TCP forwarding outside Windows, along every interleaving of the accept loop and its
  sessions. An outbound connection of a session goes to the address of an answer the mapping
  client gave for exactly the tuple of the socket that session accepted, and that answer
  passed the validation. Every forwarding that was logged as started is either still copying
  or logged as terminated, exactly once, even when it is cancelled; when the loop has
  returned, every session has ended and each start has its termination.\<close>

theorem tcp_forwarding_correct:
  assumes "tcp_run es tcp_new = Some s"
  shows "(\<forall>(i, t, a) \<in> set (tt_connected s). i < length (tt_sessions s)
        \<and> ts_peer (tt_sessions s ! i) = Inr (ht_source t) \<and> ts_local (tt_sessions s ! i) = Inr (ht_destination t)
        \<and> (\<exists>od. (i, t, od) \<in> set (tt_found s) \<and> a = od_address od \<and> validate_tcp_mapping t od = Inr ()))
    \<and> select started (tt_log s) = select terminated (tt_log s) + select (copying \<circ> ts_pc) (tt_sessions s)
    \<and> (tt_loop s = Loop_done \<longrightarrow>
         (\<forall>x \<in> set (tt_sessions s). ts_pc x = S_done) \<and> select started (tt_log s) = select terminated (tt_log s))"
proof -
  have I: "pairing_inv s" "balance_inv s" "phase_inv s" using tcp_run_inv [OF assms tcp_new_inv] by auto
  have ended: "\<forall>x \<in> set (tt_sessions s). ts_pc x = S_done" if "tt_loop s = Loop_done"
    using I(3) that by (auto simp: phase_inv_def)
  have "select (copying \<circ> ts_pc) xs = {#}" if "\<forall>x \<in> set xs. ts_pc x = S_done" for xs
    using that by (induction xs) auto
  then show ?thesis
    using I(1,2) ended by (auto simp: pairing_inv_def balance_inv_def accepted_tuple_def checked_def)
qed

definition sample_tcp_mapping :: original_destination where
  "sample_tcp_mapping = \<lparr>od_address = SocketAddrV4 0x08080808 80, od_protocol = 6\<rparr>"

definition sample_tcp_run :: "tcp_event list" where
  "sample_tcp_run =
     [Loop (Accepted (Inr (Inr (SocketAddrV4 0x0A000002 4000), Inr (SocketAddrV4 0x0A000001 80)))),
      Session 0 Begin, Session 0 (Looked_up (Inr sample_tcp_mapping)), Session 0 (Connected (Inr ())),
      Loop Shutdown_changed, Session 0 Dropped, Loop (Join_next 0), Loop Joined_all]"

definition sample_tcp_end :: tcp_state where
  "sample_tcp_end = the (tcp_run sample_tcp_run tcp_new)"

lemma sample_tcp_runs:
  "tcp_run sample_tcp_run tcp_new = Some sample_tcp_end"
  "tt_loop sample_tcp_end = Loop_done"
  "select started (tt_log sample_tcp_end) =
     {#(\<lparr>ht_source = SocketAddrV4 0x0A000002 4000, ht_destination = SocketAddrV4 0x0A000001 80, ht_protocol = 6\<rparr>,
        SocketAddrV4 0x08080808 80)#}"
  by (simp_all add: sample_tcp_end_def sample_tcp_run_def tcp_new_def tcp_defs sample_tcp_mapping_def
      validate_tcp_mapping_def TCP_PROTOCOL_def)

theorem tcp_forwarding_correct_witness:
  "select terminated (tt_log sample_tcp_end) =
     {#(\<lparr>ht_source = SocketAddrV4 0x0A000002 4000, ht_destination = SocketAddrV4 0x0A000001 80, ht_protocol = 6\<rparr>,
        SocketAddrV4 0x08080808 80)#}"
  using tcp_forwarding_correct [OF sample_tcp_runs(1)] sample_tcp_runs(2,3) by metis

section \<open>Shutdown\<close>

fun pc_rank :: "session_pc \<Rightarrow> nat" where
  "pc_rank S_start = 4"
| "pc_rank (S_lookup _) = 3"
| "pc_rank (S_connect _ _) = 2"
| "pc_rank (S_copy _ _) = 1"
| "pc_rank S_done = 0"

definition session_rank :: "tcp_session \<Rightarrow> nat" where
  "session_rank x = pc_rank (ts_pc x) + (if ts_joined x then 0 else 1)"

definition drain_rank :: "tcp_state \<Rightarrow> nat" where
  "drain_rank s = (\<Sum>x \<leftarrow> tt_sessions s. session_rank x) + (if tt_loop s = Loop_done then 0 else 1)"

lemma sum_list_update_less:
  fixes f :: "'a \<Rightarrow> nat"
  shows "i < length xs \<Longrightarrow> f x < f (xs ! i) \<Longrightarrow> (\<Sum>y \<leftarrow> xs[i := x]. f y) < (\<Sum>y \<leftarrow> xs. f y)"
proof (induction xs arbitrary: i)
  case (Cons y ys)
  then show ?case by (cases i) auto
qed simp

lemma session_step_rank:
  assumes "session_step i e pc s = Some s'" "i < length (tt_sessions s)" "pc = ts_pc (tt_sessions s ! i)"
  shows "pc_rank (ts_pc (tt_sessions s' ! i)) < pc_rank pc"
  using assms
  by (cases "(i, e, pc, s)" rule: session_step.cases)
     (auto simp: tcp_defs Let_def split: sum.splits if_splits session_pc.splits)

lemma drain_step_less:
  assumes "tcp_step e s = Some s'" "tt_loop s \<noteq> Accepting"
  shows "drain_rank s' < drain_rank s \<and> tt_loop s' \<noteq> Accepting"
proof (cases e)
  case (Session i l)
  then have st: "session_step i l (ts_pc (tt_sessions s ! i)) s = Some s'" "i < length (tt_sessions s)"
    using assms(1) by (auto split: if_splits)
  define p where "p = ts_pc (tt_sessions s' ! i)"
  have sessions: "tt_sessions s' = (tt_sessions s)[i := (tt_sessions s ! i)\<lparr>ts_pc := p\<rparr>]"
    unfolding p_def by (rule session_step_frame(1) [OF st refl])
  have "session_rank ((tt_sessions s ! i)\<lparr>ts_pc := p\<rparr>) < session_rank (tt_sessions s ! i)"
    using session_step_rank [OF st refl] by (simp add: session_rank_def p_def)
  from sum_list_update_less [OF st(2) this] show ?thesis
    using session_step_frame(2) [OF st refl] assms(2) by (simp add: drain_rank_def sessions)
next
  case (Loop l)
  have join: "drain_rank s' < drain_rank s \<and> tt_loop s' = tt_loop s" if "join_session i s = Some s'" for i
  proof -
    have i: "i < length (tt_sessions s)" "\<not> ts_joined (tt_sessions s ! i)"
      "s' = s\<lparr>tt_sessions := (tt_sessions s)[i := (tt_sessions s ! i)\<lparr>ts_joined := True\<rparr>]\<rparr>"
      using that by (auto simp: join_session_def split: if_splits)
    have "session_rank ((tt_sessions s ! i)\<lparr>ts_joined := True\<rparr>) < session_rank (tt_sessions s ! i)"
      using i(2) by (simp add: session_rank_def)
    from sum_list_update_less [OF i(1) this] show ?thesis by (simp add: drain_rank_def i(3))
  qed
  show ?thesis
  proof (cases l)
    case (Join_next i)
    then have "join_session i s = Some s'" using assms Loop by (cases "tt_loop s") auto
    from join [OF this] show ?thesis using assms(2) by simp
  qed (use assms Loop in \<open>cases "tt_loop s"; auto simp: drain_rank_def split: if_splits\<close>)+
qed

lemma drain_run_bound:
  "tcp_run es s = Some s' \<Longrightarrow> tt_loop s \<noteq> Accepting \<Longrightarrow>
   length es + drain_rank s' \<le> drain_rank s \<and> tt_loop s' \<noteq> Accepting"
proof (induction es arbitrary: s)
  case (Cons e es)
  then obtain s1 where s1: "tcp_step e s = Some s1" "tcp_run es s1 = Some s'" by (auto split: option.splits)
  then show ?case using Cons drain_step_less [OF s1(1)] by fastforce
qed simp

lemma drain_progress:
  assumes "phase_inv s" "tt_loop s = Draining_sessions"
  shows "\<exists>e. tcp_step e s \<noteq> None"
proof (cases "\<forall>x \<in> set (tt_sessions s). ts_joined x")
  case True
  then show ?thesis using assms(2) by (intro exI [of _ "Loop Joined_all"]) simp
next
  case False
  then obtain i where i: "i < length (tt_sessions s)" "\<not> ts_joined (tt_sessions s ! i)"
    by (auto simp: in_set_conv_nth)
  have "ts_aborted (tt_sessions s ! i)" using assms i by (simp add: phase_inv_def)
  then show ?thesis
    using i assms(2)
    by (cases "ts_pc (tt_sessions s ! i)")
       (force intro: exI [of _ "Session i Dropped"] exI [of _ "Loop (Join_next i)"] simp: join_session_def)+
qed



end
