(* ===== verification/Tls_Pin.thy ===== *)
theory Tls_Pin
  imports Prelude
begin

text \<open>
  Certificate pinning (\<open>crates/tls-rustls/src/lib.rs\<close>): loading an identity, parsing the
  SHA-256 pin of the peer, building the two rustls configurations and the two verifiers that
  accept only the pinned certificate. A Rust \<open>str\<close> is a list of Unicode scalar values here,
  since the parser trims Unicode white space.

  The third-party crates (rustls, webpki, rustls-pemfile, sha2) and the file system are the
  fields of \<open>tls_library\<close>. Nothing is assumed about them: the theorems hold for every
  behaviour of theirs. Signature checks during the handshake are forwarded to rustls
  unchanged and are not modelled.
\<close>

section \<open>Characters and strings\<close>

type_synonym scalars = "nat list"

definition is_whitespace :: "nat \<Rightarrow> bool" where
  "is_whitespace c \<longleftrightarrow>
     9 \<le> c \<and> c \<le> 13 \<or> c = 0x20 \<or> c = 0x85 \<or> c = 0xA0 \<or> c = 0x1680 \<or> 0x2000 \<le> c \<and> c \<le> 0x200A
     \<or> c = 0x2028 \<or> c = 0x2029 \<or> c = 0x202F \<or> c = 0x205F \<or> c = 0x3000"

definition is_ascii_whitespace :: "nat \<Rightarrow> bool" where
  "is_ascii_whitespace c \<longleftrightarrow> c = 0x20 \<or> c = 9 \<or> c = 10 \<or> c = 12 \<or> c = 13"

definition is_ascii_hexdigit :: "nat \<Rightarrow> bool" where
  "is_ascii_hexdigit c \<longleftrightarrow> 48 \<le> c \<and> c \<le> 57 \<or> 97 \<le> c \<and> c \<le> 102 \<or> 65 \<le> c \<and> c \<le> 70"

definition trim :: "scalars \<Rightarrow> scalars" where
  "trim v = rev (dropWhile is_whitespace (rev (dropWhile is_whitespace v)))"

fun strip_prefix :: "scalars \<Rightarrow> scalars \<Rightarrow> scalars option" where
  "strip_prefix [] v = Some v"
| "strip_prefix (p # ps) [] = None"
| "strip_prefix (p # ps) (c # cs) = (if p = c then strip_prefix ps cs else None)"

section \<open>Errors and the libraries\<close>

datatype rustls_config_error =
    CertificateIo string
  | CertificatePem string
  | MissingCertificate
  | KeyIo string
  | KeyPem string
  | MissingPrivateKey
  | InvalidPeerPin
  | Rustls string

fun rustls_config_error_message :: "rustls_config_error \<Rightarrow> string" where
  "rustls_config_error_message (CertificateIo e) = ''read TLS certificate file: '' @ e"
| "rustls_config_error_message (CertificatePem e) = ''parse TLS certificate PEM: '' @ e"
| "rustls_config_error_message MissingCertificate = ''TLS certificate file contains no certificates''"
| "rustls_config_error_message (KeyIo e) = ''read TLS private key file: '' @ e"
| "rustls_config_error_message (KeyPem e) = ''parse TLS private key PEM: '' @ e"
| "rustls_config_error_message MissingPrivateKey =
     ''TLS private key file contains no supported private key''"
| "rustls_config_error_message InvalidPeerPin =
     ''invalid TLS peer certificate SHA-256 pin: expected 64 hexadecimal digits''"
| "rustls_config_error_message (Rustls e) = ''TLS configuration rejected: '' @ e"

text \<open>A rustls error is the \<open>General\<close> variant the code builds itself, or one of the library's
  own; \<open>tl_show\<close> is its \<open>Display\<close>. \<open>'f\<close> is an open file, \<open>'p\<close> a parsed certificate, \<open>'r\<close> a
  trust anchor, \<open>'v\<close> a client verifier of the library and \<open>'n\<close> a protocol version.\<close>

datatype rustls_failure = General string | Other string

record ('f, 'p, 'r, 'v, 'n) tls_library =
  tl_open :: "scalars \<Rightarrow> string + 'f"
  tl_certs :: "'f \<Rightarrow> (string + bytes) list"
  tl_private_key :: "'f \<Rightarrow> string + bytes option"
  tl_all_versions :: "'n list"
  tl_protocol_versions :: "'n list \<Rightarrow> rustls_failure + unit"
  tl_single_cert :: "bytes list \<Rightarrow> bytes \<Rightarrow> rustls_failure + unit"
  tl_client_auth_cert :: "bytes list \<Rightarrow> bytes \<Rightarrow> rustls_failure + unit"
  tl_show :: "rustls_failure \<Rightarrow> string"
  tl_sha256 :: "bytes \<Rightarrow> bytes"
  tl_parse :: "bytes \<Rightarrow> rustls_failure + 'p"
  tl_add_root :: "bytes \<Rightarrow> string + 'r"
  tl_verify_server :: "'p \<Rightarrow> 'r list \<Rightarrow> bytes list \<Rightarrow> nat \<Rightarrow> rustls_failure + unit"
  tl_build_verifier :: "'r list \<Rightarrow> string + 'v"
  tl_verify_client :: "'v \<Rightarrow> bytes \<Rightarrow> bytes list \<Rightarrow> nat \<Rightarrow> rustls_failure + unit"

section \<open>Loading\<close>

record rustls_identity =
  ri_cert_chain :: "bytes list"
  ri_private_key :: bytes

definition rustls_identity_load ::
    "('f, 'p, 'r, 'v, 'n) tls_library \<Rightarrow> scalars \<Rightarrow> scalars \<Rightarrow> rustls_config_error + rustls_identity" where
  "rustls_identity_load T certificate_file key_file =
     and_then (map_err CertificateIo (tl_open T certificate_file)) (\<lambda>certificates.
     and_then (map_err CertificatePem (collect_results (tl_certs T certificates))) (\<lambda>cert_chain.
       if cert_chain = [] then Inl MissingCertificate
       else
         and_then (map_err KeyIo (tl_open T key_file)) (\<lambda>keys.
         and_then (map_err KeyPem (tl_private_key T keys)) (\<lambda>key.
         and_then (ok_or MissingPrivateKey key) (\<lambda>private_key.
           Inr \<lparr>ri_cert_chain = cert_chain, ri_private_key = private_key\<rparr>)))))"

definition hex_nibble :: "u8 \<Rightarrow> rustls_config_error + u8" where
  "hex_nibble value =
     (if 48 \<le> value \<and> value \<le> 57 then Inr (value - 48)
      else if 97 \<le> value \<and> value \<le> 102 then Inr (value - 97 + 10)
      else if 65 \<le> value \<and> value \<le> 70 then Inr (value - 65 + 10)
      else Inl InvalidPeerPin)"

text \<open>The loop that keeps the hexadecimal digits, and the loop over the chunks of two.\<close>

fun normalize_pin :: "scalars \<Rightarrow> rustls_config_error + bytes" where
  "normalize_pin [] = Inr []"
| "normalize_pin (c # cs) =
     (if is_ascii_hexdigit c then and_then (normalize_pin cs) (\<lambda>ns. Inr (of_nat c # ns))
      else if is_ascii_whitespace c \<or> c = 58 \<or> c = 45 then normalize_pin cs
      else Inl InvalidPeerPin)"

fun decode_chunks :: "bytes \<Rightarrow> rustls_config_error + bytes" where
  "decode_chunks (a # b # rest) =
     and_then (hex_nibble a) (\<lambda>high.
     and_then (hex_nibble b) (\<lambda>low.
     and_then (decode_chunks rest) (\<lambda>digest.
       Inr ((push_bit 4 high OR low) # digest))))"
| "decode_chunks _ = Inr []"

definition pin_body :: "scalars \<Rightarrow> scalars" where
  "pin_body value =
     (let value = trim value
      in case strip_prefix [48, 120] value of
           Some stripped \<Rightarrow> stripped
         | None \<Rightarrow> (case strip_prefix [48, 88] value of Some stripped \<Rightarrow> stripped | None \<Rightarrow> value))"

definition parse_sha256_pin :: "scalars \<Rightarrow> rustls_config_error + bytes" where
  "parse_sha256_pin value =
     and_then (normalize_pin (pin_body value)) (\<lambda>normalized.
       if length normalized \<noteq> 64 then Inl InvalidPeerPin else decode_chunks normalized)"

record rustls_config =
  ru_identity :: rustls_identity
  ru_peer_cert_sha256 :: bytes

definition rustls_config_load ::
    "('f, 'p, 'r, 'v, 'n) tls_library \<Rightarrow> scalars \<Rightarrow> scalars \<Rightarrow> scalars \<Rightarrow> rustls_config_error + rustls_config" where
  "rustls_config_load T certificate_file key_file pin =
     and_then (rustls_identity_load T certificate_file key_file) (\<lambda>identity.
     and_then (parse_sha256_pin pin) (\<lambda>digest.
       Inr \<lparr>ru_identity = identity, ru_peer_cert_sha256 = digest\<rparr>))"

section \<open>Verifiers\<close>

definition pin_matches :: "('f, 'p, 'r, 'v, 'n) tls_library \<Rightarrow> bytes \<Rightarrow> bytes \<Rightarrow> bool" where
  "pin_matches T pin certificate \<longleftrightarrow> tl_sha256 T certificate = pin"

definition roots_for_leaf :: "('f, 'p, 'r, 'v, 'n) tls_library \<Rightarrow> bytes \<Rightarrow> rustls_failure + 'r list" where
  "roots_for_leaf T certificate =
     and_then (map_err (\<lambda>e. General (''invalid pinned peer certificate: '' @ e)) (tl_add_root T certificate))
       (\<lambda>anchor. Inr [anchor])"

definition verify_server_cert ::
    "('f, 'p, 'r, 'v, 'n) tls_library \<Rightarrow> bytes \<Rightarrow> bytes \<Rightarrow> bytes list \<Rightarrow> nat \<Rightarrow> rustls_failure + unit" where
  "verify_server_cert T pin end_entity intermediates now =
     (if \<not> pin_matches T pin end_entity then Inl (General ''peer certificate SHA-256 pin mismatch'')
      else
        and_then (tl_parse T end_entity) (\<lambda>parsed.
        and_then (roots_for_leaf T end_entity) (\<lambda>roots.
        and_then (tl_verify_server T parsed roots intermediates now) (\<lambda>_. Inr ()))))"

definition verify_client_cert ::
    "('f, 'p, 'r, 'v, 'n) tls_library \<Rightarrow> bytes \<Rightarrow> bytes \<Rightarrow> bytes list \<Rightarrow> nat \<Rightarrow> rustls_failure + unit" where
  "verify_client_cert T pin end_entity intermediates now =
     (if \<not> pin_matches T pin end_entity then Inl (General ''peer certificate SHA-256 pin mismatch'')
      else
        and_then (roots_for_leaf T end_entity) (\<lambda>roots.
        and_then (map_err General (tl_build_verifier T roots)) (\<lambda>verifier.
          tl_verify_client T verifier end_entity intermediates now)))"

text \<open>A built configuration: what the local side sends, the pin of the verifier installed in
  it, and the application protocols.\<close>

record endpoint_config =
  tc_cert_chain :: "bytes list"
  tc_private_key :: bytes
  tc_verifier_pin :: bytes
  tc_alpn_protocols :: "string list"

definition rustls_error ::
    "('f, 'p, 'r, 'v, 'n) tls_library \<Rightarrow> rustls_failure \<Rightarrow> rustls_config_error" where
  "rustls_error T e = Rustls (tl_show T e)"

definition server_config_with_protocol_versions ::
    "('f, 'p, 'r, 'v, 'n) tls_library \<Rightarrow> rustls_config \<Rightarrow> 'n list \<Rightarrow> rustls_config_error + endpoint_config" where
  "server_config_with_protocol_versions T c versions =
     and_then (map_err (rustls_error T) (tl_protocol_versions T versions)) (\<lambda>_.
     and_then (map_err (rustls_error T)
       (tl_single_cert T (ri_cert_chain (ru_identity c)) (ri_private_key (ru_identity c)))) (\<lambda>_.
       Inr \<lparr>tc_cert_chain = ri_cert_chain (ru_identity c),
            tc_private_key = ri_private_key (ru_identity c),
            tc_verifier_pin = ru_peer_cert_sha256 c, tc_alpn_protocols = [''h2'']\<rparr>))"

definition server_config ::
    "('f, 'p, 'r, 'v, 'n) tls_library \<Rightarrow> rustls_config \<Rightarrow> rustls_config_error + endpoint_config" where
  "server_config T c = server_config_with_protocol_versions T c (tl_all_versions T)"

definition client_config_with_protocol_versions ::
    "('f, 'p, 'r, 'v, 'n) tls_library \<Rightarrow> rustls_config \<Rightarrow> 'n list \<Rightarrow> rustls_config_error + endpoint_config" where
  "client_config_with_protocol_versions T c versions =
     and_then (map_err (rustls_error T) (tl_protocol_versions T versions)) (\<lambda>_.
     and_then (map_err (rustls_error T)
       (tl_client_auth_cert T (ri_cert_chain (ru_identity c)) (ri_private_key (ru_identity c)))) (\<lambda>_.
       Inr \<lparr>tc_cert_chain = ri_cert_chain (ru_identity c),
            tc_private_key = ri_private_key (ru_identity c),
            tc_verifier_pin = ru_peer_cert_sha256 c, tc_alpn_protocols = [''h2'']\<rparr>))"

definition client_config ::
    "('f, 'p, 'r, 'v, 'n) tls_library \<Rightarrow> rustls_config \<Rightarrow> rustls_config_error + endpoint_config" where
  "client_config T c = client_config_with_protocol_versions T c (tl_all_versions T)"

section \<open>What the parser accepts\<close>

definition hex_value :: "nat \<Rightarrow> nat" where
  "hex_value c = (if c \<le> 57 then c - 48 else if c \<le> 70 then c - 55 else c - 87)"

definition nibbles :: "bytes \<Rightarrow> nat list" where
  "nibbles d = concat (map (\<lambda>b. [unat b div 16, unat b mod 16]) d)"

definition pin_separator :: "nat \<Rightarrow> bool" where
  "pin_separator c \<longleftrightarrow> is_ascii_whitespace c \<or> c = 58 \<or> c = 45"

text \<open>A text spells a digest: apart from the prefix and the surrounding white space it is made of
  hexadecimal digits and separators, and its digits are those of the 32 bytes, in order and
  in either case.\<close>

definition spells :: "scalars \<Rightarrow> bytes \<Rightarrow> bool" where
  "spells v d \<longleftrightarrow>
     length d = 32 \<and> (\<forall>c \<in> set (pin_body v). is_ascii_hexdigit c \<or> pin_separator c)
     \<and> map hex_value (filter is_ascii_hexdigit (pin_body v)) = nibbles d"

lemma nibbles_simps [simp]:
  "nibbles [] = []" "nibbles (b # bs) = unat b div 16 # unat b mod 16 # nibbles bs"
  by (simp_all add: nibbles_def)

lemma length_nibbles [simp]: "length (nibbles d) = 2 * length d"
  by (induction d) simp_all

lemma hex_value_less: "is_ascii_hexdigit c \<Longrightarrow> hex_value c < 16"
  by (auto simp: is_ascii_hexdigit_def hex_value_def)

lemma hex_nibble_digit:
  assumes "is_ascii_hexdigit c"
  shows "hex_nibble (of_nat c) = Inr (of_nat (hex_value c))"
proof -
  have "c < 256" using assms by (auto simp: is_ascii_hexdigit_def)
  then have c: "unat (of_nat c :: u8) = c" by (simp add: unat_of_nat)
  from assms consider "48 \<le> c" "c \<le> 57" | "97 \<le> c" "c \<le> 102" | "65 \<le> c" "c \<le> 70"
    unfolding is_ascii_hexdigit_def by blast
  then show ?thesis
    by cases (simp_all add: hex_nibble_def hex_value_def word_le_nat_alt c of_nat_diff)
qed

lemma normalize_pin_spec:
  "normalize_pin v =
     (if \<forall>c \<in> set v. is_ascii_hexdigit c \<or> pin_separator c
      then Inr (map of_nat (filter is_ascii_hexdigit v)) else Inl InvalidPeerPin)"
  by (induction v) (auto simp: pin_separator_def)

lemma byte_of_nibbles:
  assumes "h < 16" "l < 16"
  shows "push_bit 4 (of_nat h :: u8) OR of_nat l = of_nat (16 * h + l)"
proof -
  have "\<forall>h \<in> set [0..<16]. \<forall>l \<in> set [0..<16]. push_bit 4 (of_nat h :: u8) OR of_nat l = of_nat (16 * h + l)"
    by code_simp
  then show ?thesis using assms by simp
qed

lemma nibbles_Cons_iff:
  assumes "h < 16" "l < 16"
  shows "h # l # ns = nibbles d \<longleftrightarrow> (\<exists>d'. d = of_nat (16 * h + l) # d' \<and> ns = nibbles d')"
proof (cases d)
  case (Cons b bs)
  have "unat (of_nat (16 * h + l) :: u8) = 16 * h + l"
    using assms by (simp add: unat_of_nat del: of_nat_add of_nat_mult)
  then have "b = of_nat (16 * h + l) \<longleftrightarrow> unat b = 16 * h + l" by (metis unsigned_word_eqI)
  moreover have "unat b = 16 * h + l \<longleftrightarrow> h = unat b div 16 \<and> l = unat b mod 16"
    using assms by auto
  ultimately show ?thesis using Cons by auto
qed simp

lemma decode_chunks_spec:
  assumes "\<forall>c \<in> set cs. is_ascii_hexdigit c" "even (length cs)"
  shows "decode_chunks (map of_nat cs) = Inr d \<longleftrightarrow> map hex_value cs = nibbles d"
  using assms
proof (induction cs arbitrary: d rule: induct_list012)
  case 1
  show ?case by (cases d) auto
next
  case (3 a b cs)
  have "decode_chunks (map of_nat (a # b # cs)) = Inr d
      \<longleftrightarrow> (\<exists>d'. decode_chunks (map of_nat cs) = Inr d' \<and> d = of_nat (16 * hex_value a + hex_value b) # d')"
    using 3(3) by (auto simp: hex_nibble_digit byte_of_nibbles hex_value_less and_then_Inr_iff)
  also have "\<dots> \<longleftrightarrow> map hex_value (a # b # cs) = nibbles d"
    using 3 by (auto simp: nibbles_Cons_iff hex_value_less)
  finally show ?case .
qed simp

text \<open>The parser accepts exactly the texts that spell a 32-byte digest, and returns that digest.\<close>

theorem parse_sha256_pin_iff: "parse_sha256_pin v = Inr d \<longleftrightarrow> spells v d"
proof -
  define cs where "cs = filter is_ascii_hexdigit (pin_body v)"
  have "map hex_value cs = nibbles d \<Longrightarrow> length cs = 64 \<longleftrightarrow> length d = 32" for d
    by (drule arg_cong [where f = length]) auto
  moreover have "length cs = 64 \<Longrightarrow> decode_chunks (map of_nat cs) = Inr d \<longleftrightarrow> map hex_value cs = nibbles d"
    by (rule decode_chunks_spec) (auto simp: cs_def)
  ultimately show ?thesis
    unfolding parse_sha256_pin_def spells_def normalize_pin_spec cs_def [symmetric] by auto
qed

text \<open>Common ways to write a digest: with or without the prefix, in either case, with any
  separators between the bytes and white space around the whole.\<close>

definition hex_digit :: "bool \<Rightarrow> nat \<Rightarrow> nat" where
  "hex_digit upper n = (if n < 10 then 48 + n else if upper then 55 + n else 87 + n)"

fun display_bytes :: "bool \<Rightarrow> scalars \<Rightarrow> bytes \<Rightarrow> scalars" where
  "display_bytes upper sep [] = []"
| "display_bytes upper sep [b] = [hex_digit upper (unat b div 16), hex_digit upper (unat b mod 16)]"
| "display_bytes upper sep (b # bs) =
     hex_digit upper (unat b div 16) # hex_digit upper (unat b mod 16) # sep @ display_bytes upper sep bs"

definition display_pin :: "scalars \<Rightarrow> scalars \<Rightarrow> bool \<Rightarrow> scalars \<Rightarrow> scalars \<Rightarrow> bytes \<Rightarrow> scalars" where
  "display_pin before prefix upper sep after d = before @ prefix @ display_bytes upper sep d @ after"

lemma hex_digit_properties:
  "n < 16 \<Longrightarrow> is_ascii_hexdigit (hex_digit u n)" "n < 16 \<Longrightarrow> hex_value (hex_digit u n) = n"
  by (auto simp: hex_digit_def is_ascii_hexdigit_def hex_value_def)

lemma nibble_bounds [simp]: "unat (b :: u8) div 16 < 16" "unat (b :: u8) mod 16 < 16"
proof -
  have "unat b < 2 ^ LENGTH(8)" by (rule unsigned_less)
  then show "unat b div 16 < 16" "unat b mod 16 < 16" by auto
qed

lemma separator_not_digit: "pin_separator c \<Longrightarrow> \<not> is_ascii_hexdigit c"
  by (auto simp: pin_separator_def is_ascii_whitespace_def is_ascii_hexdigit_def)

lemma display_bytes_spec:
  assumes "\<forall>c \<in> set sep. pin_separator c"
  shows "map hex_value (filter is_ascii_hexdigit (display_bytes u sep d)) = nibbles d"
    "\<forall>c \<in> set (display_bytes u sep d). is_ascii_hexdigit c \<or> pin_separator c"
proof -
  have "filter is_ascii_hexdigit sep = []"
    using assms separator_not_digit by (auto simp: filter_empty_conv)
  then show "map hex_value (filter is_ascii_hexdigit (display_bytes u sep d)) = nibbles d"
    by (induction u sep d rule: display_bytes.induct) (simp_all add: hex_digit_properties)
  show "\<forall>c \<in> set (display_bytes u sep d). is_ascii_hexdigit c \<or> pin_separator c"
    using assms by (induction u sep d rule: display_bytes.induct) (auto simp: hex_digit_properties)
qed

lemma display_bytes_nonempty [simp]: "display_bytes u sep d = [] \<longleftrightarrow> d = []"
  by (cases "(u, sep, d)" rule: display_bytes.cases) simp_all

lemma display_bytes_ends:
  assumes "d \<noteq> []"
  obtains a b rest where "display_bytes u sep d = a # b # rest" "is_ascii_hexdigit a" "is_ascii_hexdigit b"
  and "is_ascii_hexdigit (last (display_bytes u sep d))"
proof -
  have "is_ascii_hexdigit (last (display_bytes u sep d))"
    using assms by (induction u sep d rule: display_bytes.induct)
      (auto simp: hex_digit_properties)
  moreover have "\<exists>a b rest. display_bytes u sep d = a # b # rest \<and> is_ascii_hexdigit a \<and> is_ascii_hexdigit b"
    using assms by (cases "(u, sep, d)" rule: display_bytes.cases) (auto simp: hex_digit_properties)
  ultimately show thesis using that by blast
qed

lemma trim_surrounded:
  assumes "\<forall>c \<in> set before. is_whitespace c" "\<forall>c \<in> set after. is_whitespace c"
    "xs \<noteq> []" "\<not> is_whitespace (hd xs)" "\<not> is_whitespace (last xs)"
  shows "trim (before @ xs @ after) = xs"
proof -
  have "dropWhile is_whitespace (before @ xs @ after) = xs @ after"
    using assms by (cases xs) auto
  moreover have "dropWhile is_whitespace (rev after @ rev xs) = rev xs"
    using assms by (subst dropWhile_append2) (auto simp: dropWhile_eq_self_iff hd_rev)
  ultimately show ?thesis by (simp add: trim_def)
qed

lemma hexdigit_not_whitespace: "is_ascii_hexdigit c \<Longrightarrow> \<not> is_whitespace c"
  by (auto simp: is_ascii_hexdigit_def is_whitespace_def)

lemma pin_body_display:
  assumes "\<forall>c \<in> set (before @ after). is_whitespace c" "prefix \<in> {[], [48, 120], [48, 88]}" "d \<noteq> []"
  shows "pin_body (display_pin before prefix u sep after d) = display_bytes u sep d"
proof -
  obtain a b rest where d: "display_bytes u sep d = a # b # rest" "is_ascii_hexdigit a" "is_ascii_hexdigit b"
    and last: "is_ascii_hexdigit (last (display_bytes u sep d))"
    using display_bytes_ends assms(3) by blast
  have zero: "is_ascii_hexdigit 48" by (simp add: is_ascii_hexdigit_def)
  have "\<not> is_whitespace (hd (prefix @ display_bytes u sep d))"
    using assms(2) d(1) hexdigit_not_whitespace [OF zero] hexdigit_not_whitespace [OF d(2)] by auto
  moreover have "\<not> is_whitespace (last (prefix @ display_bytes u sep d))"
    using last d(1) hexdigit_not_whitespace by simp
  ultimately have "trim (before @ (prefix @ display_bytes u sep d) @ after) = prefix @ display_bytes u sep d"
    using assms(1,3) by (intro trim_surrounded) simp_all
  moreover have "strip_prefix [48, x] (a # b # rest) = None" if "x \<in> {120, 88}" for x
    using that d(3) by (auto simp: is_ascii_hexdigit_def)
  ultimately show ?thesis
    using assms(2) d(1) by (elim insertE emptyE) (simp_all add: pin_body_def display_pin_def)
qed

text \<open>C30: a digest written in any of the common ways is parsed back to itself, and the parser
  accepts nothing but the texts that spell a 32-byte digest: a text with any other character
  or another number of digits is refused, and the digest returned is the one spelled.\<close>

theorem pin_round_trip:
  assumes "length d = 32" "\<forall>c \<in> set sep. pin_separator c"
    "\<forall>c \<in> set (before @ after). is_whitespace c" "prefix \<in> {[], [48, 120], [48, 88]}"
  shows "parse_sha256_pin (display_pin before prefix upper sep after d) = Inr d
    \<and> (\<forall>v d'. parse_sha256_pin v = Inr d' \<longleftrightarrow> spells v d')"
proof -
  have "pin_body (display_pin before prefix upper sep after d) = display_bytes upper sep d"
    using assms by (intro pin_body_display) auto
  then show ?thesis
    using assms(1) display_bytes_spec [OF assms(2)] by (simp add: parse_sha256_pin_iff spells_def)
qed

theorem pin_round_trip_witness:
  "parse_sha256_pin (display_pin [32] [48, 120] True [58] [10] (replicate 32 0xAB)) = Inr (replicate 32 0xAB)"
  using pin_round_trip [of "replicate 32 0xAB" "[58]" "[32]" "[10]" "[48, 120]" True]
  by (simp add: pin_separator_def is_whitespace_def)

section \<open>Only the pinned certificate\<close>

lemma verify_server_cert_iff:
  "verify_server_cert T pin cert intermediates now = Inr () \<longleftrightarrow>
     tl_sha256 T cert = pin
     \<and> (\<exists>parsed anchor. tl_parse T cert = Inr parsed \<and> tl_add_root T cert = Inr anchor
          \<and> tl_verify_server T parsed [anchor] intermediates now = Inr ())"
  by (auto simp: verify_server_cert_def pin_matches_def roots_for_leaf_def and_then_Inr_iff)

lemma verify_client_cert_iff:
  "verify_client_cert T pin cert intermediates now = Inr () \<longleftrightarrow>
     tl_sha256 T cert = pin
     \<and> (\<exists>anchor verifier. tl_add_root T cert = Inr anchor \<and> tl_build_verifier T [anchor] = Inr verifier
          \<and> tl_verify_client T verifier cert intermediates now = Inr ())"
  by (auto simp: verify_client_cert_def pin_matches_def roots_for_leaf_def and_then_Inr_iff)

lemma rustls_config_load_pin:
  assumes "rustls_config_load T cf kf pin = Inr c"
  shows "spells pin (ru_peer_cert_sha256 c)" "ri_cert_chain (ru_identity c) \<noteq> []"
proof -
  have "parse_sha256_pin pin = Inr (ru_peer_cert_sha256 c)" "ri_cert_chain (ru_identity c) \<noteq> []"
    using assms by (auto simp: rustls_config_load_def rustls_identity_load_def and_then_Inr_iff split: if_splits)
  then show "spells pin (ru_peer_cert_sha256 c)" "ri_cert_chain (ru_identity c) \<noteq> []"
    by (simp_all add: parse_sha256_pin_iff)
qed

lemma spells_unique: "spells v d \<Longrightarrow> spells v d' \<longleftrightarrow> d' = d"
  by (metis parse_sha256_pin_iff sum.inject(2))

lemma config_verifier_pin:
  "server_config T c = Inr s \<Longrightarrow> tc_verifier_pin s = ru_peer_cert_sha256 c \<and> tc_alpn_protocols s = [''h2'']"
  "client_config T c = Inr s \<Longrightarrow> tc_verifier_pin s = ru_peer_cert_sha256 c \<and> tc_alpn_protocols s = [''h2'']"
  by (auto simp: server_config_def server_config_with_protocol_versions_def client_config_def
      client_config_with_protocol_versions_def and_then_Inr_iff)

text \<open>The certificates a side should accept: those with the digest the operator wrote down that
  the library can parse, takes as their own trust anchor, and verifies against it.\<close>

definition trusted_server ::
    "('f, 'p, 'r, 'v, 'n) tls_library \<Rightarrow> scalars \<Rightarrow> bytes \<Rightarrow> bytes list \<Rightarrow> nat \<Rightarrow> bool" where
  "trusted_server T pin cert intermediates now \<longleftrightarrow>
     spells pin (tl_sha256 T cert)
     \<and> (\<exists>parsed anchor. tl_parse T cert = Inr parsed \<and> tl_add_root T cert = Inr anchor
          \<and> tl_verify_server T parsed [anchor] intermediates now = Inr ())"

definition trusted_client ::
    "('f, 'p, 'r, 'v, 'n) tls_library \<Rightarrow> scalars \<Rightarrow> bytes \<Rightarrow> bytes list \<Rightarrow> nat \<Rightarrow> bool" where
  "trusted_client T pin cert intermediates now \<longleftrightarrow>
     spells pin (tl_sha256 T cert)
     \<and> (\<exists>anchor verifier. tl_add_root T cert = Inr anchor \<and> tl_build_verifier T [anchor] = Inr verifier
          \<and> tl_verify_client T verifier cert intermediates now = Inr ())"

text \<open>C14: with a configuration loaded from an operator's pin, a TLS server accepts exactly the
  client certificates, and a TLS client exactly the server certificates, whose SHA-256
  digest the pin spells and that the library verifies with the certificate itself as the
  only trust anchor. Both sides offer HTTP/2 alone.\<close>

theorem pinned_peer_only:
  assumes "rustls_config_load T certificate_file key_file pin = Inr c"
    "server_config T c = Inr server" "client_config T c = Inr client"
  shows "(verify_client_cert T (tc_verifier_pin server) cert intermediates now = Inr ()
      \<longleftrightarrow> trusted_client T pin cert intermediates now)
    \<and> (verify_server_cert T (tc_verifier_pin client) cert intermediates now = Inr ()
      \<longleftrightarrow> trusted_server T pin cert intermediates now)
    \<and> tc_alpn_protocols server = [''h2''] \<and> tc_alpn_protocols client = [''h2'']"
  using spells_unique [OF rustls_config_load_pin(1) [OF assms(1)]]
    config_verifier_pin(1) [OF assms(2)] config_verifier_pin(2) [OF assms(3)]
  by (simp add: verify_client_cert_iff verify_server_cert_iff trusted_client_def trusted_server_def)

text \<open>A library with one certificate file, for which every byte string has the same digest.\<close>

definition sample_library :: "(unit, unit, unit, unit, unit) tls_library" where
  "sample_library =
     \<lparr>tl_open = (\<lambda>_. Inr ()), tl_certs = (\<lambda>_. [Inr [1]]), tl_private_key = (\<lambda>_. Inr (Some [2])),
      tl_all_versions = [()], tl_protocol_versions = (\<lambda>_. Inr ()), tl_single_cert = (\<lambda>_ _. Inr ()),
      tl_client_auth_cert = (\<lambda>_ _. Inr ()), tl_show = (\<lambda>_. []), tl_sha256 = (\<lambda>_. replicate 32 0xAB),
      tl_parse = (\<lambda>_. Inr ()), tl_add_root = (\<lambda>_. Inr ()), tl_verify_server = (\<lambda>_ _ _ _. Inr ()),
      tl_build_verifier = (\<lambda>_. Inr ()), tl_verify_client = (\<lambda>_ _ _ _. Inr ())\<rparr>"

definition sample_pin :: scalars where
  "sample_pin = display_bytes False [] (replicate 32 0xAB)"

definition sample_endpoint :: endpoint_config where
  "sample_endpoint =
     \<lparr>tc_cert_chain = [[1]], tc_private_key = [2], tc_verifier_pin = replicate 32 0xAB, tc_alpn_protocols = [''h2'']\<rparr>"

lemma sample_pin_parses: "parse_sha256_pin sample_pin = Inr (replicate 32 0xAB)"
  by code_simp

lemma sample_load:
  "rustls_config_load sample_library [97] [98] sample_pin =
     Inr \<lparr>ru_identity = \<lparr>ri_cert_chain = [[1]], ri_private_key = [2]\<rparr>,
          ru_peer_cert_sha256 = replicate 32 0xAB\<rparr>"
  by (simp add: rustls_config_load_def rustls_identity_load_def sample_library_def sample_pin_parses
      del: replicate.simps)

lemma sample_configs:
  "server_config sample_library \<lparr>ru_identity = \<lparr>ri_cert_chain = [[1]], ri_private_key = [2]\<rparr>,
     ru_peer_cert_sha256 = replicate 32 0xAB\<rparr> = Inr sample_endpoint"
  "client_config sample_library \<lparr>ru_identity = \<lparr>ri_cert_chain = [[1]], ri_private_key = [2]\<rparr>,
     ru_peer_cert_sha256 = replicate 32 0xAB\<rparr> = Inr sample_endpoint"
  by (simp_all add: server_config_def server_config_with_protocol_versions_def client_config_def
      client_config_with_protocol_versions_def sample_library_def sample_endpoint_def
      del: replicate.simps)

theorem pinned_peer_only_witness:
  "trusted_client sample_library sample_pin [1] [] 0"
  using pinned_peer_only [OF sample_load sample_configs, of "[1]" "[]" 0]
  by (simp add: verify_client_cert_def pin_matches_def roots_for_leaf_def sample_library_def
      sample_endpoint_def del: replicate.simps)

end
