(* ===== verification/Transport.thy ===== *)
theory Transport
  imports Tls_Pin Net "HOL-Library.Multiset"
begin

text \<open>
  The TLS listeners of the control service (\<open>crates/control-service/src/transport.rs\<close>): the
  checks on pre-shared-key credentials, the OpenSSL context with its two callbacks, the
  handshake of one accepted socket in either mode, and the stream of connections the gRPC
  server consumes. A \<open>build\<close> says which Cargo feature, target and OpenSSL the binary was built
  with. What OpenSSL, rustls and the sockets answer are arguments: \<open>openssl\<close> for building a
  context and \<open>handshake\<close> for what happens on one socket. The reads and writes of an
  established connection are forwarded to the library and are not modelled.
\<close>

section \<open>Strings as bytes\<close>

definition utf8_char :: "nat \<Rightarrow> bytes" where
  "utf8_char c = map of_nat
     (if c < 0x80 then [c]
      else if c < 0x800 then [0xC0 + c div 0x40, 0x80 + c mod 0x40]
      else if c < 0x10000 then [0xE0 + c div 0x1000, 0x80 + c div 0x40 mod 0x40, 0x80 + c mod 0x40]
      else [0xF0 + c div 0x40000, 0x80 + c div 0x1000 mod 0x40, 0x80 + c div 0x40 mod 0x40, 0x80 + c mod 0x40])"

definition as_bytes :: "scalars \<Rightarrow> bytes" where
  "as_bytes s = concat (map utf8_char s)"

section \<open>Configuration and errors\<close>

datatype tls_feature = No_tls | Tls_psk_feature | Tls_rustls_feature

record build =
  bd_feature :: tls_feature
  bd_linux :: bool
  bd_openssl_no_psk :: bool

record tls_psk_config =
  pk_identity :: scalars
  pk_secret :: bytes

datatype tls_config = TlsPsk tls_psk_config | TlsRustls rustls_config

datatype transport_error =
    UnsupportedTlsPsk
  | InvalidConfig
  | InvalidIdentity
  | SecretTooLong
  | Tls string
  | UnsupportedTlsRustls
  | NoTlsModeSelected
  | Bind string

section \<open>The pre-shared-key context\<close>

datatype ssl_version = TLS1_2 | OtherVersion

record openssl =
  os_mozilla_intermediate_v5 :: "string + unit"
  os_set_min_proto_version :: "ssl_version \<Rightarrow> string + unit"
  os_set_max_proto_version :: "ssl_version \<Rightarrow> string + unit"
  os_set_cipher_list :: "string \<Rightarrow> string + unit"
  os_select_next_proto :: "bytes \<Rightarrow> bytes \<Rightarrow> bytes option"

record psk_context =
  px_identity_bytes :: bytes
  px_secret_bytes :: bytes
  px_min_version :: ssl_version
  px_max_version :: ssl_version
  px_cipher_list :: string

definition alpn_select_callback :: "openssl \<Rightarrow> bytes \<Rightarrow> bytes option" where
  "alpn_select_callback L client_protocols = os_select_next_proto L [2, 104, 50] client_protocols"

text \<open>The callback writes the key into the buffer OpenSSL passes and returns its length; zero
  refuses the client.\<close>

definition psk_server_callback :: "psk_context \<Rightarrow> bytes option \<Rightarrow> bytes \<Rightarrow> usize \<times> bytes" where
  "psk_server_callback ctx client_identity psk =
     (if client_identity \<noteq> Some (px_identity_bytes ctx) \<or> length psk < length (px_secret_bytes ctx)
      then (0, psk)
      else (length (px_secret_bytes ctx), copy_at 0 (px_secret_bytes ctx) psk))"

definition build_context :: "build \<Rightarrow> openssl \<Rightarrow> tls_psk_config \<Rightarrow> transport_error + psk_context" where
  "build_context bd L config =
     (if bd_openssl_no_psk bd then Inl UnsupportedTlsPsk
      else
        and_then (map_err Tls (os_mozilla_intermediate_v5 L)) (\<lambda>_.
        and_then (map_err Tls (os_set_min_proto_version L TLS1_2)) (\<lambda>_.
        and_then (map_err Tls (os_set_max_proto_version L TLS1_2)) (\<lambda>_.
        and_then (map_err Tls (os_set_cipher_list L ''PSK-AES256-GCM-SHA384'')) (\<lambda>_.
          Inr \<lparr>px_identity_bytes = as_bytes (pk_identity config), px_secret_bytes = pk_secret config,
               px_min_version = TLS1_2, px_max_version = TLS1_2,
               px_cipher_list = ''PSK-AES256-GCM-SHA384''\<rparr>)))))"

definition tls_psk_server_new :: "build \<Rightarrow> openssl \<Rightarrow> tls_psk_config \<Rightarrow> transport_error + psk_context" where
  "tls_psk_server_new bd L config =
     (if \<not> bd_linux bd \<or> bd_feature bd \<noteq> Tls_psk_feature then Inl UnsupportedTlsPsk
      else if pk_identity config = [] \<or> pk_secret config = [] then Inl InvalidConfig
      else if 0 \<in> set (as_bytes (pk_identity config)) \<or> length (as_bytes (pk_identity config)) > 128
      then Inl InvalidIdentity
      else if length (pk_secret config) > 256 then Inl SecretTooLong
      else build_context bd L config)"

definition tls_rustls_server_new ::
    "('f, 'p, 'r, 'v, 'n) tls_library \<Rightarrow> rustls_config \<Rightarrow> transport_error + endpoint_config" where
  "tls_rustls_server_new T config = map_err (\<lambda>e. Tls (rustls_config_error_message e)) (server_config T config)"

section \<open>One accepted socket\<close>

datatype io_failure = Timed_out string | Invalid_data string | Other_kind string | Os_error string

text \<open>What the socket and the TLS library answer during one handshake: the peer's address, whether a
  session and a stream could be created (OpenSSL only), the result of the handshake, \<open>None\<close> if
  the five seconds passed first, and the negotiated application protocol.\<close>

record handshake =
  hs_peer_addr :: "string + socket_addr"
  hs_session :: "string + unit"
  hs_stream :: "string + unit"
  hs_accept :: "(string + unit) option"
  hs_alpn_protocol :: "bytes option"

record tls_connection =
  tn_handshake :: handshake
  tn_peer_addr :: socket_addr

definition connect_info :: "tls_connection \<Rightarrow> socket_addr" where
  "connect_info c = tn_peer_addr c"

definition negotiated_h2 :: "handshake \<Rightarrow> io_failure + unit" where
  "negotiated_h2 h =
     (if hs_alpn_protocol h \<noteq> Some [104, 50]
      then Inl (Invalid_data ''TLS connection did not negotiate h2'') else Inr ())"

definition accept_tls :: "handshake \<Rightarrow> io_failure + tls_connection" where
  "accept_tls h =
     and_then (map_err Os_error (hs_peer_addr h)) (\<lambda>peer_addr.
     and_then (map_err (\<lambda>_. Other_kind ''TLS session initialization failed'') (hs_session h)) (\<lambda>_.
     and_then (map_err (\<lambda>_. Other_kind ''TLS session initialization failed'') (hs_stream h)) (\<lambda>_.
     and_then (ok_or (Timed_out ''TLS handshake timed out'') (hs_accept h)) (\<lambda>accepted.
     and_then (map_err (\<lambda>_. Other_kind ''TLS handshake failed'') accepted) (\<lambda>_.
     and_then (negotiated_h2 h) (\<lambda>_.
       Inr \<lparr>tn_handshake = h, tn_peer_addr = peer_addr\<rparr>))))))"

definition accept_rustls :: "handshake \<Rightarrow> io_failure + tls_connection" where
  "accept_rustls h =
     and_then (map_err Os_error (hs_peer_addr h)) (\<lambda>peer_addr.
     and_then (ok_or (Timed_out ''TLS handshake timed out'') (hs_accept h)) (\<lambda>accepted.
     and_then (map_err (\<lambda>e. Other_kind (''TLS handshake failed: '' @ e)) accepted) (\<lambda>_.
     and_then (negotiated_h2 h) (\<lambda>_.
       Inr \<lparr>tn_handshake = h, tn_peer_addr = peer_addr\<rparr>))))"

definition drop_failed_connection :: "io_failure + 'c \<Rightarrow> (io_failure + 'c) option" where
  "drop_failed_connection result =
     (case result of Inr connection \<Rightarrow> Some (Inr connection) | Inl error \<Rightarrow> None)"

definition process_accepted ::
    "('h \<Rightarrow> io_failure + 'c) \<Rightarrow> io_failure + 'h \<Rightarrow> (io_failure + 'c) option" where
  "process_accepted accept accepted =
     (case accepted of
        Inl error \<Rightarrow> Some (Inl error)
      | Inr stream \<Rightarrow> drop_failed_connection (accept stream))"

section \<open>The stream of connections\<close>

text \<open>\<open>incoming\<close> maps the listener's stream to handshakes, runs at most 64 of them at a time and
  yields the results in the order they finish, without the dropped ones. A step takes the
  next item of the listener while there is room, or finishes one of the running items.\<close>

definition HANDSHAKE_LIMIT :: usize where "HANDSHAKE_LIMIT = 64"

record incoming_state =
  is_taken :: "(io_failure + handshake) list"
  is_running :: "(io_failure + handshake) list"
  is_yielded :: "(io_failure + tls_connection) list"

definition incoming_new :: incoming_state where
  "incoming_new = \<lparr>is_taken = [], is_running = [], is_yielded = []\<rparr>"

datatype incoming_event = Take "io_failure + handshake" | Finish nat

fun incoming_step ::
    "(handshake \<Rightarrow> io_failure + tls_connection) \<Rightarrow> incoming_event \<Rightarrow> incoming_state \<Rightarrow> incoming_state option" where
  "incoming_step accept (Take r) s =
     (if length (is_running s) < HANDSHAKE_LIMIT
      then Some (s\<lparr>is_taken := is_taken s @ [r], is_running := is_running s @ [r]\<rparr>) else None)"
| "incoming_step accept (Finish i) s =
     (if i < length (is_running s)
      then Some (s\<lparr>is_running := take i (is_running s) @ drop (Suc i) (is_running s),
                   is_yielded := is_yielded s @
                     (case process_accepted accept (is_running s ! i) of None \<Rightarrow> [] | Some r \<Rightarrow> [r])\<rparr>)
      else None)"

fun incoming_run ::
    "(handshake \<Rightarrow> io_failure + tls_connection) \<Rightarrow> incoming_event list \<Rightarrow> incoming_state \<Rightarrow> incoming_state option" where
  "incoming_run accept [] s = Some s"
| "incoming_run accept (e # es) s =
     (case incoming_step accept e s of None \<Rightarrow> None | Some s' \<Rightarrow> incoming_run accept es s')"

text \<open>Binding the listener comes first; its failure is the only error of \<open>incoming\<close> itself.\<close>

definition incoming :: "string + unit \<Rightarrow> transport_error + incoming_state" where
  "incoming bound = and_then (map_err Bind bound) (\<lambda>_. Inr incoming_new)"

section \<open>Who may connect\<close>

definition valid_credentials :: "tls_psk_config \<Rightarrow> bool" where
  "valid_credentials c \<longleftrightarrow>
     pk_identity c \<noteq> [] \<and> 0 \<notin> set (as_bytes (pk_identity c)) \<and> length (as_bytes (pk_identity c)) \<le> 128
     \<and> 0 < length (pk_secret c) \<and> length (pk_secret c) \<le> 256"

lemma build_context_built:
  assumes "build_context bd L c = Inr ctx"
  shows "ctx = \<lparr>px_identity_bytes = as_bytes (pk_identity c), px_secret_bytes = pk_secret c,
    px_min_version = TLS1_2, px_max_version = TLS1_2, px_cipher_list = ''PSK-AES256-GCM-SHA384''\<rparr>"
  using assms by (auto simp: build_context_def and_then_Inr_iff split: if_splits)

lemma tls_psk_server_new_built:
  assumes "tls_psk_server_new bd L c = Inr ctx"
  shows "valid_credentials c" "build_context bd L c = Inr ctx"
  using assms by (auto simp: tls_psk_server_new_def valid_credentials_def not_less split: if_splits)

text \<open>C31: a pre-shared-key server is only built from credentials within the bounds, speaks TLS
  1.2 with the one cipher suite, and its callback supplies a key exactly to a client that
  presents the configured identity, byte for byte. The key is then the whole configured
  secret; to any other client it supplies none and leaves the buffer untouched. OpenSSL
  passes a buffer of at least 256 bytes, the longest secret accepted.\<close>

theorem psk_server_authenticates:
  assumes "tls_psk_server_new bd L c = Inr ctx" "256 \<le> length psk"
    "psk_server_callback ctx client_identity psk = (n, psk')"
  shows "valid_credentials c \<and> px_min_version ctx = TLS1_2 \<and> px_max_version ctx = TLS1_2
    \<and> length psk' = length psk
    \<and> (if client_identity = Some (as_bytes (pk_identity c)) then 0 < n \<and> take n psk' = pk_secret c
       else n = 0 \<and> psk' = psk)"
  using tls_psk_server_new_built(1) [OF assms(1)]
    build_context_built [OF tls_psk_server_new_built(2) [OF assms(1)]] assms(2,3)
  by (auto simp: psk_server_callback_def valid_credentials_def copy_at_def split: if_splits)

definition sample_openssl :: openssl where
  "sample_openssl =
     \<lparr>os_mozilla_intermediate_v5 = Inr (), os_set_min_proto_version = (\<lambda>_. Inr ()),
      os_set_max_proto_version = (\<lambda>_. Inr ()), os_set_cipher_list = (\<lambda>_. Inr ()),
      os_select_next_proto = (\<lambda>server client. if client = server then Some [104, 50] else None)\<rparr>"

theorem psk_server_authenticates_witness:
  "take 2 (snd (psk_server_callback
     \<lparr>px_identity_bytes = [105, 100], px_secret_bytes = [1, 2], px_min_version = TLS1_2,
      px_max_version = TLS1_2, px_cipher_list = ''PSK-AES256-GCM-SHA384''\<rparr>
     (Some [105, 100]) (replicate 256 0))) = [1, 2]"
proof -
  let ?c = "\<lparr>pk_identity = [105, 100], pk_secret = [1, 2]\<rparr>"
  have "tls_psk_server_new \<lparr>bd_feature = Tls_psk_feature, bd_linux = True, bd_openssl_no_psk = False\<rparr>
      sample_openssl ?c =
    Inr \<lparr>px_identity_bytes = [105, 100], px_secret_bytes = [1, 2], px_min_version = TLS1_2,
      px_max_version = TLS1_2, px_cipher_list = ''PSK-AES256-GCM-SHA384''\<rparr>"
    by (simp add: tls_psk_server_new_def build_context_def sample_openssl_def as_bytes_def utf8_char_def)
  from psk_server_authenticates [OF this, of "replicate 256 0" "Some [105, 100]" 2
      "snd (psk_server_callback \<lparr>px_identity_bytes = [105, 100], px_secret_bytes = [1, 2], px_min_version = TLS1_2,
      px_max_version = TLS1_2, px_cipher_list = ''PSK-AES256-GCM-SHA384''\<rparr>
     (Some [105, 100]) (replicate 256 0))"]
  show ?thesis by (simp add: psk_server_callback_def as_bytes_def utf8_char_def del: replicate.simps)
qed

section \<open>What the server is given\<close>

text \<open>A handshake that established a connection with the peer at an address.\<close>

definition established :: "handshake \<Rightarrow> socket_addr \<Rightarrow> bool" where
  "established h peer \<longleftrightarrow>
     hs_peer_addr h = Inr peer \<and> hs_accept h = Some (Inr ()) \<and> hs_alpn_protocol h = Some [104, 50]"

lemma accept_tls_iff:
  "accept_tls h = Inr c \<longleftrightarrow>
     established h (connect_info c) \<and> is_ok (hs_session h) \<and> is_ok (hs_stream h) \<and> tn_handshake c = h"
  by (cases c) (auto simp: accept_tls_def established_def connect_info_def negotiated_h2_def and_then_Inr_iff is_ok_iff)

lemma accept_rustls_iff:
  "accept_rustls h = Inr c \<longleftrightarrow> established h (connect_info c) \<and> tn_handshake c = h"
  by (cases c) (auto simp: accept_rustls_def established_def connect_info_def negotiated_h2_def and_then_Inr_iff)

lemma process_accepted_iff:
  "process_accepted accept r = Some (Inl e) \<longleftrightarrow> r = Inl e"
  "process_accepted accept r = Some (Inr c) \<longleftrightarrow> (\<exists>h. r = Inr h \<and> accept h = Inr c)"
  by (auto simp: process_accepted_def drop_failed_connection_def split: sum.splits)

text \<open>The items taken are the running and the finished ones, and the results of the finished ones
  were yielded in order.\<close>

definition incoming_ok :: "(handshake \<Rightarrow> io_failure + tls_connection) \<Rightarrow> incoming_state \<Rightarrow> bool" where
  "incoming_ok accept s \<longleftrightarrow>
     length (is_running s) \<le> HANDSHAKE_LIMIT
     \<and> (\<exists>finished. mset (is_taken s) = mset (is_running s) + mset finished
          \<and> is_yielded s = List.map_filter (process_accepted accept) finished)"

lemma mset_remove_nth:
  assumes "i < length xs"
  shows "mset xs = add_mset (xs ! i) (mset (take i xs @ drop (Suc i) xs))"
  using arg_cong [OF id_take_nth_drop [OF assms], of mset] by simp

lemma incoming_step_ok:
  assumes "incoming_ok accept s" "incoming_step accept e s = Some s'"
  shows "incoming_ok accept s'"
proof (cases e)
  case (Take r)
  then show ?thesis using assms by (auto simp: incoming_ok_def split: if_splits)
next
  case (Finish i)
  then have i: "i < length (is_running s)" using assms(2) by (simp split: if_splits)
  obtain finished where f: "mset (is_taken s) = mset (is_running s) + mset finished"
    "is_yielded s = List.map_filter (process_accepted accept) finished"
    using assms(1) by (auto simp: incoming_ok_def)
  have "mset (is_taken s') = mset (is_running s') + mset (finished @ [is_running s ! i])"
    using assms(2) Finish i f(1) mset_remove_nth [OF i] by auto
  moreover have "is_yielded s' = List.map_filter (process_accepted accept) (finished @ [is_running s ! i])"
    using assms(2) Finish i f(2) by (auto simp: List.map_filter_def split: option.splits)
  moreover have "length (is_running s') \<le> HANDSHAKE_LIMIT"
    using assms Finish i by (auto simp: incoming_ok_def)
  ultimately show ?thesis unfolding incoming_ok_def by blast
qed

lemma incoming_run_ok:
  "incoming_ok accept s \<Longrightarrow> incoming_run accept es s = Some s' \<Longrightarrow> incoming_ok accept s'"
  by (induction es arbitrary: s) (auto dest: incoming_step_ok split: option.splits)

lemma incoming_new_ok: "incoming_ok accept incoming_new"
  by (auto simp: incoming_ok_def incoming_new_def List.map_filter_def intro!: exI [of _ "[]"])

lemma incoming_ok_yielded:
  assumes "incoming_ok accept s"
  shows "r \<in> set (is_yielded s) \<Longrightarrow> \<exists>x \<in> set (is_taken s). process_accepted accept x = Some r"
    "is_running s = [] \<Longrightarrow> r \<in> set (is_yielded s) \<longleftrightarrow> (\<exists>x \<in> set (is_taken s). process_accepted accept x = Some r)"
proof -
  obtain finished where f: "mset (is_taken s) = mset (is_running s) + mset finished"
    "is_yielded s = List.map_filter (process_accepted accept) finished"
    using assms by (auto simp: incoming_ok_def)
  have y: "r \<in> set (is_yielded s) \<longleftrightarrow> (\<exists>x \<in> set finished. process_accepted accept x = Some r)"
    unfolding f(2) by (force simp: List.map_filter_def)
  have t: "set (is_taken s) = set (is_running s) \<union> set finished"
    using arg_cong [OF f(1), of set_mset] by simp
  show "r \<in> set (is_yielded s) \<Longrightarrow> \<exists>x \<in> set (is_taken s). process_accepted accept x = Some r"
    using y t by blast
  show "is_running s = [] \<Longrightarrow> r \<in> set (is_yielded s) \<longleftrightarrow> (\<exists>x \<in> set (is_taken s). process_accepted accept x = Some r)"
    using y t by simp
qed

text \<open>C32: in either TLS mode, along every sequence of accepted sockets and finishing handshakes,
  at most 64 handshakes run at a time. A connection the server is given comes from an
  accepted socket whose handshake finished in time and negotiated HTTP/2, with that socket's
  peer as its metadata; an error it is given is one of the listener, so no client can end the
  service by failing a handshake. Nothing is lost: when no handshake is running every
  listener error was reported and every socket whose handshake succeeded was handed on.\<close>

theorem incoming_connections:
  assumes "accept \<in> {accept_tls, accept_rustls}" "incoming_run accept es incoming_new = Some s"
  shows "length (is_running s) \<le> 64
    \<and> (\<forall>c. Inr c \<in> set (is_yielded s) \<longrightarrow>
         Inr (tn_handshake c) \<in> set (is_taken s) \<and> established (tn_handshake c) (connect_info c))
    \<and> (\<forall>e. Inl e \<in> set (is_yielded s) \<longrightarrow> Inl e \<in> set (is_taken s))
    \<and> (is_running s = [] \<longrightarrow>
         (\<forall>e. Inl e \<in> set (is_taken s) \<longrightarrow> Inl e \<in> set (is_yielded s))
         \<and> (\<forall>h c. Inr h \<in> set (is_taken s) \<and> accept h = Inr c \<longrightarrow> Inr c \<in> set (is_yielded s)))"
proof -
  have ok: "incoming_ok accept s" using incoming_run_ok [OF incoming_new_ok assms(2)] .
  have accepted: "established (tn_handshake c) (connect_info c) \<and> tn_handshake c = h" if "accept h = Inr c" for h c
    using assms(1) that by (auto simp: accept_tls_iff accept_rustls_iff)
  have "Inr (tn_handshake c) \<in> set (is_taken s) \<and> established (tn_handshake c) (connect_info c)"
    if "Inr c \<in> set (is_yielded s)" for c
    using incoming_ok_yielded(1) [OF ok that] accepted by (auto simp: process_accepted_iff)
  moreover have "Inl e \<in> set (is_taken s)" if "Inl e \<in> set (is_yielded s)" for e
    using incoming_ok_yielded(1) [OF ok that] by (auto simp: process_accepted_iff)
  moreover have "length (is_running s) \<le> 64"
    using ok by (simp add: incoming_ok_def HANDSHAKE_LIMIT_def)
  moreover have "Inl e \<in> set (is_yielded s)" if "is_running s = []" "Inl e \<in> set (is_taken s)" for e
    using incoming_ok_yielded(2) [OF ok that(1)] that(2) by (force simp: process_accepted_iff)
  moreover have "Inr c \<in> set (is_yielded s)" if "is_running s = []" "Inr h \<in> set (is_taken s)" "accept h = Inr c" for h c
    using incoming_ok_yielded(2) [OF ok that(1)] that(2,3) by (force simp: process_accepted_iff)
  ultimately show ?thesis by blast
qed

definition sample_handshake :: handshake where
  "sample_handshake =
     \<lparr>hs_peer_addr = Inr (SocketAddrV4 0x0A000001 4000), hs_session = Inr (), hs_stream = Inr (),
      hs_accept = Some (Inr ()), hs_alpn_protocol = Some [104, 50]\<rparr>"

theorem incoming_connections_witness:
  "\<exists>s. incoming_run accept_tls [Take (Inr (sample_handshake\<lparr>hs_accept := None\<rparr>)), Take (Inr sample_handshake),
      Finish 1, Finish 0] incoming_new = Some s
    \<and> is_yielded s = [Inr \<lparr>tn_handshake = sample_handshake, tn_peer_addr = SocketAddrV4 0x0A000001 4000\<rparr>]
    \<and> established sample_handshake (SocketAddrV4 0x0A000001 4000)"
proof -
  let ?es = "[Take (Inr (sample_handshake\<lparr>hs_accept := None\<rparr>)), Take (Inr sample_handshake), Finish 1, Finish 0]"
  let ?c = "\<lparr>tn_handshake = sample_handshake, tn_peer_addr = SocketAddrV4 0x0A000001 4000\<rparr>"
  obtain s where s: "incoming_run accept_tls ?es incoming_new = Some s" "is_yielded s = [Inr ?c]"
    by (auto simp: incoming_new_def HANDSHAKE_LIMIT_def process_accepted_def accept_tls_def
        drop_failed_connection_def sample_handshake_def negotiated_h2_def)
  have "established (tn_handshake ?c) (connect_info ?c)"
    using incoming_connections [OF _ s(1)] s(2) by (metis insertI1 list.set_intros(1))
  with s show ?thesis by (auto simp: connect_info_def)
qed

end
