(* ===== verification/Control_Startup.thy ===== *)
theory Control_Startup
  imports Transport Aya_Adapter Control_Service
begin

text \<open>
  The process of the control service: reading the settings
  (\<open>crates/control-service/src/main.rs\<close>), the runtime that owns the backend, the service and
  the transport (\<open>lifecycle.rs\<close>), and the order of startup, serving and shutdown. The process
  environment, the value of \<open>SSP_LISTEN_ADDR\<close> as the standard library parses it, binding the
  listener and the work of the gRPC server until it is interrupted are inputs; the server may
  change the service in any way the handlers can, so \<open>ce_run\<close> is an arbitrary function.
  Console output is not modelled.
\<close>

section \<open>Settings\<close>

datatype os_string = Unicode scalars | Not_unicode

type_synonym environment = "string \<Rightarrow> os_string option"

datatype var_error = NotPresent | NotUnicode

definition env_var :: "environment \<Rightarrow> string \<Rightarrow> var_error + scalars" where
  "env_var env name =
     (case env name of
        None \<Rightarrow> Inl NotPresent
      | Some Not_unicode \<Rightarrow> Inl NotUnicode
      | Some (Unicode v) \<Rightarrow> Inr v)"

definition unwrap_or_default :: "'e + 'a list \<Rightarrow> 'a list" where
  "unwrap_or_default r = (case r of Inl _ \<Rightarrow> [] | Inr v \<Rightarrow> v)"

definition select_value ::
    "environment \<Rightarrow> 'a option \<Rightarrow> string \<Rightarrow> (scalars \<Rightarrow> 'a) \<Rightarrow> string + 'a option" where
  "select_value env cli env_name value =
     and_then (case env env_name of
                 None \<Rightarrow> Inr None
               | Some (Unicode v) \<Rightarrow> Inr (Some v)
               | Some Not_unicode \<Rightarrow> Inl (env_name @ '' is not valid UTF-8'')) (\<lambda>environment.
       if cli \<noteq> None \<and> environment \<noteq> None
       then Inl (env_name @ '' must not be combined with its command-line option'')
       else if cli \<noteq> None then Inr cli
       else Inr (case environment of None \<Rightarrow> None | Some v \<Rightarrow> if v = [] then None else Some (value v)))"

record control_args =
  ca_tls_cert_file :: "scalars option"
  ca_tls_key_file :: "scalars option"
  ca_tls_peer_cert_sha256 :: "scalars option"

definition resolve_tls_config ::
    "build \<Rightarrow> ('f, 'p, 'r, 'v, 'n) tls_library \<Rightarrow> environment \<Rightarrow> control_args \<Rightarrow> string + tls_config" where
  "resolve_tls_config bd T env args =
     and_then (select_value env (ca_tls_cert_file args) ''SSP_TLS_CERT_FILE'' id) (\<lambda>certificate_file.
     and_then (select_value env (ca_tls_key_file args) ''SSP_TLS_KEY_FILE'' id) (\<lambda>key_file.
     and_then (select_value env (ca_tls_peer_cert_sha256 args) ''SSP_TLS_PEER_CERT_SHA256'' id) (\<lambda>peer_pin.
       case bd_feature bd of
         Tls_psk_feature \<Rightarrow>
           if certificate_file \<noteq> None \<or> key_file \<noteq> None \<or> peer_pin \<noteq> None
           then Inl ''rustls TLS settings were supplied, but this binary was built with tls-psk''
           else Inr (TlsPsk
             \<lparr>pk_identity = unwrap_or_default (env_var env ''SSP_TLS_PSK_IDENTITY''),
              pk_secret = as_bytes (unwrap_or_default (env_var env ''SSP_TLS_PSK_SECRET''))\<rparr>)
       | Tls_rustls_feature \<Rightarrow>
           if env ''SSP_TLS_PSK_IDENTITY'' \<noteq> None \<or> env ''SSP_TLS_PSK_SECRET'' \<noteq> None
           then Inl ''PSK settings cannot be combined with the tls-rustls feature''
           else
             and_then (ok_or ''TLS certificate file is required'' certificate_file) (\<lambda>certificate_file.
             and_then (ok_or ''TLS private key file is required'' key_file) (\<lambda>key_file.
             and_then (ok_or ''TLS peer certificate SHA-256 pin is required'' peer_pin) (\<lambda>peer_pin.
             and_then (map_err rustls_config_error_message
                 (rustls_config_load T certificate_file key_file peer_pin)) (\<lambda>config.
               Inr (TlsRustls config)))))
       | No_tls \<Rightarrow> Inl ''no TLS transport feature was selected'')))"

section \<open>The runtime\<close>

datatype runtime_error =
    ConfigFailed config_error
  | TransportFailed transport_error
  | BackendFailed backend_error
  | GrpcFailed string

datatype tls_listener = Psk_listener psk_context | Rustls_listener endpoint_config

text \<open>\<open>rt_served\<close> is not a field of the program: it records the listener and address the server was
  started with.\<close>

record 's runtime =
  rt_service :: "'s service"
  rt_shutdown :: bool
  rt_transport :: "psk_context option"
  rt_rustls_transport :: "endpoint_config option"
  rt_served :: "(tls_listener \<times> socket_addr) option"

text \<open>\<open>None\<close> is the panic of an \<open>expect\<close>.\<close>

definition new_with_listener :: "'s \<Rightarrow> u64 \<Rightarrow> socket_addr \<Rightarrow> 's runtime option" where
  "new_with_listener backend nonce listener =
     (case store_new (runtime_config_default\<lparr>rc_listener := from_socket_addr listener\<rparr>) of
        Inl _ \<Rightarrow> None
      | Inr config \<Rightarrow>
          map_option (\<lambda>logs.
            \<lparr>rt_service = service_new backend config logs nonce, rt_shutdown = False,
             rt_transport = None, rt_rustls_transport = None, rt_served = None\<rparr>)
            (log_ring_new (rc_log_capacity (snapshot config))))"

definition runtime_new :: "'s \<Rightarrow> u64 \<Rightarrow> 's runtime option" where
  "runtime_new backend nonce = new_with_listener backend nonce (SocketAddrV4 0 50051)"

definition start_with_tls ::
    "build \<Rightarrow> ('f, 'p, 'r, 'v, 'n) tls_library \<Rightarrow> openssl \<Rightarrow> tls_config \<Rightarrow> 's runtime
       \<Rightarrow> (runtime_error + unit) \<times> 's runtime" where
  "start_with_tls bd T L config rt =
     (case (bd_feature bd, config) of
        (Tls_psk_feature, TlsPsk c) \<Rightarrow>
          (case tls_psk_server_new bd L c of
             Inl e \<Rightarrow> (Inl (TransportFailed e), rt)
           | Inr ctx \<Rightarrow> (Inr (), rt\<lparr>rt_transport := Some ctx\<rparr>))
      | (Tls_rustls_feature, TlsRustls c) \<Rightarrow>
          if bd_linux bd
          then case tls_rustls_server_new T c of
                 Inl e \<Rightarrow> (Inl (TransportFailed e), rt)
               | Inr server \<Rightarrow> (Inr (), rt\<lparr>rt_rustls_transport := Some server\<rparr>)
          else (Inl (TransportFailed UnsupportedTlsRustls), rt)
      | _ \<Rightarrow> (Inl (TransportFailed NoTlsModeSelected), rt))"

definition runtime_start ::
    "build \<Rightarrow> ('f, 'p, 'r, 'v, 'n) tls_library \<Rightarrow> openssl \<Rightarrow> environment \<Rightarrow> 's runtime
       \<Rightarrow> (runtime_error + unit) \<times> 's runtime" where
  "runtime_start bd T L env rt =
     (case bd_feature bd of
        Tls_psk_feature \<Rightarrow>
          start_with_tls bd T L (TlsPsk
            \<lparr>pk_identity = unwrap_or_default (env_var env ''SSP_TLS_PSK_IDENTITY''),
             pk_secret = as_bytes (unwrap_or_default (env_var env ''SSP_TLS_PSK_SECRET''))\<rparr>) rt
      | Tls_rustls_feature \<Rightarrow>
          (case and_then (map_err (\<lambda>_. Tls ''SSP_TLS_CERT_FILE is required'') (env_var env ''SSP_TLS_CERT_FILE'')) (\<lambda>certificate_file.
                and_then (map_err (\<lambda>_. Tls ''SSP_TLS_KEY_FILE is required'') (env_var env ''SSP_TLS_KEY_FILE'')) (\<lambda>key_file.
                and_then (map_err (\<lambda>_. Tls ''SSP_TLS_PEER_CERT_SHA256 is required'') (env_var env ''SSP_TLS_PEER_CERT_SHA256'')) (\<lambda>peer_pin.
                  map_err (\<lambda>e. Tls (rustls_config_error_message e))
                    (rustls_config_load T certificate_file key_file peer_pin)))) of
             Inl e \<Rightarrow> (Inl (TransportFailed e), rt)
           | Inr config \<Rightarrow> start_with_tls bd T L (TlsRustls config) rt)
      | No_tls \<Rightarrow> (Inl (TransportFailed NoTlsModeSelected), rt))"

record 's control_env =
  ce_vars :: environment
  ce_listen :: "(string + socket_addr) option"
  ce_nonce :: u64
  ce_bind :: "socket_addr \<Rightarrow> string + unit"
  ce_run :: "'s service \<Rightarrow> (string + unit) \<times> 's service"

definition serve_listener ::
    "'s control_env \<Rightarrow> tls_listener option \<Rightarrow> socket_addr \<Rightarrow> 's runtime \<Rightarrow> (runtime_error + unit) \<times> 's runtime" where
  "serve_listener E transport address rt =
     (case transport of
        None \<Rightarrow> (Inl (TransportFailed InvalidConfig), rt)
      | Some listener \<Rightarrow>
          (case incoming (ce_bind E address) of
             Inl e \<Rightarrow> (Inl (TransportFailed e), rt)
           | Inr _ \<Rightarrow>
               (case ce_run E (rt_service rt) of
                  (result, service) \<Rightarrow>
                    (map_err GrpcFailed result,
                     rt\<lparr>rt_service := service, rt_served := Some (listener, address)\<rparr>))))"

definition serve :: "build \<Rightarrow> 's control_env \<Rightarrow> 's runtime \<Rightarrow> (runtime_error + unit) \<times> 's runtime" where
  "serve bd E rt =
     (let address = listener_socket_addr (rc_listener (snapshot (sv_config (rt_service rt))))
      in case bd_feature bd of
           Tls_psk_feature \<Rightarrow>
             if \<not> bd_linux bd then (Inl (TransportFailed UnsupportedTlsPsk), rt)
             else serve_listener E (map_option Psk_listener (rt_transport rt)) address rt
         | Tls_rustls_feature \<Rightarrow>
             if \<not> bd_linux bd then (Inl (TransportFailed UnsupportedTlsRustls), rt)
             else serve_listener E (map_option Rustls_listener (rt_rustls_transport rt)) address rt
         | No_tls \<Rightarrow> (Inl (TransportFailed NoTlsModeSelected), rt))"

definition runtime_shutdown :: "'s backend \<Rightarrow> 's runtime \<Rightarrow> (runtime_error + unit) \<times> 's runtime" where
  "runtime_shutdown B rt =
     (let rt = rt\<lparr>rt_service := set_ready False (rt_service rt), rt_shutdown := True\<rparr>
      in case be_detach B None (sv_backend (rt_service rt)) of
           (r, b) \<Rightarrow> (map_err BackendFailed r, rt\<lparr>rt_service := (rt_service rt)\<lparr>sv_backend := b\<rparr>\<rparr>))"

section \<open>The process\<close>

datatype exit = Returned | Exit nat | Panicked

text \<open>\<open>LinuxBpfBackend::new\<close> and \<open>new_with_wsl_hooks\<close> on Linux: no program loaded, no links.\<close>

definition linux_bpf_backend_new :: "'k \<Rightarrow> bool \<Rightarrow> ('h, 'l, 'k) aya_tc linux_state" where
  "linux_bpf_backend_new k wsl = with_adapter \<lparr>tc_state = None, tc_wsl_hooks = wsl, tc_kernel = k\<rparr>"

definition listen_address :: "'s control_env \<Rightarrow> string + socket_addr" where
  "listen_address E = (case ce_listen E of None \<Rightarrow> Inr (SocketAddrV4 0 50051) | Some r \<Rightarrow> r)"

definition hook_layout :: "environment \<Rightarrow> bool option" where
  "hook_layout env =
     (case env_var env ''SSP_TC_HOOK_LAYOUT'' of
        Inr v \<Rightarrow> if v = [119, 115, 108] then Some True else None
      | Inl NotPresent \<Rightarrow> Some False
      | Inl NotUnicode \<Rightarrow> None)"

definition control_main ::
    "build \<Rightarrow> ('f, 'p, 'r, 'v, 'n) tls_library \<Rightarrow> openssl \<Rightarrow> 's backend \<Rightarrow> (bool \<Rightarrow> 's) \<Rightarrow> 's control_env
       \<Rightarrow> control_args \<Rightarrow> exit \<times> 's runtime option" where
  "control_main bd T L B new_backend E args =
     (if bd_feature bd = No_tls then (Exit 2, None)
      else case listen_address E of
        Inl _ \<Rightarrow> (Exit 1, None)
      | Inr address \<Rightarrow>
          if sa_port address = 0 then (Exit 1, None)
          else case hook_layout (ce_vars E) of
            None \<Rightarrow> (Exit 1, None)
          | Some wsl \<Rightarrow>
              (case new_with_listener (new_backend wsl) (ce_nonce E) address of
                 None \<Rightarrow> (Panicked, None)
               | Some rt \<Rightarrow>
                   (case resolve_tls_config bd T (ce_vars E) args of
                      Inl _ \<Rightarrow> (Exit 2, Some rt)
                    | Inr config \<Rightarrow>
                        (case start_with_tls bd T L config rt of
                           (Inl _, rt) \<Rightarrow> (Exit 1, Some rt)
                         | (Inr _, rt) \<Rightarrow>
                             (case serve bd E rt of
                                (served, rt) \<Rightarrow>
                                  (case runtime_shutdown B rt of
                                     (stopped, rt) \<Rightarrow>
                                       (if \<not> is_ok served \<or> \<not> is_ok stopped then Exit 1 else Returned,
                                        Some rt)))))))"

section \<open>Startup\<close>

lemma linux_detach_all:
  assumes "linux_detach A None s = (Inr u, s')"
  shows "lx_attachments s' = []"
proof -
  obtain fs ds a where d: "detach_each A (lx_attachments s) (lx_adapter s) = (fs, ds, a)"
    using prod_cases3 by blast
  then have "fs = []" "lx_attachments s' = filter (\<lambda>l. l \<notin> set ds) (lx_attachments s)"
    using assms by (auto simp: linux_detach_def Let_def split: if_splits)
  then have "ds = lx_attachments s" using detach_each_complete [of A "lx_attachments s"] d by simp
  with \<open>lx_attachments s' = _\<close> show ?thesis by simp
qed

lemma new_with_listener_ok:
  assumes "sa_port a \<noteq> 0"
  obtains rt where "new_with_listener b nonce a = Some rt" "rt_served rt = None"
    "rt_transport rt = None" "rt_rustls_transport rt = None" "sv_backend (rt_service rt) = b"
    "rc_listener (snapshot (sv_config (rt_service rt))) = from_socket_addr a"
proof -
  let ?c = "runtime_config_default\<lparr>rc_listener := from_socket_addr a\<rparr>"
  have "valid_config map_maxima_default ?c"
    using default_config_valid assms by (simp add: valid_config_def valid_from_socket_addr)
  then have "store_new ?c = Inr \<lparr>cs_current = ?c, cs_next_revision = rc_revision ?c + 1, cs_maxima = map_maxima_default\<rparr>"
    by (simp add: store_new_def store_new_with_maxima_def and_then_Inr_iff)
  then show thesis
    using that by (auto simp: new_with_listener_def snapshot_def service_new_def log_ring_new_def runtime_config_default_def)
qed

text \<open>A listener that only authenticated peers can use: it was built from the credentials of this
  process, either a pre-shared key within the bounds or a certificate pin.\<close>

definition authenticated ::
    "build \<Rightarrow> ('f, 'p, 'r, 'v, 'n) tls_library \<Rightarrow> openssl \<Rightarrow> environment \<Rightarrow> control_args \<Rightarrow> tls_listener \<Rightarrow> bool" where
  "authenticated bd T L env args l =
     (case l of
        Psk_listener ctx \<Rightarrow>
          \<exists>c. env_var env ''SSP_TLS_PSK_IDENTITY'' = Inr (pk_identity c)
              \<and> valid_credentials c \<and> tls_psk_server_new bd L c = Inr ctx
      | Rustls_listener server \<Rightarrow>
          \<exists>cert key pin c. select_value env (ca_tls_peer_cert_sha256 args) ''SSP_TLS_PEER_CERT_SHA256'' id = Inr (Some pin)
              \<and> rustls_config_load T cert key pin = Inr c \<and> server_config T c = Inr server)"

definition selected_listener :: "build \<Rightarrow> 's runtime \<Rightarrow> tls_listener option" where
  "selected_listener bd rt =
     (if bd_feature bd = Tls_psk_feature then map_option Psk_listener (rt_transport rt)
      else map_option Rustls_listener (rt_rustls_transport rt))"

lemma env_var_nonempty: "unwrap_or_default (env_var env n) \<noteq> [] \<Longrightarrow> env_var env n = Inr (unwrap_or_default (env_var env n))"
  by (auto simp: unwrap_or_default_def split: sum.splits)

lemma started_authenticated:
  assumes "resolve_tls_config bd T env args = Inr config" "start_with_tls bd T L config rt = (Inr (), rt')"
  shows "\<exists>l. selected_listener bd rt' = Some l \<and> authenticated bd T L env args l"
    "rt_service rt' = rt_service rt" "rt_served rt' = rt_served rt" "bd_linux bd"
proof -
  show "rt_service rt' = rt_service rt" "rt_served rt' = rt_served rt" "bd_linux bd"
    using assms(2) by (auto simp: start_with_tls_def tls_psk_server_new_def
        split: tls_feature.splits tls_config.splits sum.splits if_splits)
  show "\<exists>l. selected_listener bd rt' = Some l \<and> authenticated bd T L env args l"
  proof (cases config)
    case (TlsPsk c)
    then obtain ctx where ctx: "tls_psk_server_new bd L c = Inr ctx" "rt_transport rt' = Some ctx"
      "bd_feature bd = Tls_psk_feature"
      using assms(2) by (auto simp: start_with_tls_def split: tls_feature.splits sum.splits if_splits)
    have "pk_identity c = unwrap_or_default (env_var env ''SSP_TLS_PSK_IDENTITY'')"
      using assms(1) TlsPsk ctx(3) by (auto simp: resolve_tls_config_def and_then_Inr_iff split: if_splits)
    moreover have "valid_credentials c" using tls_psk_server_new_built(1) [OF ctx(1)] .
    ultimately have "env_var env ''SSP_TLS_PSK_IDENTITY'' = Inr (pk_identity c)"
      using env_var_nonempty by (metis valid_credentials_def)
    then show ?thesis
      using ctx \<open>valid_credentials c\<close> by (auto simp: selected_listener_def authenticated_def)
  next
    case (TlsRustls c)
    then obtain server where server: "tls_rustls_server_new T c = Inr server" "rt_rustls_transport rt' = Some server"
      "bd_feature bd = Tls_rustls_feature"
      using assms(2) by (auto simp: start_with_tls_def split: tls_feature.splits sum.splits if_splits)
    then show ?thesis
      using assms(1) TlsRustls
      by (auto simp: selected_listener_def authenticated_def resolve_tls_config_def tls_rustls_server_new_def
          and_then_Inr_iff split: if_splits)
  qed
qed

lemma serve_outcome:
  assumes "serve bd E rt = (r, rt')" "rt_served rt = None" "bd_linux bd"
  shows "rt_served rt' \<noteq> None \<Longrightarrow> \<exists>l. selected_listener bd rt = Some l
      \<and> rt_served rt' = Some (l, listener_socket_addr (rc_listener (snapshot (sv_config (rt_service rt)))))"
    and "is_ok r \<Longrightarrow> rt_served rt' \<noteq> None"
  using assms
  by (auto simp: serve_def serve_listener_def selected_listener_def Let_def
      split: tls_feature.splits option.splits sum.splits prod.splits if_splits)

lemma shutdown_outcome:
  assumes "runtime_shutdown (linux_backend ex A) rt = (r, rt')"
  shows "rt_served rt' = rt_served rt" "\<not> sv_ready (rt_service rt')"
    "is_ok r \<Longrightarrow> lx_attachments (sv_backend (rt_service rt')) = []"
proof -
  obtain d b where d: "linux_detach A None (sv_backend (rt_service rt)) = (d, b)" by fastforce
  have rt': "r = map_err BackendFailed d" "rt_served rt' = rt_served rt" "\<not> sv_ready (rt_service rt')"
    "sv_backend (rt_service rt') = b"
    using assms d by (auto simp: runtime_shutdown_def linux_backend_def set_ready_def)
  then show "rt_served rt' = rt_served rt" "\<not> sv_ready (rt_service rt')" by auto
  show "is_ok r \<Longrightarrow> lx_attachments (sv_backend (rt_service rt')) = []"
    using d rt'(1,4) linux_detach_all [of A "sv_backend (rt_service rt)"] by (cases d) auto
qed

section \<open>The whole process\<close>

text \<open>The address the operator asked for, without scope and flow label.\<close>

definition requested_address :: "'s control_env \<Rightarrow> socket_addr \<Rightarrow> bool" where
  "requested_address E a \<longleftrightarrow>
     (\<exists>r. listen_address E = Inr r
        \<and> a = socket_addr_new (sa_ip r) (sa_port r) \<and> sa_port a \<noteq> 0)"

lemma listener_address: "listener_socket_addr (from_socket_addr a) = socket_addr_new (sa_ip a) (sa_port a)"
  by (simp add: listener_socket_addr_def from_socket_addr_def)

lemma control_main_never_panics: "fst (control_main bd T L B new_backend E args) \<noteq> Panicked"
proof (cases "listen_address E")
  case (Inr a)
  show ?thesis
  proof (cases "sa_port a = 0 \<or> hook_layout (ce_vars E) = None")
    case False
    then obtain wsl where w: "hook_layout (ce_vars E) = Some wsl" "sa_port a \<noteq> 0" by auto
    obtain rt where "new_with_listener (new_backend wsl) (ce_nonce E) a = Some rt"
      using new_with_listener_ok [OF w(2), of "new_backend wsl" "ce_nonce E"] by blast
    then show ?thesis using Inr w by (simp add: control_main_def split: sum.split prod.split)
  qed (use Inr in \<open>auto simp: control_main_def\<close>)
qed (simp add: control_main_def)

text \<open>A process that got as far as serving, or that returned, went through every stage.\<close>

lemma control_main_stages:
  assumes "control_main bd T L B new_backend E args = (e, final)"
    and "e = Returned \<or> (\<exists>rt. final = Some rt \<and> rt_served rt \<noteq> None)"
  obtains address rt0 config rt1 served rt2 stopped rt3 where
    "listen_address E = Inr address" "sa_port address \<noteq> 0"
    "rc_listener (snapshot (sv_config (rt_service rt0))) = from_socket_addr address" "rt_served rt0 = None"
    "resolve_tls_config bd T (ce_vars E) args = Inr config"
    "start_with_tls bd T L config rt0 = (Inr (), rt1)"
    "serve bd E rt1 = (served, rt2)" "runtime_shutdown B rt2 = (stopped, rt3)"
    "final = Some rt3" "e = Returned \<longleftrightarrow> is_ok served \<and> is_ok stopped"
proof -
  obtain address where a: "listen_address E = Inr address"
    "sa_port address \<noteq> 0" "bd_feature bd \<noteq> No_tls"
    using assms by (auto simp: control_main_def split: sum.splits if_splits)
  obtain wsl where b: "hook_layout (ce_vars E) = Some wsl"
    using assms a by (cases "hook_layout (ce_vars E)") (auto simp: control_main_def)
  obtain rt0 where rt0: "new_with_listener (new_backend wsl) (ce_nonce E) address = Some rt0" "rt_served rt0 = None"
    "rc_listener (snapshot (sv_config (rt_service rt0))) = from_socket_addr address"
    using new_with_listener_ok [OF a(2), of "new_backend wsl" "ce_nonce E"] by metis
  obtain config where c: "resolve_tls_config bd T (ce_vars E) args = Inr config"
    using assms a b rt0 by (cases "resolve_tls_config bd T (ce_vars E) args") (auto simp: control_main_def)
  obtain r rt1 where st: "start_with_tls bd T L config rt0 = (r, rt1)" by fastforce
  obtain served rt2 where sv: "serve bd E rt1 = (served, rt2)" by fastforce
  obtain stopped rt3 where sd: "runtime_shutdown B rt2 = (stopped, rt3)" by fastforce
  have "r = Inr ()"
  proof (cases r)
    case (Inl x)
    then have "rt1 = rt0" using st
      by (auto simp: start_with_tls_def split: tls_feature.splits tls_config.splits sum.splits if_splits)
    then show ?thesis using assms a b rt0 c st Inl by (auto simp: control_main_def)
  qed simp
  then show thesis
    using that [OF a(1,2) rt0(3,2) c _ sv sd] assms(1) a b rt0(1) c st sv sd
    by (auto simp: control_main_def split: if_splits)
qed


text \<open>A pre-shared-key process on a kernel that is never used, interrupted at once.\<close>

definition sample_vars :: environment where
  "sample_vars = [''SSP_TLS_PSK_IDENTITY'' \<mapsto> Unicode [105, 100], ''SSP_TLS_PSK_SECRET'' \<mapsto> Unicode [115]]"

definition sample_control_env :: "'s control_env" where
  "sample_control_env =
     \<lparr>ce_vars = sample_vars, ce_listen = None, ce_nonce = 5, ce_bind = (\<lambda>_. Inr ()), ce_run = (\<lambda>s. (Inr (), s))\<rparr>"

definition sample_build :: build where
  "sample_build = \<lparr>bd_feature = Tls_psk_feature, bd_linux = True, bd_openssl_no_psk = False\<rparr>"

lemma sample_resolved:
  "resolve_tls_config sample_build T sample_vars \<lparr>ca_tls_cert_file = None, ca_tls_key_file = None, ca_tls_peer_cert_sha256 = None\<rparr>
     = Inr (TlsPsk \<lparr>pk_identity = [105, 100], pk_secret = [115]\<rparr>)"
  by (simp add: resolve_tls_config_def select_value_def sample_vars_def sample_build_def env_var_def
      unwrap_or_default_def as_bytes_def utf8_char_def)

lemma sample_process_returns:
  fixes K :: "('h, 'l, 'k) aya"
  shows "fst (control_main sample_build T sample_openssl (linux_backend ex (aya_adapter K)) (linux_bpf_backend_new k)
     sample_control_env \<lparr>ca_tls_cert_file = None, ca_tls_key_file = None, ca_tls_peer_cert_sha256 = None\<rparr>) = Returned"
proof -
  obtain rt :: "('h, 'l, 'k) aya_tc linux_state runtime"
    where rt: "new_with_listener (linux_bpf_backend_new k False) 5 (SocketAddrV4 0 50051) = Some rt"
    "sv_backend (rt_service rt) = linux_bpf_backend_new k False"
    using new_with_listener_ok [of "SocketAddrV4 0 50051" "linux_bpf_backend_new k False" 5] by auto
  obtain ctx where ctx: "tls_psk_server_new sample_build sample_openssl \<lparr>pk_identity = [105, 100], pk_secret = [115]\<rparr> = Inr ctx"
    by (auto simp: tls_psk_server_new_def build_context_def sample_build_def sample_openssl_def as_bytes_def utf8_char_def)
  let ?rt1 = "rt\<lparr>rt_transport := Some ctx\<rparr>"
  have start: "start_with_tls sample_build T sample_openssl (TlsPsk \<lparr>pk_identity = [105, 100], pk_secret = [115]\<rparr>) rt
      = (Inr (), ?rt1)"
    using ctx by (simp add: start_with_tls_def sample_build_def)
  obtain rt2 where serve: "serve sample_build sample_control_env ?rt1 = (Inr (), rt2)" "rt_service rt2 = rt_service rt"
    by (auto simp: serve_def serve_listener_def incoming_def sample_build_def sample_control_env_def Let_def)
  obtain rt3 where stop: "runtime_shutdown (linux_backend ex (aya_adapter K)) rt2 = (Inr (), rt3)"
    using serve(2) rt(2) by (auto simp: runtime_shutdown_def linux_backend_def linux_detach_def Let_def
        set_ready_def linux_bpf_backend_new_def with_adapter_def)
  have "hook_layout sample_vars = Some False" by (simp add: hook_layout_def env_var_def sample_vars_def)
  then show ?thesis
    using rt(1) sample_resolved [of T] start serve(1) stop
    by (simp add: control_main_def listen_address_def sample_control_env_def sample_build_def)
qed


end
