(* ===== verification/Host_Startup.thy ===== *)
theory Host_Startup
  imports Control_Startup End_To_End
begin

text \<open>
  The process of the host proxy: its settings and the order of connecting, binding,
  activating, forwarding and detaching (\<open>crates/host-proxy/src/main.rs\<close>), and the part of
  \<open>Proxy\<close> that binds the listeners and supervises the forwarding tasks
  (\<open>crates/host-proxy/src/lib.rs\<close>). The tasks themselves are in \<open>Tcp_Sessions\<close>,
  \<open>Conditional_Accept\<close>, \<open>Udp_Associations\<close> and \<open>Maintenance\<close>; here the results of joining them
  are inputs. So are the parsed command line, opening the TLS channel, the sockets, and which
  branch of a \<open>select!\<close> is taken. Every input may change the state behind the channel, because
  the tasks and other clients run meanwhile. Console output is not modelled.
\<close>

section \<open>Settings\<close>

record host_args =
  ha_listen :: socket_addr
  ha_listen_backlog :: u32
  ha_control_endpoint :: string
  ha_psk_identity :: "scalars option"
  ha_psk_secret :: "scalars option"
  ha_psk_secret_file :: "scalars option"
  ha_tls_cert_file :: "scalars option"
  ha_tls_key_file :: "scalars option"
  ha_tls_peer_cert_sha256 :: "scalars option"
  ha_bpf_elf :: string
  ha_interface :: string
  ha_udp_idle_timeout_secs :: u64
  ha_cleanup_interval_secs :: u64
  ha_idle_ttl_secs :: u64
  ha_tcp_terminal_grace_secs :: u64
  ha_flow_scan_batch :: u32

definition load_secret :: "(scalars \<Rightarrow> string + bytes) \<Rightarrow> host_args \<Rightarrow> string + bytes" where
  "load_secret read_file args =
     (case (ha_psk_secret args, ha_psk_secret_file args) of
        (Some _, Some _) \<Rightarrow> Inl ''provide only one PSK secret source''
      | (Some secret, None) \<Rightarrow> Inr (as_bytes secret)
      | (None, Some path) \<Rightarrow> map_err (\<lambda>e. ''read PSK secret: '' @ e) (read_file path)
      | (None, None) \<Rightarrow> Inl ''PSK secret is required'')"

text \<open>The host's \<open>select_value\<close> has the same text as the control service's.\<close>

definition host_select_value ::
    "environment \<Rightarrow> 'a option \<Rightarrow> string \<Rightarrow> (scalars \<Rightarrow> 'a) \<Rightarrow> string + 'a option" where
  "host_select_value env cli env_name value = select_value env cli env_name value"

definition resolve_rustls_options ::
    "environment \<Rightarrow> host_args \<Rightarrow> string + scalars option \<times> scalars option \<times> scalars option" where
  "resolve_rustls_options env args =
     and_then (host_select_value env (ha_tls_cert_file args) ''SSP_TLS_CERT_FILE'' id) (\<lambda>cert.
     and_then (host_select_value env (ha_tls_key_file args) ''SSP_TLS_KEY_FILE'' id) (\<lambda>key.
     and_then (host_select_value env (ha_tls_peer_cert_sha256 args) ''SSP_TLS_PEER_CERT_SHA256'' id) (\<lambda>pin.
       Inr (cert, key, pin))))"

definition as_string :: "scalars \<Rightarrow> string" where
  "as_string s = map (\<lambda>b. char_of (unat b)) (as_bytes s)"

definition build_proxy_config :: "host_args \<Rightarrow> scalars \<Rightarrow> bytes \<Rightarrow> proxy_config" where
  "build_proxy_config args psk_identity psk_secret =
     \<lparr>px_listen = ha_listen args, px_listen_backlog = ha_listen_backlog args,
      px_control_endpoint = ha_control_endpoint args, px_psk_identity = as_string psk_identity,
      px_psk_secret = psk_secret, px_udp_idle_timeout = from_secs (ha_udp_idle_timeout_secs args),
      px_cleanup_interval = from_secs (ha_cleanup_interval_secs args),
      px_idle_ttl = from_secs (ha_idle_ttl_secs args),
      px_tcp_terminal_grace = from_secs (ha_tcp_terminal_grace_secs args),
      px_flow_scan_batch = ha_flow_scan_batch args\<rparr>"

section \<open>The proxy\<close>

text \<open>\<open>he_tcp_bind\<close> opens the platform's listener and \<open>he_local_addr\<close> reads its address back.
  A join yields the task's result, or an error when the task panicked.\<close>

datatype run_winner = Shutdown_first | Tcp_first | Udp_first

datatype main_winner = Proxy_ended | Interrupted "string + unit"

datatype detach_winner = Detach_timeout bool | Detach_ended

record 's process_env =
  he_vars :: environment
  he_windows :: bool
  he_read_file :: "scalars \<Rightarrow> string + bytes"
  he_connect :: "'s \<Rightarrow> (proxy_error + unit) \<times> 's"
  he_tcp_bind :: "socket_addr \<Rightarrow> u32 \<Rightarrow> string + socket_addr"
  he_local_addr :: "socket_addr \<Rightarrow> string + socket_addr"
  he_udp_bind :: "socket_addr \<Rightarrow> string + unit"
  he_winner :: "'s \<Rightarrow> run_winner \<times> 's"
  he_stop :: "'s \<Rightarrow> 's"
  he_join_tcp :: "'s \<Rightarrow> (string + (proxy_error + unit)) \<times> 's"
  he_join_udp :: "'s \<Rightarrow> (string + unit) \<times> 's"
  he_join_maintenance :: "'s \<Rightarrow> (string + unit) \<times> 's"
  he_udp_shutdown :: "'s \<Rightarrow> 's"
  he_main_winner :: "'s \<Rightarrow> main_winner \<times> 's"
  he_send_shutdown :: "'s \<Rightarrow> 's"
  he_join_proxy :: "'s \<Rightarrow> (string + unit) \<times> 's"
  he_detach_winner :: "'s \<Rightarrow> detach_winner \<times> 's"

definition proxy_new :: "bool \<Rightarrow> proxy_config \<Rightarrow> proxy_error + proxy_config" where
  "proxy_new tls_rustls config = and_then (proxy_validate tls_rustls config) (\<lambda>_. Inr config)"

definition bound_local_addr :: "'s process_env \<Rightarrow> socket_addr \<Rightarrow> string + socket_addr" where
  "bound_local_addr E l = (if he_windows E then Inr l else he_local_addr E l)"

definition proxy_bind :: "'s process_env \<Rightarrow> proxy_config \<Rightarrow> proxy_error + socket_addr" where
  "proxy_bind E config =
     and_then (map_err Io (he_tcp_bind E (px_listen config) (px_listen_backlog config))) (\<lambda>tcp_listener.
     and_then (map_err Io (bound_local_addr E tcp_listener)) (\<lambda>actual_listen.
     and_then (map_err Io (he_udp_bind E actual_listen)) (\<lambda>_. Inr tcp_listener)))"

definition joined :: "string + (proxy_error + unit) \<Rightarrow> proxy_error + unit" where
  "joined r = and_then (map_err Control r) (\<lambda>result. result)"

definition run_bound :: "'s process_env \<Rightarrow> 's \<Rightarrow> (proxy_error + unit) \<times> 's" where
  "run_bound E s =
     (let (result, s) =
        (case he_winner E s of
           (Shutdown_first, s) \<Rightarrow>
             let s = he_stop E s;
                 (tcp_result, s) = he_join_tcp E s;
                 (_, s) = he_join_udp E s;
                 (_, s) = he_join_maintenance E s
             in (joined tcp_result, s)
         | (Tcp_first, s) \<Rightarrow>
             let (tcp_result, s) = he_join_tcp E s;
                 s = he_stop E s;
                 (_, s) = he_join_udp E s;
                 (_, s) = he_join_maintenance E s
             in (joined tcp_result, s)
         | (Udp_first, s) \<Rightarrow>
             let (udp_result, s) = he_join_udp E s;
                 s = he_stop E s;
                 (_, s) = he_join_tcp E s;
                 (_, s) = he_join_maintenance E s
             in (map_err Control udp_result, s))
      in (result, he_udp_shutdown E s))"

definition proxy_run :: "'s process_env \<Rightarrow> proxy_config \<Rightarrow> 's \<Rightarrow> (proxy_error + unit) \<times> 's" where
  "proxy_run E config s =
     (case proxy_bind E config of Inl e \<Rightarrow> (Inl e, s) | Inr _ \<Rightarrow> run_bound E s)"

section \<open>The process\<close>

definition proxy_task :: "'s process_env \<Rightarrow> 's \<Rightarrow> (proxy_error + unit) \<times> 's" where
  "proxy_task E s =
     (case run_bound E s of
        (result, s) \<Rightarrow>
          (case he_join_proxy E s of
             (Inl e, s) \<Rightarrow> (Inl (Control e), s)
           | (Inr _, s) \<Rightarrow> (result, s)))"

definition supervise :: "'s process_env \<Rightarrow> 's \<Rightarrow> (proxy_error + unit) \<times> 's" where
  "supervise E s =
     (case he_main_winner E s of
        (Proxy_ended, s) \<Rightarrow> proxy_task E s
      | (Interrupted (Inl e), s) \<Rightarrow> (Inl (Io e), s)
      | (Interrupted (Inr _), s) \<Rightarrow> proxy_task E (he_send_shutdown E s))"

definition final_detach :: "'s process_env \<Rightarrow> 's channel \<Rightarrow> string \<Rightarrow> 's \<Rightarrow> (proxy_error + unit) \<times> 's" where
  "final_detach E C interface s =
     (case he_detach_winner E s of
        (Detach_timeout sent, s) \<Rightarrow>
          (Inl (Control ''control detach timed out''), if sent then snd (client_detach C interface s) else s)
      | (Detach_ended, s) \<Rightarrow> client_detach C interface s)"

definition connect_client :: "build \<Rightarrow> 's process_env \<Rightarrow> host_args \<Rightarrow> 's \<Rightarrow> (proxy_error + unit) \<times> 's" where
  "connect_client bd E args s =
     (if bd_feature bd = Tls_psk_feature \<and> ha_psk_identity args = None
      then (Inl (InvalidConfiguration ''PSK identity is required in tls-psk mode''), s)
      else he_connect E s)"

text \<open>What the process decides before it contacts anything: the configuration, or exit status 2.\<close>

definition host_settings :: "build \<Rightarrow> 's process_env \<Rightarrow> host_args \<Rightarrow> proxy_config option" where
  "host_settings bd E args =
     (case resolve_rustls_options (he_vars E) args of
        Inl _ \<Rightarrow> None
      | Inr (cert, key, pin) \<Rightarrow>
          (case bd_feature bd of
             Tls_psk_feature \<Rightarrow>
               (case load_secret (he_read_file E) args of
                  Inl _ \<Rightarrow> None
                | Inr secret \<Rightarrow>
                    if cert \<noteq> None \<or> key \<noteq> None \<or> pin \<noteq> None then None
                    else
                      let config = build_proxy_config args (case ha_psk_identity args of None \<Rightarrow> [] | Some i \<Rightarrow> i) secret
                      in if \<not> is_ok (proxy_validate False config) \<or> \<not> is_ok (validate_tls_psk config) then None
                         else Some config)
           | Tls_rustls_feature \<Rightarrow>
               if ha_psk_identity args \<noteq> None \<or> ha_psk_secret args \<noteq> None \<or> ha_psk_secret_file args \<noteq> None then None
               else if cert = None \<or> key = None \<or> pin = None then None
               else
                 let config = build_proxy_config args [] []
                 in if \<not> is_ok (proxy_validate True config) then None else Some config
           | No_tls \<Rightarrow> None))"

text \<open>Everything up to a successful activation, or the early exit.\<close>

definition host_prepare :: "build \<Rightarrow> 's process_env \<Rightarrow> 's channel \<Rightarrow> host_args \<Rightarrow> 's \<Rightarrow> exit \<times> 's + 's" where
  "host_prepare bd E C args s =
     (case host_settings bd E args of
        None \<Rightarrow> Inl (Exit 2, s)
      | Some config \<Rightarrow>
          (case connect_client bd E args s of
             (Inl _, s) \<Rightarrow> Inl (Exit 1, s)
           | (Inr _, s) \<Rightarrow>
               (case proxy_new (bd_feature bd = Tls_rustls_feature) config of
                  Inl _ \<Rightarrow> Inl (Panicked, s)
                | Inr proxy \<Rightarrow>
                    (case and_then (proxy_bind E proxy) (\<lambda>l. map_err Io (bound_local_addr E l)) of
                       Inl _ \<Rightarrow> Inl (Exit 1, s)
                     | Inr proxy_address \<Rightarrow>
                         (case activate C (ha_bpf_elf args) (ha_interface args) proxy_address s of
                            (Inl _, s) \<Rightarrow> Inl (Exit 1, s)
                          | (Inr _, s) \<Rightarrow> Inr s)))))"

definition host_main :: "build \<Rightarrow> 's process_env \<Rightarrow> 's channel \<Rightarrow> host_args \<Rightarrow> 's \<Rightarrow> exit \<times> 's" where
  "host_main bd E C args s =
     (case host_prepare bd E C args s of
        Inl early \<Rightarrow> early
      | Inr s \<Rightarrow>
          (case supervise E s of
             (result, s) \<Rightarrow>
               (case final_detach E C (ha_interface args) s of
                  (Inl _, s) \<Rightarrow> (Exit 1, s)
                | (Inr _, s) \<Rightarrow> (if is_ok result then Returned else Exit 1, s))))"

section \<open>What the process leaves behind\<close>

lemma host_settings_usable:
  assumes "host_settings bd E args = Some config"
  shows "usable_config (bd_feature bd = Tls_rustls_feature) config"
  using assms
  by (auto simp: host_settings_def Let_def is_ok_iff proxy_validate_usable
      split: sum.splits prod.splits tls_feature.splits if_splits)

lemma proxy_new_usable: "usable_config f config \<Longrightarrow> proxy_new f config = Inr config"
  by (simp add: proxy_new_def and_then_Inr_iff proxy_validate_usable)

lemma host_prepare_early:
  assumes "host_prepare bd E C args s = Inl (e, s')"
  shows "e = Exit 2 \<and> s' = s \<or> e = Exit 1"
proof (cases "host_settings bd E args")
  case (Some config)
  then show ?thesis
    using assms proxy_new_usable [OF host_settings_usable [OF Some]]
    by (auto simp: host_prepare_def split: sum.splits prod.splits)
qed (use assms in \<open>simp add: host_prepare_def\<close>)

lemma host_prepare_activated:
  assumes "host_prepare bd E C args s = Inr s1"
  obtains config l a s0 where "host_settings bd E args = Some config" "proxy_bind E config = Inr l"
    "bound_local_addr E l = Inr a" "activate C (ha_bpf_elf args) (ha_interface args) a s0 = (Inr (), s1)"
proof -
  obtain config where c: "host_settings bd E args = Some config"
    using assms by (cases "host_settings bd E args") (auto simp: host_prepare_def)
  show thesis
    using assms c proxy_new_usable [OF host_settings_usable [OF c]] that [OF c]
    by (auto simp: host_prepare_def and_then_Inr_iff split: sum.splits prod.splits)
qed

lemma client_detach_served:
  assumes "client_detach (service_channel sh memory_backend) i (sv, clock) = (r, sv', clock')"
  shows "is_ok r \<and> (\<forall>a \<in> set (ms_attachments (sv_backend sv')). at_interface a \<noteq> i)"
proof -
  obtain sv1 reply where d: "service_detach memory_backend \<lparr>drq_interfaces = [i], drq_all = False\<rparr> sv = (Inr reply, sv1)"
    "set (ms_attachments (sv_backend sv1)) = {a \<in> set (ms_attachments (sv_backend sv)). at_interface a \<noteq> i}"
    using memory_service_detach by blast
  have "r = Inr () \<and> sv' = sv1"
    using assms d(1)
    by (auto simp: client_detach_def client_locked_def detach_interface_def service_channel_def served_rpc bind_act_def)
  then show ?thesis using d(2) by auto
qed

definition no_links :: "string \<Rightarrow> memory_state served \<Rightarrow> bool" where
  "no_links interface s \<longleftrightarrow> (\<forall>a \<in> set (ms_attachments (sv_backend (fst s))). at_interface a \<noteq> interface)"

lemma final_detach_served:
  assumes "final_detach E (service_channel sh memory_backend) i s = (r, s')"
  shows "is_ok r \<or> fst (he_detach_winner E s) = Detach_ended \<Longrightarrow> is_ok r \<and> no_links i s'"
proof -
  assume ok: "is_ok r \<or> fst (he_detach_winner E s) = Detach_ended"
  obtain w sv clock where w: "he_detach_winner E s = (w, sv, clock)" by (metis prod_cases3)
  have "w = Detach_ended"
    using ok assms w by (cases w) (auto simp: final_detach_def)
  then have "client_detach (service_channel sh memory_backend) i (sv, clock) = (r, fst s', snd s')"
    using assms w by (simp add: final_detach_def)
  from client_detach_served [OF this] show ?thesis by (simp add: no_links_def)
qed


text \<open>A process over a fresh service that is interrupted at once.\<close>

definition sample_host_env :: "'s process_env" where
  "sample_host_env =
     \<lparr>he_vars = Map.empty, he_windows = False, he_read_file = (\<lambda>_. Inl []), he_connect = Pair (Inr ()),
      he_tcp_bind = (\<lambda>a _. Inr a), he_local_addr = Inr, he_udp_bind = (\<lambda>_. Inr ()), he_winner = Pair Shutdown_first,
      he_stop = id, he_join_tcp = Pair (Inr (Inr ())), he_join_udp = Pair (Inr ()),
      he_join_maintenance = Pair (Inr ()), he_udp_shutdown = id, he_main_winner = Pair (Interrupted (Inr ())),
      he_send_shutdown = id, he_join_proxy = Pair (Inr ()), he_detach_winner = Pair Detach_ended\<rparr>"

definition sample_host_args :: host_args where
  "sample_host_args =
     \<lparr>ha_listen = SocketAddrV4 0x7F000001 15000, ha_listen_backlog = 1024, ha_control_endpoint = ''https://127.0.0.1:50051'',
      ha_psk_identity = Some [105, 100], ha_psk_secret = Some [115], ha_psk_secret_file = None, ha_tls_cert_file = None,
      ha_tls_key_file = None, ha_tls_peer_cert_sha256 = None, ha_bpf_elf = ''ssp.o'', ha_interface = ''eth0'',
      ha_udp_idle_timeout_secs = 60, ha_cleanup_interval_secs = 10, ha_idle_ttl_secs = 60,
      ha_tcp_terminal_grace_secs = 30, ha_flow_scan_batch = 256\<rparr>"

lemma sample_settings: "host_settings sample_build sample_host_env sample_host_args \<noteq> None"
  by (simp add: host_settings_def resolve_rustls_options_def host_select_value_def select_value_def sample_host_env_def sample_host_args_def
      sample_build_def load_secret_def build_proxy_config_def as_string_def as_bytes_def utf8_char_def
      proxy_validate_def validate_tls_psk_def duration_to_nanos_def u64_try_from_def from_secs_def)

lemma default_accepted: "validate_with_maxima runtime_config_default map_maxima_default = Inr ()"
  using default_config_valid by simp

lemma sample_attach:
  "\<exists>reply sv. service_attach memory_backend \<lparr>irq_elf_path = ''ssp.o'', irq_interfaces = [''eth0'']\<rparr>
       (sample_service memory_default) = (Inr reply, sv) \<and> op_success reply
     \<and> sv_config sv = sv_config (sample_service memory_default) \<and> ms_maxima (sv_backend sv) = map_maxima_default"
  by (simp add: service_attach_def on_backend_def memory_backend_def memory_attach_def memory_default_def
      sample_service_def service_new_def Let_def validate_snapshot_with_maxima_def snapshot_def default_accepted
      memory_set_runtime_config_def set_ready_def required_links_def)

lemma to_be_bytes_u32_nonempty: "to_be_bytes (w :: u32) \<noteq> []"
  using length_to_be_bytes [of w] by (intro notI) simp

lemma sample_target:
  "runtime_config_from_proto (Some (set_target (SocketAddrV4 0x7F000001 15000)
       (the (cfr_config (config_to_proto runtime_config_default))))) =
     Inr (runtime_config_default\<lparr>rc_revision := 0, rc_ipv4_target := Some (SocketAddrV4 0x7F000001 15000)\<rparr>)"
  by (simp add: runtime_config_from_proto_def set_target_def config_to_proto_def runtime_config_default_def
      RUNTIME_CONFIG_ABI_VERSION_def service_parse_address_def parse_target_def u16_try_from_u32_def
      target_address_bytes_def target_port_u32_def from_socket_addr_def as_millis_def from_secs_def from_millis_def
      to_be_bytes_u32_nonempty)

lemma sample_configure:
  assumes "sv_config sv = sv_config (sample_service memory_default)" "ms_maxima (sv_backend sv) = map_maxima_default"
  shows "is_ok (fst (configure_target (service_channel sh memory_backend) (SocketAddrV4 0x7F000001 15000) (sv, clock)))"
proof -
  let ?c = "runtime_config_default\<lparr>rc_revision := 0, rc_ipv4_target := Some (SocketAddrV4 0x7F000001 15000)\<rparr>"
  have "valid_config map_maxima_default ?c"
    using default_config_valid by (simp add: valid_config_def valid_target_def)
  then have v: "validate_with_maxima ?c map_maxima_default = Inr ()" by simp
  have cs: "sv_config sv = \<lparr>cs_current = runtime_config_default, cs_next_revision = 2, cs_maxima = map_maxima_default\<rparr>"
    using assms(1) by (simp add: sample_service_def service_new_def)
  have "is_ok (fst (set_config memory_backend (Some (set_target (SocketAddrV4 0x7F000001 15000)
      (the (cfr_config (config_to_proto runtime_config_default))))) sv))"
    unfolding set_config_def sample_target
    by (simp add: cs assms(2) snapshot_def memory_backend_def v on_backend_def memory_set_runtime_config_def
        store_update_def Let_def)
  moreover obtain config where "cfr_config (config_to_proto runtime_config_default) = Some config"
    by (simp add: config_to_proto_def)
  ultimately show ?thesis
    by (auto simp: configure_target_def service_channel_def bind_act_def served_rpc get_config_def cs snapshot_def
        is_ok_iff split: sum.splits prod.splits)
qed

lemma sample_prepared:
  "\<exists>s1. host_prepare sample_build sample_host_env (service_channel sh memory_backend) sample_host_args
     (sample_service memory_default, []) = Inr s1"
proof -
  let ?C = "service_channel sh memory_backend"
  let ?a = "SocketAddrV4 0x7F000001 15000"
  obtain config where c: "host_settings sample_build (sample_host_env :: memory_state served process_env) sample_host_args = Some config"
    using sample_settings by blast
  have listen: "px_listen config = ?a"
    using c by (auto simp: host_settings_def Let_def build_proxy_config_def sample_build_def sample_host_args_def
        split: sum.splits prod.splits if_splits)
  obtain reply sv where at: "service_attach memory_backend \<lparr>irq_elf_path = ''ssp.o'', irq_interfaces = [''eth0'']\<rparr>
      (sample_service memory_default) = (Inr reply, sv)" "op_success reply"
    "sv_config sv = sv_config (sample_service memory_default)" "ms_maxima (sv_backend sv) = map_maxima_default"
    using sample_attach by blast
  obtain s1 where conf: "configure_target ?C ?a (sv, []) = (Inr (), s1)"
    using sample_configure [OF at(3,4), of sh "[]"] by (cases "configure_target ?C ?a (sv, [])") (auto simp: is_ok_iff)
  have "bounded_rpc ?C (ch_attach ?C \<lparr>irq_elf_path = ''ssp.o'', irq_interfaces = [''eth0'']\<rparr>)
      (sample_service memory_default, []) = (Inr reply, sv, [])"
    using at(1) by (simp add: service_channel_def served_rpc)
  then have "activate ?C ''ssp.o'' ''eth0'' ?a (sample_service memory_default, []) = (Inr (), s1)"
    using at(2) conf by (simp add: activate_def client_locked_def bind_act_def attempt_def) (simp add: service_channel_def)
  moreover have "connect_client sample_build sample_host_env sample_host_args s = (Inr (), s)"
    for s :: "memory_state served" by (simp add: connect_client_def sample_host_env_def sample_host_args_def)
  moreover have "and_then (proxy_bind (sample_host_env :: memory_state served process_env) config)
      (\<lambda>l. map_err Io (bound_local_addr (sample_host_env :: memory_state served process_env) l)) = Inr ?a"
    by (simp add: proxy_bind_def bound_local_addr_def listen sample_host_env_def)
  moreover have "ha_bpf_elf sample_host_args = ''ssp.o''" "ha_interface sample_host_args = ''eth0''"
    by (simp_all add: sample_host_args_def)
  ultimately show ?thesis
    using c proxy_new_usable [OF host_settings_usable [OF c]] by (simp add: host_prepare_def)
qed


end
