(* ===== verification/Spec2Isabelle.thy ===== *)
theory Spec2Isabelle
  imports End_To_End Quiet_Deletion Udp_Associations Conditional_Pairing Conditional_Lifecycle
    Tcp_Sessions Host_Startup
begin

text \<open>
  \<^bold>\<open>ShadowSocketProxy\<close>: a verification development for the Rust sources under \<open>src/crates\<close>.

  \<^bold>\<open>The program.\<close> A kernel classifier redirects new connections of a WSL guest to a proxy on the
  host and remembers, in its maps, where each was meant to go. The control service
  (\<open>control-service\<close>, on Linux) attaches the classifier, owns its runtime configuration and
  answers for its maps over gRPC. The host proxy (\<open>host-proxy\<close>, on Windows or elsewhere)
  activates the classifier through that API, accepts the redirected TCP connections and UDP
  datagrams, asks the service for the original destination of each, forwards the traffic, and
  deletes flows that are over. The two sides authenticate each other with a pre-shared key or
  with pinned certificates (\<open>tls-rustls\<close>).

  \<^bold>\<open>Conventions.\<close> A struct is a record and an enum a datatype. A \<open>Result\<close> is a sum with the error
  on the left. Fixed-width integers are words; \<open>usize\<close> is a natural number; durations and
  clock readings are natural numbers of nanoseconds or the words the code keeps. A trait
  object, a third-party library or the operating system is a record of functions over a state,
  passed as an argument; theorems that do not say otherwise hold for every such record.
  A method that holds its lock throughout is one step. Code whose interleaving matters
  is a step function on a program counter, with an event for what each await or system call
  yields, and its theorems quantify over all event sequences. Tracing and console output are
  left out except where a theorem is about it.

  \<^bold>\<open>Shared theories.\<close>
  \<^item> \<open>Prelude\<close>: words, byte order, results, slices, decimal rendering, and their rewrite rules.
  \<^item> \<open>Net\<close>: addresses and durations of the standard library. \<open>BTree_Map\<close>: ordered maps, with the
    locale \<open>ordered_map\<close> interpreted on them.

  \<^bold>\<open>The control service\<close> (\<open>crates/control-service/src\<close>).
  \<^item> \<open>Mapping_ABI\<close> (\<open>mapping.rs\<close>): tuples, mappings and the 256-byte flow state with their codecs,
    validation and TCP close tracking. Round trips hold exactly for valid values; along any
    packet trace the terminal deadline is set by the completing packet.
  \<^item> \<open>Log_Ring\<close> (\<open>logs.rs\<close>): the bounded log. A pull after any history returns the records after
    the cursor or reports their eviction; consecutive pulls have no gap. Locale \<open>log_service\<close>.
  \<^item> \<open>Runtime_Config\<close> (\<open>config.rs\<close>): configuration, validation against a declarative
    specification, and the publishing store (locale \<open>publishing_store\<close>).
  \<^item> \<open>Backend\<close>, \<open>Linux_Backend\<close>, \<open>Aya_Adapter\<close> (\<open>bpf.rs\<close>): the backend trait with its contracts
    (locales \<open>link_backend\<close>, \<open>flow_backend\<close>, \<open>tc_adapter\<close>), the in-memory backend, the Linux
    backend with its attach transaction, and the adapter over the aya library. The contracts
    are discharged for these definitions and give the transaction theorems.
  \<^item> \<open>Deletion_Protocol\<close>, \<open>Quiet_Deletion\<close>: the adapter's flow deletion against every behaviour of
    the kernel's concurrent packet processing (safety), and on a kernel that leaves the flow
    alone (it completes).
  \<^item> \<open>Proto\<close>, \<open>Control_Service\<close>, \<open>Service_Correctness\<close> (\<open>control.proto\<close>, \<open>service.rs\<close>): messages,
    handlers, and what each reply tells about the state: enumeration is complete, deletion
    replies are accurate, a failed attach changes nothing, configuration is all or nothing.
  \<^item> \<open>Transport\<close> (\<open>transport.rs\<close>): credential checks, the pre-shared-key context and its
    callbacks, the handshake of a socket, and the stream of connections, of which at most 64
    are in their handshake.
  \<^item> \<open>Control_Startup\<close> (\<open>lifecycle.rs\<close>, \<open>main.rs\<close>): settings, the runtime, and the process from
    startup to the final detach.

  \<^bold>\<open>Between the two sides\<close> (\<open>crates/tls-rustls/src/lib.rs\<close>): \<open>Tls_Pin\<close> has the pin parser, the
  loading of identities and the two verifiers; each side accepts exactly the pinned peer.

  \<^bold>\<open>The host proxy\<close> (\<open>crates/host-proxy/src\<close>).
  \<^item> \<open>Host_Types\<close> and \<open>Host_Client\<close> (\<open>lib.rs\<close>, \<open>rustls_client.rs\<close>): data, configuration, and the
    control client over the generated stub; what it returns was checked.
  \<^item> \<open>Udp_Associations\<close> (\<open>lib.rs\<close>): forwarding, relays, maintenance and shutdown of UDP as
    interleaved steps; no cross-talk, no orphan relay, checked invalidation.
  \<^item> \<open>Maintenance\<close> (\<open>lib.rs\<close>): the expiry scan with its backoff. The loop over pages and passes
    takes fuel, since a service could hand out page tokens for ever; \<open>End_To_End\<close> shows that
    against the modelled service fuel above the number of flows plus one ends the scan.
  \<^item> \<open>Tcp_Sessions\<close> (\<open>lib.rs\<close>): the accept loop and bridges outside Windows.
  \<^item> \<open>Conditional_Context\<close>, \<open>Conditional_Accept\<close> (\<open>lib.rs\<close>): the Windows path, where a connection
    is accepted only after its outbound socket is connected: the callback, and the
    coordinator, worker and listener threads as interleaved steps. \<open>Conditional_Accounts\<close> and
    \<open>Conditional_Phases\<close> hold the invariants, \<open>Conditional_Shutdown\<close> socket ownership,
    capacities and termination with an explicit bound, \<open>Conditional_Pairing\<close> that sessions pair
    the right sockets and that deferred attempts are attended, and \<open>Conditional_Lifecycle\<close> the
    refinement of an abstract life cycle of one attempt at a time.
  \<^item> \<open>Host_Startup\<close> (\<open>main.rs\<close>, \<open>lib.rs\<close>): settings, \<open>Proxy\<close>, and the process from connecting to
    the final detach.

  \<^bold>\<open>Composition.\<close> \<open>End_To_End\<close> puts the host client on a channel whose other end is the modelled
  service over the in-memory backend: lookups return the stored destination, activation
  configures the target or leaves the configuration alone, a maintenance pass removes the
  expired flows and keeps the others. \<open>Host_Startup\<close> runs the whole host process over the same
  channel.

  \<^bold>\<open>Not modelled.\<close>
  \<^item> The classifier in C runs in the kernel; what it does to the maps is an arbitrary sequence
    of events between the service's own map operations.
  \<^item> Opening the clients' TLS channel, the sockets, OpenSSL, rustls, tonic, aya and tokio are
    libraries or system calls: their results are inputs. The \<open>AsyncRead\<close> and \<open>AsyncWrite\<close>
    implementations and the handshake signature checks forward to them.
  \<^item> The protobuf wire format and the generated stubs belong to prost and tonic.
  \<^item> Parsing the command line is clap's, and \<open>SSP_LISTEN_ADDR\<close> enters as the standard library
    parsed it.
  \<^item> \<open>e2e-runner\<close>, \<open>bpf/fixture-runner\<close>, the build scripts and the test modules are test and
    build programs on which the product does not depend.
\<close>

end
